(* ===== verification/Prelude.thy ===== *)
theory Prelude
  imports Main "HOL-Library.Word" "HOL-Library.AList" "HOL-Library.List_Lexorder"
    "HOL-Library.Char_ord" "HOL-Library.Multiset" "HOL-Library.Monad_Syntax"
begin

text \<open>
  What every component shares: the machine types and the casts and arithmetic of Rust on
  them, the two ways a Rust container becomes a HOL value, and the lemma collections.

  Conventions of the whole development:
  \<^item> a value that may panic has an \<open>option\<close> type and \<open>None\<close> is the panic;
  \<^item> a value of type \<open>Result<T, E>\<close> is a sum, \<open>Inl\<close> the error;
  \<^item> \<open>usize\<close>, \<open>u64\<close>, \<open>u32\<close>, \<open>u8\<close> are words where wrap-around is part of the code's
    meaning (ring buffer counters, addresses, metrics) and \<open>nat\<close> where they are container
    sizes; \<open>i64\<close> is \<open>int\<close> with the wrap-around written out (\<open>as_i64\<close>, \<open>sat_add_i64\<close>).
    The crate has no \<open>[profile]\<close> section, so a release build wraps on overflow;
  \<^item> a \<open>HashMap\<close> is an association list with distinct keys. Its order is one iteration
    order; lemmas that leave the order open are stated for every list with distinct keys;
  \<^item> a \<open>BTreeSet\<close> is the sorted list of its elements.
\<close>

unbundle bit_operations_syntax

subsection \<open>Lemma collections\<close>

named_theorems map_simps \<open>what the container operations do to lookups\<close>
named_theorems inv_intros \<open>an operation keeps its component's invariant\<close>
named_theorems frame_simps \<open>what an operation leaves unchanged\<close>

subsection \<open>Machine types\<close>

type_synonym u8 = "8 word"
type_synonym u32 = "32 word"
type_synonym u64 = "64 word"
type_synonym usize = "64 word"

text \<open>\<open>x as i64\<close>: two's complement reading of the low 64 bits.\<close>

definition as_i64 :: "int \<Rightarrow> int" where
  "as_i64 x = (x + 2 ^ 63) mod 2 ^ 64 - 2 ^ 63"

definition i64_min :: int where "i64_min = - (2 ^ 63)"
definition i64_max :: int where "i64_max = 2 ^ 63 - 1"

definition is_i64 :: "int \<Rightarrow> bool" where
  "is_i64 x \<longleftrightarrow> i64_min \<le> x \<and> x \<le> i64_max"

text \<open>\<open>i64::saturating_add\<close> and \<open>i64::saturating_mul\<close>.\<close>

definition sat_i64 :: "int \<Rightarrow> int" where
  "sat_i64 x = max i64_min (min i64_max x)"

definition sat_add_i64 :: "int \<Rightarrow> int \<Rightarrow> int" where
  "sat_add_i64 a b = sat_i64 (a + b)"

definition sat_mul_i64 :: "int \<Rightarrow> int \<Rightarrow> int" where
  "sat_mul_i64 a b = sat_i64 (a * b)"

text \<open>\<open>x as u64\<close> and \<open>x as u32\<close> for a non-negative or negative \<open>x\<close>.\<close>

definition as_u64 :: "int \<Rightarrow> nat" where
  "as_u64 x = nat (x mod 2 ^ 64)"

definition as_u32 :: "int \<Rightarrow> nat" where
  "as_u32 x = nat (x mod 2 ^ 32)"

definition u32_max :: nat where "u32_max = 2 ^ 32 - 1"

text \<open>\<open>a += b\<close> on a \<open>usize\<close> kept as \<open>nat\<close>.\<close>

definition usize_add :: "nat \<Rightarrow> nat \<Rightarrow> nat" where
  "usize_add a b = (a + b) mod 2 ^ 64"

lemma u32_max_eq: "u32_max = 4294967295"
  by (simp add: u32_max_def)

lemma u32_max_pos [simp]: "0 < u32_max"
  by (simp add: u32_max_eq)

lemma as_i64_is_i64 [simp, intro]: "is_i64 (as_i64 x)"
proof -
  have "0 \<le> (x + 2 ^ 63) mod 2 ^ 64" "(x + 2 ^ 63) mod 2 ^ 64 < 2 ^ 64" by simp_all
  then show ?thesis unfolding is_i64_def i64_min_def i64_max_def as_i64_def by simp
qed

lemma as_i64_id: "is_i64 x \<Longrightarrow> as_i64 x = x"
  unfolding is_i64_def i64_min_def i64_max_def as_i64_def by simp

lemma as_i64_nat_small: "n < 2 ^ 63 \<Longrightarrow> as_i64 (int n) = int n"
proof (rule as_i64_id)
  assume "n < 2 ^ 63"
  then have "int n < 2 ^ 63" by (metis of_nat_less_iff of_nat_numeral of_nat_power)
  then show "is_i64 (int n)" unfolding is_i64_def i64_min_def i64_max_def by linarith
qed

lemma sat_i64_is_i64 [simp, intro]: "is_i64 (sat_i64 x)"
  unfolding is_i64_def sat_i64_def i64_min_def i64_max_def by simp

lemma sat_i64_id: "is_i64 x \<Longrightarrow> sat_i64 x = x"
  unfolding is_i64_def sat_i64_def by simp

lemma sat_add_i64_is_i64 [simp, intro]: "is_i64 (sat_add_i64 a b)"
  by (simp add: sat_add_i64_def)

lemma usize_add_small: "a + b < 2 ^ 64 \<Longrightarrow> usize_add a b = a + b"
  by (simp add: usize_add_def)

lemma mod_add_left_cancel_nat:
  fixes x a b n :: nat
  assumes "(x + a) mod n = (x + b) mod n" "a < n" "b < n"
  shows "a = b"
proof -
  have "(int x + int a) mod int n = (int x + int b) mod int n"
    using assms(1) by (metis of_nat_add of_nat_mod)
  then have "(int x + int a - int x) mod int n = (int x + int b - int x) mod int n"
    by (rule mod_diff_cong) simp
  then have "int (a mod n) = int (b mod n)" by (simp add: of_nat_mod)
  then show ?thesis using assms(2,3) by simp
qed

subsection \<open>Results\<close>

text \<open>The \<open>?\<close> operator on \<open>Result\<close>.\<close>

fun res_bind :: "'e + 'a \<Rightarrow> ('a \<Rightarrow> 'e + 'b) \<Rightarrow> 'e + 'b" where
  "res_bind (Inl e) f = Inl e"
| "res_bind (Inr x) f = f x"

lemma res_bind_eq_Inr: "res_bind r f = Inr y \<longleftrightarrow> (\<exists>x. r = Inr x \<and> f x = Inr y)"
  by (cases r) auto

lemma res_bind_eq_Inl:
  "res_bind r f = Inl e \<longleftrightarrow> r = Inl e \<or> (\<exists>x. r = Inr x \<and> f x = Inl e)"
  by (cases r) auto

lemma res_bind_assoc: "res_bind (res_bind r f) g = res_bind r (\<lambda>x. res_bind (f x) g)"
  by (cases r) auto

definition is_ok :: "'e + 'a \<Rightarrow> bool" where
  "is_ok r = (case r of Inl _ \<Rightarrow> False | Inr _ \<Rightarrow> True)"

lemma is_ok_simps [simp]: "is_ok (Inr x)" "\<not> is_ok (Inl e)"
  by (simp_all add: is_ok_def)

subsection \<open>Hash maps\<close>

text \<open>\<open>*map.entry(k).or_insert(0) += n\<close>\<close>

definition entry_add :: "'k \<Rightarrow> nat \<Rightarrow> ('k \<times> nat) list \<Rightarrow> ('k \<times> nat) list" where
  "entry_add k n m =
     AList.update k (usize_add (case map_of m k of None \<Rightarrow> 0 | Some v \<Rightarrow> v) n) m"

text \<open>The counts of a map, read as a function that is zero off the keys.\<close>

definition count_of :: "('k \<times> nat) list \<Rightarrow> 'k \<Rightarrow> nat" where
  "count_of m k = (case map_of m k of None \<Rightarrow> 0 | Some v \<Rightarrow> v)"

definition map_keys :: "('k \<times> 'v) list \<Rightarrow> 'k set" where
  "map_keys m = fst ` set m"

definition map_wf :: "('k \<times> 'v) list \<Rightarrow> bool" where
  "map_wf m \<longleftrightarrow> distinct (List.map fst m)"

lemma map_wf_Nil [simp]: "map_wf []"
  by (simp add: map_wf_def)

lemma map_wf_update [simp, inv_intros]: "map_wf m \<Longrightarrow> map_wf (AList.update k v m)"
  by (simp add: map_wf_def distinct_update)

lemma map_wf_delete [simp, inv_intros]: "map_wf m \<Longrightarrow> map_wf (AList.delete k m)"
  by (simp add: map_wf_def distinct_delete)

lemma map_wf_entry_add [simp, inv_intros]: "map_wf m \<Longrightarrow> map_wf (entry_add k n m)"
  by (simp add: entry_add_def)

lemma count_of_Nil [simp]: "count_of [] k = 0"
  by (simp add: count_of_def)

lemma count_of_entry_add [map_simps]:
  "count_of (entry_add k n m) k' =
     (if k' = k then usize_add (count_of m k) n else count_of m k')"
  by (simp add: entry_add_def count_of_def update_conv')

lemma map_keys_update [map_simps]: "map_keys (AList.update k v m) = insert k (map_keys m)"
  by (simp add: map_keys_def dom_update)

lemma map_keys_entry_add [map_simps]: "map_keys (entry_add k n m) = insert k (map_keys m)"
  by (simp add: entry_add_def map_simps)

lemma map_of_eq_None_keys: "map_of m k = None \<longleftrightarrow> k \<notin> map_keys m"
  by (simp add: map_keys_def map_of_eq_None_iff)

lemma map_of_eq_Some_mem: "map_wf m \<Longrightarrow> map_of m k = Some v \<longleftrightarrow> (k, v) \<in> set m"
  by (simp add: map_wf_def)

lemma map_of_AList_update [map_simps]:
  "map_of (AList.update k v m) k' = (if k' = k then Some v else map_of m k')"
  by (simp add: update_conv')

lemma map_of_AList_delete [map_simps]:
  "map_of (AList.delete k m) k' = (if k' = k then None else map_of m k')"
  by (simp add: delete_conv')

lemma update_fresh: "k \<notin> map_keys m \<Longrightarrow> AList.update k v m = m @ [(k, v)]"
  by (induction m) (auto simp: map_keys_def)

lemma length_update_fresh:
  assumes "k \<notin> map_keys m"
  shows "length (AList.update k v m) = Suc (length m)"
  unfolding update_fresh [OF assms] by simp

subsection \<open>Ordered sets\<close>

text \<open>\<open>BTreeSet::insert\<close> on the sorted list of elements.\<close>

definition btree_insert :: "'a::linorder \<Rightarrow> 'a list \<Rightarrow> 'a list" where
  "btree_insert x xs = List.insort_insert x xs"

definition btree_wf :: "'a::linorder list \<Rightarrow> bool" where
  "btree_wf xs \<longleftrightarrow> sorted xs \<and> distinct xs"

lemma btree_wf_Nil [simp]: "btree_wf []"
  by (simp add: btree_wf_def)

lemma btree_wf_insert [simp, inv_intros]: "btree_wf xs \<Longrightarrow> btree_wf (btree_insert x xs)"
  by (simp add: btree_wf_def btree_insert_def sorted_insort_insert distinct_insort_insert)

lemma set_btree_insert [simp]: "set (btree_insert x xs) = insert x (set xs)"
  by (simp add: btree_insert_def set_insort_insert)

lemma btree_eqI: "btree_wf xs \<Longrightarrow> btree_wf ys \<Longrightarrow> set xs = set ys \<Longrightarrow> xs = ys"
  by (simp add: btree_wf_def sorted_distinct_set_unique)

subsection \<open>Decimal numbers\<close>

text \<open>\<open>to_string()\<close> of an unsigned integer.\<close>

fun digits :: "nat \<Rightarrow> nat list" where
  "digits n = (if n < 10 then [n] else digits (n div 10) @ [n mod 10])"

declare digits.simps [simp del]

definition to_decimal :: "nat \<Rightarrow> string" where
  "to_decimal n = List.map (\<lambda>d. char_of (48 + d)) (digits n)"

fun undigits :: "nat list \<Rightarrow> nat" where
  "undigits ds = foldl (\<lambda>a d. 10 * a + d) 0 ds"

lemma undigits_digits: "undigits (digits n) = n"
proof (induction n rule: digits.induct)
  case (1 n)
  then show ?case by (subst digits.simps) auto
qed

lemma digits_lt: "d \<in> set (digits n) \<Longrightarrow> d < 10"
proof (induction n rule: digits.induct)
  case (1 n)
  then show ?case
    by (subst (asm) (2) digits.simps) (auto split: if_splits)
qed

lemma to_decimal_inject: "to_decimal m = to_decimal n \<longleftrightarrow> m = n"
proof
  assume eq: "to_decimal m = to_decimal n"
  have "\<And>k. List.map (\<lambda>c. of_char c - 48) (to_decimal k) = digits k"
    unfolding to_decimal_def List.map_map
    by (rule map_idI) (use digits_lt in \<open>force simp: of_char_of\<close>)
  then have "digits m = digits n" using eq by metis
  then show "m = n" by (metis undigits_digits)
qed simp

end
