(* ===== verification/Ringbuffer.thy ===== *)
theory Ringbuffer
  imports Prelude
begin

text \<open>
  The crate \<open>rust/crates/ringbuffer\<close>: a bounded buffer of records written from a signal
  handler and read from a normal thread. A record takes one slot for its length and one
  slot per value; \<open>head\<close> and \<open>tail\<close> are free running 64-bit counters, reduced to an array
  index by a mask.

  This theory models every operation as it runs without interference. The abstraction
  \<open>holds rb recs\<close> says that the published, unread records of \<open>rb\<close> are \<open>recs\<close>, oldest
  first; each operation is shown to implement the matching operation on that list. The
  interleavings of producers and consumers are in \<open>Ringbuffer_Concurrent\<close>.
\<close>

subsection \<open>Data\<close>

text \<open>\<open>MaybeUninit<Slot<T>>\<close>: \<open>None\<close> is a slot that was never written.\<close>

datatype 'a slot = Len usize | Value 'a

record 'a ring_buffer =
  slots :: "'a slot option list"
  head :: usize
  tail :: usize
  producer_locked :: bool
  consumer_locked :: bool

datatype push_error = Full

datatype pop_error = Empty | TooSmall usize

record producer =
  p_head :: usize
  p_tail :: usize

record consumer =
  c_head :: usize
  c_tail :: usize

subsection \<open>Operations\<close>

definition is_power_of_two :: "nat \<Rightarrow> bool" where
  "is_power_of_two n \<longleftrightarrow> (\<exists>k<64. n = 2 ^ k)"

text \<open>The assertion in \<open>new\<close> is evaluated at compile time: \<open>None\<close> is a type that does not build.\<close>

definition rb_new :: "nat \<Rightarrow> 'a ring_buffer option" where
  "rb_new n =
     (if is_power_of_two n
      then Some \<lparr>slots = replicate n None, head = 0, tail = 0,
                 producer_locked = False, consumer_locked = False\<rparr>
      else None)"

text \<open>\<open>try_lock\<close>: compare-exchange from \<open>false\<close> to \<open>true\<close>; the result and the new flag.\<close>

definition try_lock :: "bool \<Rightarrow> bool \<times> bool" where
  "try_lock flag = (if flag then (False, flag) else (True, True))"

definition acquire_producer ::
    "'a ring_buffer \<Rightarrow> producer option \<times> 'a ring_buffer" where
  "acquire_producer rb =
     (let (ok, flag) = try_lock (producer_locked rb);
          rb = rb\<lparr>producer_locked := flag\<rparr>
      in if \<not> ok then (None, rb) else (Some \<lparr>p_head = head rb, p_tail = tail rb\<rparr>, rb))"

definition acquire_consumer ::
    "'a ring_buffer \<Rightarrow> consumer option \<times> 'a ring_buffer" where
  "acquire_consumer rb =
     (let (ok, flag) = try_lock (consumer_locked rb);
          rb = rb\<lparr>consumer_locked := flag\<rparr>
      in if \<not> ok then (None, rb) else (Some \<lparr>c_head = head rb, c_tail = tail rb\<rparr>, rb))"

definition drop_producer :: "'a ring_buffer \<Rightarrow> 'a ring_buffer" where
  "drop_producer rb = rb\<lparr>producer_locked := False\<rparr>"

definition drop_consumer :: "'a ring_buffer \<Rightarrow> 'a ring_buffer" where
  "drop_consumer rb = rb\<lparr>consumer_locked := False\<rparr>"

text \<open>\<open>slot\<close>: the index of a counter value in the array.\<close>

definition slot_index :: "'a ring_buffer \<Rightarrow> usize \<Rightarrow> nat" where
  "slot_index rb index = unat (index AND (of_nat (length (slots rb)) - 1))"

definition write_slot :: "'a ring_buffer \<Rightarrow> usize \<Rightarrow> 'a slot \<Rightarrow> 'a ring_buffer" where
  "write_slot rb index s = rb\<lparr>slots := (slots rb)[slot_index rb index := Some s]\<rparr>"

definition read_slot :: "'a ring_buffer \<Rightarrow> usize \<Rightarrow> 'a slot option" where
  "read_slot rb index = slots rb ! slot_index rb index"

text \<open>\<open>N - head.wrapping_sub(tail) > len\<close>\<close>

definition fits :: "'a ring_buffer \<Rightarrow> producer \<Rightarrow> usize \<Rightarrow> bool" where
  "fits rb p len \<longleftrightarrow> of_nat (length (slots rb)) - (p_head p - p_tail p) > len"

fun write_values :: "'a ring_buffer \<Rightarrow> usize \<Rightarrow> 'a list \<Rightarrow> 'a ring_buffer" where
  "write_values rb index [] = rb"
| "write_values rb index (v # vs) = write_values (write_slot rb index (Value v)) (index + 1) vs"

definition push_slice ::
    "producer \<Rightarrow> 'a ring_buffer \<Rightarrow> 'a list \<Rightarrow>
     (push_error + unit) \<times> producer \<times> 'a ring_buffer" where
  "push_slice p rb values =
     (let len = of_nat (length values);
          p = (if fits rb p len then p else p\<lparr>p_tail := tail rb\<rparr>)
      in if \<not> fits rb p len then (Inl Full, p, rb)
         else
           let rb = write_values rb (p_head p + 1) values;
               rb = write_slot rb (p_head p) (Len len);
               p = p\<lparr>p_head := p_head p + 1 + len\<rparr>
           in (Inr (), p, rb\<lparr>head := p_head p\<rparr>))"

text \<open>
  Reading the values of a record. \<open>None\<close> stands for the two outcomes the code rules out:
  the \<open>unreachable!\<close> panic on a slot that holds a length, and the read of a slot that was
  never written.
\<close>

fun read_values :: "'a ring_buffer \<Rightarrow> usize \<Rightarrow> nat \<Rightarrow> 'a list option" where
  "read_values rb index 0 = Some []"
| "read_values rb index (Suc n) =
     (case read_slot rb index of
        Some (Value v) \<Rightarrow> do { vs \<leftarrow> read_values rb (index + 1) n; Some (v # vs) }
      | _ \<Rightarrow> None)"

definition pop_slice ::
    "consumer \<Rightarrow> 'a ring_buffer \<Rightarrow> 'a list \<Rightarrow>
     ((pop_error + nat) \<times> 'a list \<times> consumer \<times> 'a ring_buffer) option" where
  "pop_slice c rb out =
     (let c = (if c_tail c = c_head c then c\<lparr>c_head := head rb\<rparr> else c)
      in if c_tail c = c_head c then Some (Inl Empty, out, c, rb)
         else case read_slot rb (c_tail c) of
                Some (Len len) \<Rightarrow>
                  if unat len > length out then Some (Inl (TooSmall len), out, c, rb)
                  else do {
                    vs \<leftarrow> read_values rb (c_tail c + 1) (unat len);
                    let c = c\<lparr>c_tail := c_tail c + 1 + len\<rparr>;
                    Some (Inr (unat len), vs @ drop (unat len) out, c, rb\<lparr>tail := c_tail c\<rparr>)
                  }
              | _ \<Rightarrow> None)"

subsection \<open>The abstract contents\<close>

text \<open>How a list of records lies in the slots.\<close>

definition encode_record :: "'a list \<Rightarrow> 'a slot list" where
  "encode_record r = Len (of_nat (length r)) # List.map Value r"

definition encode_records :: "'a list list \<Rightarrow> 'a slot list" where
  "encode_records recs = concat (List.map encode_record recs)"

definition rb_size :: "'a ring_buffer \<Rightarrow> bool" where
  "rb_size rb \<longleftrightarrow> is_power_of_two (length (slots rb))"

text \<open>The slots from counter value \<open>i\<close> on hold \<open>xs\<close>.\<close>

definition slots_hold :: "'a ring_buffer \<Rightarrow> usize \<Rightarrow> 'a slot list \<Rightarrow> bool" where
  "slots_hold rb i xs \<longleftrightarrow> (\<forall>j<length xs. read_slot rb (i + of_nat j) = Some (xs ! j))"

definition holds :: "'a ring_buffer \<Rightarrow> 'a list list \<Rightarrow> bool" where
  "holds rb recs \<longleftrightarrow>
     rb_size rb \<and>
     length (encode_records recs) \<le> length (slots rb) \<and>
     head rb = tail rb + of_nat (length (encode_records recs)) \<and>
     slots_hold rb (tail rb) (encode_records recs)"

text \<open>Slots in use: one more than the length, for every record.\<close>

definition used :: "'a list list \<Rightarrow> nat" where
  "used recs = length (encode_records recs)"

text \<open>
  A handle's cached counters: a producer knows the exact \<open>head\<close> and a \<open>tail\<close> that may
  lag behind, a consumer knows the exact \<open>tail\<close> and a \<open>head\<close> that may lag behind but
  always lies between two records.
\<close>

definition producer_room ::
    "'a ring_buffer \<Rightarrow> producer \<Rightarrow> 'a list list \<Rightarrow> nat \<Rightarrow> bool" where
  "producer_room rb p recs n \<longleftrightarrow>
     p_head p = head rb \<and>
     (\<exists>d. tail rb = p_tail p + of_nat d \<and> n + d + used recs \<le> length (slots rb))"

definition producer_ok :: "'a ring_buffer \<Rightarrow> producer \<Rightarrow> 'a list list \<Rightarrow> bool" where
  "producer_ok rb p recs \<longleftrightarrow> producer_room rb p recs 0"

definition consumer_ok :: "'a ring_buffer \<Rightarrow> consumer \<Rightarrow> 'a list list \<Rightarrow> bool" where
  "consumer_ok rb c recs \<longleftrightarrow>
     c_tail c = tail rb \<and>
     (\<exists>k\<le>length recs. c_head c = tail rb + of_nat (used (take k recs)))"

subsection \<open>Indices\<close>

lemma power_of_two_bounds:
  assumes "is_power_of_two n"
  shows "0 < n" "n < 2 ^ 64"
proof -
  from assms obtain k where k: "k < 64" "n = 2 ^ k"
    unfolding is_power_of_two_def by blast
  have "(2::nat) ^ k < 2 ^ 64" using k(1) by (rule power_strict_increasing) simp
  then show "0 < n" "n < 2 ^ 64" using k by simp_all
qed

lemma slot_index_mod:
  assumes "rb_size rb"
  shows "slot_index rb i = unat i mod length (slots rb)"
proof -
  from assms obtain k where k: "k < 64" "length (slots rb) = 2 ^ k"
    unfolding rb_size_def is_power_of_two_def by blast
  have "i AND (of_nat (length (slots rb)) - 1) = take_bit k i"
    unfolding k(2) take_bit_eq_mask mask_eq_exp_minus_1 by simp
  then have "slot_index rb i = take_bit k (unat i)"
    unfolding slot_index_def by (simp only: unsigned_take_bit_eq)
  then show ?thesis by (simp only: take_bit_eq_mod k(2))
qed

lemma slot_index_lt: "rb_size rb \<Longrightarrow> slot_index rb i < length (slots rb)"
  using power_of_two_bounds(1) [of "length (slots rb)"]
  by (simp add: slot_index_mod rb_size_def del: length_greater_0_conv)

lemma slot_index_offset:
  assumes "rb_size rb"
  shows "slot_index rb (t + of_nat a) = (unat t + a) mod length (slots rb)"
proof -
  from assms obtain k where k: "k < 64" "length (slots rb) = 2 ^ k"
    unfolding rb_size_def is_power_of_two_def by blast
  have dvd: "(2::nat) ^ k dvd 2 ^ 64" using k(1) by (intro le_imp_power_dvd) simp
  have "unat (t + of_nat a) = (unat t + a) mod 2 ^ 64"
    by (simp add: unat_word_ariths unat_of_nat mod_add_right_eq)
  then show ?thesis
    unfolding slot_index_mod [OF assms] k(2) by (simp only: mod_mod_cancel [OF dvd])
qed

lemma slot_index_eq_iff:
  assumes "rb_size rb" "a < length (slots rb)" "b < length (slots rb)"
  shows "slot_index rb (t + of_nat a) = slot_index rb (t + of_nat b) \<longleftrightarrow> a = b"
proof
  assume "slot_index rb (t + of_nat a) = slot_index rb (t + of_nat b)"
  then have "(unat t + a) mod length (slots rb) = (unat t + b) mod length (slots rb)"
    by (simp add: slot_index_offset [OF assms(1)])
  then show "a = b" using assms(2,3) by (rule mod_add_left_cancel_nat)
qed simp

subsection \<open>Reading back what was written\<close>

lemma write_slot_frame [simp, frame_simps]:
  "length (slots (write_slot rb i s)) = length (slots rb)"
  "head (write_slot rb i s) = head rb"
  "tail (write_slot rb i s) = tail rb"
  "producer_locked (write_slot rb i s) = producer_locked rb"
  "consumer_locked (write_slot rb i s) = consumer_locked rb"
  "rb_size (write_slot rb i s) = rb_size rb"
  by (simp_all add: write_slot_def rb_size_def)

lemma write_values_frame [simp, frame_simps]:
  "length (slots (write_values rb i vs)) = length (slots rb)"
  "head (write_values rb i vs) = head rb"
  "tail (write_values rb i vs) = tail rb"
  "producer_locked (write_values rb i vs) = producer_locked rb"
  "consumer_locked (write_values rb i vs) = consumer_locked rb"
  "rb_size (write_values rb i vs) = rb_size rb"
  by (induction vs arbitrary: rb i) simp_all

lemma read_slot_frame [simp, frame_simps]:
  "read_slot (rb\<lparr>head := h\<rparr>) i = read_slot rb i"
  "read_slot (rb\<lparr>tail := t\<rparr>) i = read_slot rb i"
  "read_slot (rb\<lparr>producer_locked := b\<rparr>) i = read_slot rb i"
  "read_slot (rb\<lparr>consumer_locked := b\<rparr>) i = read_slot rb i"
  "rb_size (rb\<lparr>head := h\<rparr>) = rb_size rb"
  "rb_size (rb\<lparr>tail := t\<rparr>) = rb_size rb"
  "rb_size (rb\<lparr>producer_locked := b\<rparr>) = rb_size rb"
  "rb_size (rb\<lparr>consumer_locked := b\<rparr>) = rb_size rb"
  by (simp_all add: read_slot_def slot_index_def rb_size_def)

lemma read_write_slot:
  assumes "rb_size rb" "a < length (slots rb)" "b < length (slots rb)"
  shows "read_slot (write_slot rb (t + of_nat a) s) (t + of_nat b) =
           (if b = a then Some s else read_slot rb (t + of_nat b))"
proof -
  have "slot_index (write_slot rb (t + of_nat a) s) (t + of_nat b) = slot_index rb (t + of_nat b)"
    by (simp add: slot_index_def)
  then show ?thesis
    using assms slot_index_lt [OF assms(1)] slot_index_eq_iff [OF assms(1) assms(3,2), of t]
    by (auto simp: read_slot_def write_slot_def nth_list_update)
qed

lemma read_write_values:
  assumes "rb_size rb" "a + length vs \<le> length (slots rb)" "b < length (slots rb)"
  shows "read_slot (write_values rb (t + of_nat a) vs) (t + of_nat b) =
           (if a \<le> b \<and> b < a + length vs then Some (Value (vs ! (b - a)))
            else read_slot rb (t + of_nat b))"
  using assms
proof (induction vs arbitrary: rb a)
  case Nil
  then show ?case by auto
next
  case (Cons v vs)
  let ?rb = "write_slot rb (t + of_nat a) (Value v)"
  have idx: "t + of_nat a + 1 = t + of_nat (Suc a)" by simp
  have "read_slot (write_values ?rb (t + of_nat (Suc a)) vs) (t + of_nat b) =
      (if Suc a \<le> b \<and> b < Suc a + length vs then Some (Value (vs ! (b - Suc a)))
       else read_slot ?rb (t + of_nat b))"
    using Cons.prems by (intro Cons.IH) simp_all
  moreover have "read_slot ?rb (t + of_nat b) =
      (if b = a then Some (Value v) else read_slot rb (t + of_nat b))"
    using Cons.prems by (intro read_write_slot) simp_all
  ultimately show ?case
    by (auto simp: idx nth_Cons' not_less_eq_eq simp del: of_nat_Suc)
qed

lemma read_values_eq:
  assumes "\<forall>j<length vs. read_slot rb (i + of_nat j) = Some (Value (vs ! j))"
  shows "read_values rb i (length vs) = Some vs"
  using assms
proof (induction vs arbitrary: i)
  case Nil
  then show ?case by simp
next
  case (Cons v vs)
  have hd: "read_slot rb i = Some (Value v)" using Cons.prems by (auto dest: spec [of _ 0])
  have "\<forall>j<length vs. read_slot rb (i + 1 + of_nat j) = Some (Value (vs ! j))"
    using Cons.prems by (auto dest: spec [of _ "Suc _"] simp: add.assoc)
  with hd Cons.IH show ?case by simp
qed

subsection \<open>The layout of records\<close>

lemma encode_records_simps [simp]:
  "encode_records [] = []"
  "encode_records (r # recs) = Len (of_nat (length r)) # List.map Value r @ encode_records recs"
  "encode_records (recs @ recs') = encode_records recs @ encode_records recs'"
  by (simp_all add: encode_records_def encode_record_def)

lemma used_simps [simp]:
  "used [] = 0"
  "used (r # recs) = Suc (length r + used recs)"
  "used (recs @ recs') = used recs + used recs'"
  by (simp_all add: used_def)

lemma used_take_le: "used (take k recs) \<le> used recs"
  by (metis append_take_drop_id le_add1 used_simps(3))

lemma used_take_0_iff: "used (take k recs) = 0 \<longleftrightarrow> k = 0 \<or> recs = []"
  by (cases k; cases recs) simp_all

lemma length_encode_records [simp]: "length (encode_records recs) = used recs"
  by (simp add: used_def)

lemma slots_hold_append:
  "slots_hold rb i (xs @ ys) \<longleftrightarrow> slots_hold rb i xs \<and> slots_hold rb (i + of_nat (length xs)) ys"
  (is "?l \<longleftrightarrow> ?r")
proof
  assume l: ?l
  show ?r unfolding slots_hold_def
  proof (intro conjI allI impI)
    fix j assume "j < length xs"
    then show "read_slot rb (i + of_nat j) = Some (xs ! j)"
      using l by (auto simp: slots_hold_def nth_append dest: spec [of _ j])
  next
    fix j assume "j < length ys"
    then show "read_slot rb (i + of_nat (length xs) + of_nat j) = Some (ys ! j)"
      using l by (auto simp: slots_hold_def nth_append add.assoc dest: spec [of _ "length xs + j"])
  qed
next
  assume r: ?r
  show ?l unfolding slots_hold_def
  proof (intro allI impI)
    fix j assume j: "j < length (xs @ ys)"
    show "read_slot rb (i + of_nat j) = Some ((xs @ ys) ! j)"
    proof (cases "j < length xs")
      case True
      then show ?thesis using r by (simp add: slots_hold_def nth_append)
    next
      case False
      define k where "k = j - length xs"
      have k: "j = length xs + k" "k < length ys" using False j by (auto simp: k_def)
      then have "read_slot rb (i + of_nat (length xs) + of_nat k) = Some (ys ! k)"
        using r by (simp add: slots_hold_def)
      then show ?thesis by (simp add: k(1) add.assoc)
    qed
  qed
qed

lemma slots_hold_Cons:
  "slots_hold rb i (x # xs) \<longleftrightarrow> read_slot rb i = Some x \<and> slots_hold rb (i + 1) xs"
  using slots_hold_append [of rb i "[x]" xs] by (simp add: slots_hold_def)

lemma slots_hold_frame [simp]:
  "slots_hold (rb\<lparr>head := h\<rparr>) i xs = slots_hold rb i xs"
  "slots_hold (rb\<lparr>tail := t\<rparr>) i xs = slots_hold rb i xs"
  "slots_hold (rb\<lparr>producer_locked := b\<rparr>) i xs = slots_hold rb i xs"
  "slots_hold (rb\<lparr>consumer_locked := b\<rparr>) i xs = slots_hold rb i xs"
  by (simp_all add: slots_hold_def)

lemma holdsD:
  assumes "holds rb recs"
  shows "rb_size rb" "used recs \<le> length (slots rb)"
    "head rb = tail rb + of_nat (used recs)" "slots_hold rb (tail rb) (encode_records recs)"
    "0 < length (slots rb)" "length (slots rb) < 2 ^ 64"
  using assms power_of_two_bounds [of "length (slots rb)"]
  by (simp_all add: holds_def rb_size_def)

subsection \<open>Pushing\<close>

lemma fits_iff:
  assumes h: "holds rb recs"
    and p: "p_head p = head rb" "tail rb = p_tail p + of_nat d"
    and le: "d + used recs \<le> length (slots rb)"
    and n: "n < 2 ^ 64"
  shows "fits rb p (of_nat n) \<longleftrightarrow> n + (d + used recs) < length (slots rb)"
proof -
  note N = holdsD(6) [OF h]
  have "p_head p - p_tail p = of_nat (d + used recs)"
    using p holdsD(3) [OF h] by simp
  then have "of_nat (length (slots rb)) - (p_head p - p_tail p) =
      (of_nat (length (slots rb) - (d + used recs)) :: usize)"
    using le by (simp add: of_nat_diff)
  moreover have "(of_nat n :: usize) < of_nat (length (slots rb) - (d + used recs)) \<longleftrightarrow>
      n < length (slots rb) - (d + used recs)"
    using n N by (intro of_nat_word_less_iff [THEN trans]) (simp add: take_bit_nat_eq_self)
  ultimately show ?thesis unfolding fits_def by auto
qed

text \<open>The difference in \<open>fits\<close> never wraps.\<close>

lemma fits_no_underflow:
  assumes "holds rb recs" "producer_ok rb p recs"
  shows "unat (p_head p - p_tail p) \<le> length (slots rb)"
proof -
  from assms(2) obtain d where p: "p_head p = head rb" "tail rb = p_tail p + of_nat d"
    and le: "d + used recs \<le> length (slots rb)"
    unfolding producer_ok_def producer_room_def by auto
  have "p_head p - p_tail p = of_nat (d + used recs)"
    using p holdsD(3) [OF assms(1)] by simp
  then show ?thesis
    using le holdsD(6) [OF assms(1)] by (simp add: unat_of_nat take_bit_nat_eq_self del: of_nat_add)
qed

definition published :: "'a ring_buffer \<Rightarrow> 'a list \<Rightarrow> 'a ring_buffer" where
  "published rb vs =
     write_slot (write_values rb (head rb + 1) vs) (head rb) (Len (of_nat (length vs)))
       \<lparr>head := head rb + 1 + of_nat (length vs)\<rparr>"

lemma published_frame [simp, frame_simps]:
  "tail (published rb vs) = tail rb"
  "length (slots (published rb vs)) = length (slots rb)"
  "producer_locked (published rb vs) = producer_locked rb"
  "consumer_locked (published rb vs) = consumer_locked rb"
  "head (published rb vs) = head rb + 1 + of_nat (length vs)"
  by (simp_all add: published_def)

lemma read_published:
  assumes h: "holds rb recs" and room: "Suc (length vs + used recs) \<le> length (slots rb)"
    and b: "b < length (slots rb)"
  shows "read_slot (published rb vs) (tail rb + of_nat b) =
     (if b = used recs then Some (Len (of_nat (length vs)))
      else if used recs < b \<and> b \<le> used recs + length vs then Some (Value (vs ! (b - Suc (used recs))))
      else read_slot rb (tail rb + of_nat b))"
proof -
  let ?w = "write_values rb (tail rb + of_nat (Suc (used recs))) vs"
  note H = holdsD [OF h]
  have eq: "published rb vs =
      write_slot ?w (tail rb + of_nat (used recs)) (Len (of_nat (length vs)))
        \<lparr>head := head rb + 1 + of_nat (length vs)\<rparr>"
    unfolding published_def H(3) by (simp add: algebra_simps)
  have "read_slot (published rb vs) (tail rb + of_nat b) =
      (if b = used recs then Some (Len (of_nat (length vs))) else read_slot ?w (tail rb + of_nat b))"
    unfolding eq read_slot_frame using H(1) room b by (intro read_write_slot) simp_all
  moreover have "read_slot ?w (tail rb + of_nat b) =
      (if Suc (used recs) \<le> b \<and> b < Suc (used recs) + length vs
       then Some (Value (vs ! (b - Suc (used recs)))) else read_slot rb (tail rb + of_nat b))"
    using H(1) room b by (intro read_write_values) simp_all
  ultimately show ?thesis by auto
qed

lemma holds_published [inv_intros]:
  assumes h: "holds rb recs" and room: "Suc (length vs + used recs) \<le> length (slots rb)"
  shows "holds (published rb vs) (recs @ [vs])"
proof -
  note H = holdsD [OF h]
  note rd = read_published [OF h room]
  have old: "slots_hold (published rb vs) (tail rb) (encode_records recs)"
    unfolding slots_hold_def
  proof (intro allI impI)
    fix j assume j: "j < length (encode_records recs)"
    then have "j < length (slots rb)" "j \<noteq> used recs" "\<not> used recs < j" using H(2) by simp_all
    then show "read_slot (published rb vs) (tail rb + of_nat j) = Some (encode_records recs ! j)"
      using H(4) j rd [of j] by (auto simp: slots_hold_def)
  qed
  have len: "read_slot (published rb vs) (tail rb + of_nat (used recs)) =
      Some (Len (of_nat (length vs)))"
    using rd [of "used recs"] room by simp
  have vals: "slots_hold (published rb vs) (tail rb + of_nat (used recs) + 1) (List.map Value vs)"
    unfolding slots_hold_def
  proof (intro allI impI)
    fix j assume j: "j < length (List.map Value vs)"
    have idx: "tail rb + of_nat (used recs) + 1 + of_nat j = tail rb + of_nat (Suc (used recs + j))"
      by simp
    show "read_slot (published rb vs) (tail rb + of_nat (used recs) + 1 + of_nat j) =
        Some (List.map Value vs ! j)"
      unfolding idx using rd [of "Suc (used recs + j)"] j room by (simp del: of_nat_Suc of_nat_add)
  qed
  have "slots_hold (published rb vs) (tail rb) (encode_records (recs @ [vs]))"
    using old len vals by (simp add: slots_hold_append slots_hold_Cons)
  then show ?thesis
    using H room by (simp add: holds_def algebra_simps)
      (simp add: published_def)
qed

lemma push_slice_spec:
  assumes h: "holds rb recs" and p: "producer_ok rb p recs" and n: "length vs < 2 ^ 64"
  shows "Suc (length vs + used recs) \<le> length (slots rb) \<Longrightarrow>
           \<exists>p'. push_slice p rb vs = (Inr (), p', published rb vs) \<and>
                producer_ok (published rb vs) p' (recs @ [vs])"
    and "\<not> Suc (length vs + used recs) \<le> length (slots rb) \<Longrightarrow>
           \<exists>p'. push_slice p rb vs = (Inl Full, p', rb) \<and> producer_ok rb p' recs"
proof -
  from p obtain d where d: "p_head p = head rb" "tail rb = p_tail p + of_nat d"
    "d + used recs \<le> length (slots rb)"
    unfolding producer_ok_def producer_room_def by auto
  let ?q = "p\<lparr>p_tail := tail rb\<rparr>"
  have q: "p_head ?q = head rb" "tail rb = p_tail ?q + of_nat (0::nat)"
    "0 + used recs \<le> length (slots rb)"
    using d holdsD(2) [OF h] by simp_all
  note fp = fits_iff [OF h d n] and fq = fits_iff [OF h q n]
  {
    assume room: "Suc (length vs + used recs) \<le> length (slots rb)"
    let ?r = "if fits rb p (of_nat (length vs)) then p else ?q"
    have r: "p_head ?r = head rb" "fits rb ?r (of_nat (length vs))"
      "\<exists>d. tail rb = p_tail ?r + of_nat d \<and> d + used (recs @ [vs]) \<le> length (slots rb)"
      using d fp fq room by (auto simp: exI [of _ d] exI [of _ "0::nat"])
    then show "\<exists>p'. push_slice p rb vs = (Inr (), p', published rb vs) \<and>
        producer_ok (published rb vs) p' (recs @ [vs])"
      by (auto simp: push_slice_def published_def producer_ok_def producer_room_def Let_def)
  next
    assume room: "\<not> Suc (length vs + used recs) \<le> length (slots rb)"
    then have "\<not> fits rb p (of_nat (length vs))" "\<not> fits rb ?q (of_nat (length vs))"
      using fp fq by simp_all
    then show "\<exists>p'. push_slice p rb vs = (Inl Full, p', rb) \<and> producer_ok rb p' recs"
      using q by (auto simp: push_slice_def producer_ok_def producer_room_def Let_def intro!: exI [of _ "0::nat"])
  }
qed

subsection \<open>Popping\<close>

lemma holds_Cons_slots:
  assumes "holds rb (r # recs)"
  shows "read_slot rb (tail rb) = Some (Len (of_nat (length r)))"
    "read_values rb (tail rb + 1) (length r) = Some r"
    "unat (of_nat (length r) :: usize) = length r"
proof -
  note H = holdsD [OF assms]
  from H(4) show "read_slot rb (tail rb) = Some (Len (of_nat (length r)))"
    by (simp add: slots_hold_Cons)
  from H(4) have "slots_hold rb (tail rb + 1) (List.map Value r)"
    by (simp add: slots_hold_Cons slots_hold_append)
  then show "read_values rb (tail rb + 1) (length r) = Some r"
    by (intro read_values_eq) (auto simp: slots_hold_def)
  have "length r < 2 ^ 64" using H(2,6) by simp
  then show "unat (of_nat (length r) :: usize) = length r"
    by (simp add: unat_of_nat take_bit_nat_eq_self)
qed

definition consumed :: "'a ring_buffer \<Rightarrow> 'a list \<Rightarrow> 'a ring_buffer" where
  "consumed rb r = rb\<lparr>tail := tail rb + 1 + of_nat (length r)\<rparr>"

lemma consumed_frame [simp, frame_simps]:
  "head (consumed rb r) = head rb"
  "slots (consumed rb r) = slots rb"
  "producer_locked (consumed rb r) = producer_locked rb"
  "consumer_locked (consumed rb r) = consumer_locked rb"
  "tail (consumed rb r) = tail rb + 1 + of_nat (length r)"
  by (simp_all add: consumed_def)

lemma holds_consumed [inv_intros]:
  assumes "holds rb (r # recs)"
  shows "holds (consumed rb r) recs"
  using assms by (simp add: holds_def consumed_def slots_hold_Cons slots_hold_append algebra_simps)

lemma used_zero_word:
  assumes "holds rb recs"
  shows "(of_nat (used (take k recs)) :: usize) = 0 \<longleftrightarrow> k = 0 \<or> recs = []"
proof -
  have "used (take k recs) < 2 ^ 64"
    using used_take_le [of k recs] holdsD(2,6) [OF assms] by linarith
  then have eq: "unat (of_nat (used (take k recs)) :: usize) = used (take k recs)"
    by (simp add: unat_of_nat take_bit_nat_eq_self)
  have "(of_nat (used (take k recs)) :: usize) = 0 \<longleftrightarrow>
      unat (of_nat (used (take k recs)) :: usize) = 0"
    by (rule unat_0_iff [symmetric])
  then have "(of_nat (used (take k recs)) :: usize) = 0 \<longleftrightarrow> used (take k recs) = 0"
    unfolding eq .
  then show ?thesis by (simp add: used_take_0_iff)
qed

lemma consumer_refresh:
  assumes h: "holds rb recs" and c: "consumer_ok rb c recs"
  defines "c' \<equiv> if c_tail c = c_head c then c\<lparr>c_head := head rb\<rparr> else c"
  shows "consumer_ok rb c' recs" "c_tail c' = c_head c' \<longleftrightarrow> recs = []" "c_tail c' = tail rb"
proof -
  from c obtain k where k: "c_tail c = tail rb" "k \<le> length recs"
    "c_head c = tail rb + of_nat (used (take k recs))"
    unfolding consumer_ok_def by blast
  note z = used_zero_word [OF h]
  show "consumer_ok rb c' recs"
    using c k holdsD(3) [OF h]
    by (auto simp: c'_def consumer_ok_def intro: exI [of _ "length recs"])
  show "c_tail c' = c_head c' \<longleftrightarrow> recs = []"
    using k z [of k] z [of "length recs"] holdsD(3) [OF h] by (auto simp: c'_def)
  show "c_tail c' = tail rb" by (simp add: c'_def k)
qed

lemma pop_slice_Nil:
  assumes h: "holds rb []" and c: "consumer_ok rb c []"
  shows "\<exists>c'. pop_slice c rb out = Some (Inl Empty, out, c', rb) \<and> consumer_ok rb c' []"
  using consumer_refresh [OF h c] by (auto simp: pop_slice_def Let_def)

lemma pop_slice_Cons:
  assumes h: "holds rb (r # recs)" and c: "consumer_ok rb c (r # recs)"
  shows "length r > length out \<Longrightarrow>
           \<exists>c'. pop_slice c rb out = Some (Inl (TooSmall (of_nat (length r))), out, c', rb) \<and>
                consumer_ok rb c' (r # recs)"
    and "length r \<le> length out \<Longrightarrow>
           \<exists>c'. pop_slice c rb out =
                  Some (Inr (length r), r @ drop (length r) out, c', consumed rb r) \<and>
                consumer_ok (consumed rb r) c' recs"
proof -
  let ?c = "if c_tail c = c_head c then c\<lparr>c_head := head rb\<rparr> else c"
  note R = consumer_refresh [OF h c] and S = holds_Cons_slots [OF h]
  have ne: "c_tail ?c \<noteq> c_head ?c" using R(2) by simp
  {
    assume "length r > length out"
    then show "\<exists>c'. pop_slice c rb out = Some (Inl (TooSmall (of_nat (length r))), out, c', rb) \<and>
        consumer_ok rb c' (r # recs)"
      using ne R(1,3) S by (simp add: pop_slice_def Let_def)
  next
    assume le: "length r \<le> length out"
    let ?c' = "?c\<lparr>c_tail := c_tail ?c + 1 + of_nat (length r)\<rparr>"
    have "consumer_ok (consumed rb r) ?c' recs"
    proof -
      from R(1) obtain k where k: "k \<le> length (r # recs)"
        "c_head ?c = tail rb + of_nat (used (take k (r # recs)))"
        unfolding consumer_ok_def by blast
      have "k \<noteq> 0" using k(2) ne R(3) by (cases k) auto
      then obtain m where m: "k = Suc m" by (cases k) auto
      have "c_head ?c = tail (consumed rb r) + of_nat (used (take m recs))"
        unfolding k(2) m by simp
      then show ?thesis using k(1) R(3) by (auto simp: consumer_ok_def m intro: exI [of _ m])
    qed
    moreover have "pop_slice c rb out =
        Some (Inr (length r), r @ drop (length r) out, ?c', consumed rb r)"
      using ne R(3) S le by (simp add: pop_slice_def Let_def consumed_def)
    ultimately show "\<exists>c'. pop_slice c rb out =
        Some (Inr (length r), r @ drop (length r) out, c', consumed rb r) \<and>
        consumer_ok (consumed rb r) c' recs" by blast
  }
qed

subsection \<open>Handles and locks\<close>

lemma holds_locks [simp]:
  "holds (rb\<lparr>producer_locked := b\<rparr>) recs = holds rb recs"
  "holds (rb\<lparr>consumer_locked := b\<rparr>) recs = holds rb recs"
  by (simp_all add: holds_def)

lemma handles_locks [simp]:
  "producer_ok (rb\<lparr>producer_locked := b\<rparr>) p recs = producer_ok rb p recs"
  "producer_ok (rb\<lparr>consumer_locked := b\<rparr>) p recs = producer_ok rb p recs"
  "consumer_ok (rb\<lparr>producer_locked := b\<rparr>) c recs = consumer_ok rb c recs"
  "consumer_ok (rb\<lparr>consumer_locked := b\<rparr>) c recs = consumer_ok rb c recs"
  by (simp_all add: producer_ok_def producer_room_def consumer_ok_def)

lemma holds_new:
  assumes "rb_new n = Some rb"
  shows "holds rb []" "length (slots rb) = n" "\<not> producer_locked rb" "\<not> consumer_locked rb"
  using assms
  by (auto simp: rb_new_def holds_def rb_size_def slots_hold_def split: if_splits)

lemma fresh_producer_ok:
  "holds rb recs \<Longrightarrow> producer_ok rb \<lparr>p_head = head rb, p_tail = tail rb\<rparr> recs"
  using holdsD(2) [of rb recs]
  by (auto simp: producer_ok_def producer_room_def intro!: exI [of _ "0::nat"])

lemma fresh_consumer_ok:
  "holds rb recs \<Longrightarrow> consumer_ok rb \<lparr>c_head = head rb, c_tail = tail rb\<rparr> recs"
  using holdsD(3) [of rb recs] by (auto simp: consumer_ok_def intro!: exI [of _ "length recs"])

text \<open>A handle stays valid while the other side works.\<close>

lemma producer_room_consumed [inv_intros]:
  assumes "producer_room rb p (r # recs) n"
  shows "producer_room (consumed rb r) p recs n"
proof -
  from assms obtain d where d: "p_head p = head rb" "tail rb = p_tail p + of_nat d"
    "n + d + used (r # recs) \<le> length (slots rb)"
    unfolding producer_room_def by blast
  have "tail (consumed rb r) = p_tail p + of_nat (d + Suc (length r))"
    using d(2) by (simp add: algebra_simps)
  then show ?thesis
    using d(1,3) unfolding producer_room_def
    by (intro conjI exI [of _ "d + Suc (length r)"]) simp_all
qed

lemma producer_ok_consumed [inv_intros]:
  "producer_ok rb p (r # recs) \<Longrightarrow> producer_ok (consumed rb r) p recs"
  unfolding producer_ok_def by (rule producer_room_consumed)

lemma consumer_ok_published [inv_intros]:
  assumes "consumer_ok rb c recs"
  shows "consumer_ok (published rb vs) c (recs @ [vs])"
proof -
  from assms obtain k where "c_tail c = tail rb" "k \<le> length recs"
    "c_head c = tail rb + of_nat (used (take k recs))"
    unfolding consumer_ok_def by blast
  then show ?thesis by (auto simp: consumer_ok_def intro!: exI [of _ k])
qed

subsection \<open>The queue as an interface\<close>

text \<open>
  What the signal handler needs of the buffer (a sink) and what the draining thread needs
  (a source). \<open>contents q recs\<close> is the abstraction; \<open>handle\<close> validates an acquired handle.
\<close>

locale record_sink =
  fixes acquire :: "'q \<Rightarrow> 'p option \<times> 'q"
    and push :: "'p \<Rightarrow> 'q \<Rightarrow> 'a list \<Rightarrow> (push_error + unit) \<times> 'p \<times> 'q"
    and release :: "'q \<Rightarrow> 'q"
    and contents :: "'q \<Rightarrow> 'a list list \<Rightarrow> bool"
    and handle :: "'q \<Rightarrow> 'p \<Rightarrow> 'a list list \<Rightarrow> bool"
    and busy :: "'q \<Rightarrow> bool"
    and room :: "'q \<Rightarrow> 'a list list \<Rightarrow> 'a list \<Rightarrow> bool"
  assumes acquire_busy: "busy q \<Longrightarrow> acquire q = (None, q)"
    and acquire_free: "\<not> busy q \<Longrightarrow> contents q recs \<Longrightarrow>
      \<exists>p q'. acquire q = (Some p, q') \<and> contents q' recs \<and> handle q' p recs \<and>
             room q' recs = room q recs"
    and push_room: "contents q recs \<Longrightarrow> handle q p recs \<Longrightarrow> length vs < 2 ^ 64 \<Longrightarrow>
      room q recs vs \<Longrightarrow>
      \<exists>p' q'. push p q vs = (Inr (), p', q') \<and> contents q' (recs @ [vs])"
    and push_full: "contents q recs \<Longrightarrow> handle q p recs \<Longrightarrow> length vs < 2 ^ 64 \<Longrightarrow>
      \<not> room q recs vs \<Longrightarrow> \<exists>p'. push p q vs = (Inl Full, p', q)"
    and release_contents: "contents q recs \<Longrightarrow> contents (release q) recs"
    and release_free: "\<not> busy (release q)"
begin

text \<open>One acquire, push, release cycle has exactly three outcomes.\<close>

lemma cycle_outcomes:
  assumes "contents q recs" "length vs < 2 ^ 64"
  obtains (contended) "busy q" "acquire q = (None, q)"
  | (published) p q1 p' q2 where "\<not> busy q" "room q recs vs"
      "acquire q = (Some p, q1)" "push p q1 vs = (Inr (), p', q2)"
      "contents (release q2) (recs @ [vs])" "\<not> busy (release q2)"
  | (dropped) p q1 p' where "\<not> busy q" "\<not> room q recs vs"
      "acquire q = (Some p, q1)" "push p q1 vs = (Inl Full, p', q1)"
      "contents (release q1) recs" "\<not> busy (release q1)"
proof (cases "busy q")
  case True
  then show thesis using acquire_busy contended by blast
next
  case False
  then obtain p q1 where a: "acquire q = (Some p, q1)" "contents q1 recs" "handle q1 p recs"
    "room q1 recs = room q recs"
    using acquire_free assms(1) by blast
  show thesis
  proof (cases "room q recs vs")
    case True
    then obtain p' q2 where "push p q1 vs = (Inr (), p', q2)" "contents q2 (recs @ [vs])"
      using push_room [OF a(2,3) assms(2)] a(4) by auto
    then show thesis using published False True a(1) release_contents release_free by blast
  next
    case no: False
    then obtain p' where "push p q1 vs = (Inl Full, p', q1)"
      using push_full [OF a(2,3) assms(2)] a(4) by auto
    then show thesis using dropped False no a(1,2) release_contents release_free by blast
  qed
qed

end

text \<open>
  The two loops that read the buffer: \<open>drain_loop\<close> handles at most \<open>n\<close> records and threads a
  state \<open>s\<close> through \<open>handle_record\<close>; \<open>discard_loop\<close> pops until the pop fails. Both are
  written over the pop operation, as the code's loops are. \<open>None\<close> is a panic or, for
  \<open>discard_loop\<close>, a loop that does not end.
\<close>

fun drain_loop ::
    "('c \<Rightarrow> 'q \<Rightarrow> 'a list \<Rightarrow> ((pop_error + nat) \<times> 'a list \<times> 'c \<times> 'q) option) \<Rightarrow>
     ('a list \<Rightarrow> 's \<Rightarrow> 's) \<Rightarrow> nat \<Rightarrow> 'c \<Rightarrow> 'q \<Rightarrow> 'a list \<Rightarrow> 's \<Rightarrow>
     ('q \<times> 'a list \<times> 's) option" where
  "drain_loop pop handle_record 0 c q buf s = Some (q, buf, s)"
| "drain_loop pop handle_record (Suc n) c q buf s =
     (case pop c q buf of
        None \<Rightarrow> None
      | Some (r, buf, c, q) \<Rightarrow>
          (case r of
             Inl Empty \<Rightarrow> Some (q, buf, s)
           | Inl (TooSmall _) \<Rightarrow> None
           | Inr len \<Rightarrow>
               drain_loop pop handle_record n c q buf (handle_record (take len buf) s)))"

partial_function (option) discard_loop ::
    "('c \<Rightarrow> 'q \<Rightarrow> 'a list \<Rightarrow> ((pop_error + nat) \<times> 'a list \<times> 'c \<times> 'q) option) \<Rightarrow>
     'c \<Rightarrow> 'q \<Rightarrow> 'a list \<Rightarrow> ('q \<times> 'a list) option" where
  "discard_loop pop c q buf =
     (case pop c q buf of
        None \<Rightarrow> None
      | Some (r, buf, c, q) \<Rightarrow>
          (case r of Inl e \<Rightarrow> Some (q, buf) | Inr len \<Rightarrow> discard_loop pop c q buf))"

locale record_source =
  fixes pop :: "'c \<Rightarrow> 'q \<Rightarrow> 'a list \<Rightarrow> ((pop_error + nat) \<times> 'a list \<times> 'c \<times> 'q) option"
    and contents :: "'q \<Rightarrow> 'a list list \<Rightarrow> bool"
    and handle :: "'q \<Rightarrow> 'c \<Rightarrow> 'a list list \<Rightarrow> bool"
  assumes pop_Nil: "contents q [] \<Longrightarrow> handle q c [] \<Longrightarrow>
      \<exists>c'. pop c q out = Some (Inl Empty, out, c', q)"
    and pop_Cons: "contents q (r # recs) \<Longrightarrow> handle q c (r # recs) \<Longrightarrow>
      length r \<le> length out \<Longrightarrow>
      \<exists>c' q'. pop c q out = Some (Inr (length r), r @ drop (length r) out, c', q') \<and>
              contents q' recs \<and> handle q' c' recs"
begin

lemma drain_loop_spec:
  assumes "contents q recs" "handle q c recs" "\<forall>r\<in>set recs. length r \<le> length buf"
  shows "\<exists>q' buf'. drain_loop pop f n c q buf s = Some (q', buf', fold f (take n recs) s) \<and>
           contents q' (drop n recs) \<and> length buf' = length buf"
  using assms
proof (induction n arbitrary: q c recs buf s)
  case 0
  then show ?case by simp
next
  case (Suc n)
  show ?case
  proof (cases recs)
    case Nil
    then obtain c' where "pop c q buf = Some (Inl Empty, buf, c', q)"
      using pop_Nil Suc.prems by blast
    then show ?thesis using Nil Suc.prems(1) by simp
  next
    case (Cons r rs)
    let ?buf = "r @ drop (length r) buf"
    have len: "length r \<le> length buf" using Suc.prems(3) Cons by simp
    obtain c' q' where p: "pop c q buf = Some (Inr (length r), ?buf, c', q')"
      "contents q' rs" "handle q' c' rs"
      using pop_Cons Suc.prems(1,2) len unfolding Cons by blast
    have "\<forall>r\<in>set rs. length r \<le> length ?buf" using Suc.prems(3) Cons len by simp
    from Suc.IH [OF p(2,3) this, of "f r s"] show ?thesis using p(1) Cons len by simp
  qed
qed

lemma discard_loop_spec:
  assumes "contents q recs" "handle q c recs" "\<forall>r\<in>set recs. length r \<le> length buf"
  shows "\<exists>q' buf'. discard_loop pop c q buf = Some (q', buf') \<and> contents q' [] \<and>
           length buf' = length buf"
  using assms
proof (induction recs arbitrary: q c buf)
  case Nil
  then obtain c' where "pop c q buf = Some (Inl Empty, buf, c', q)" using pop_Nil by blast
  then show ?case using Nil by (subst discard_loop.simps) simp
next
  case (Cons r rs)
  let ?buf = "r @ drop (length r) buf"
  have len: "length r \<le> length buf" using Cons.prems(3) by simp
  obtain c' q' where p: "pop c q buf = Some (Inr (length r), ?buf, c', q')"
    "contents q' rs" "handle q' c' rs"
    using pop_Cons Cons.prems(1,2) len by blast
  have "\<forall>r\<in>set rs. length r \<le> length ?buf" using Cons.prems(3) len by simp
  from Cons.IH [OF p(2,3) this] show ?case using p(1) len by (subst discard_loop.simps) simp
qed

end

text \<open>The ring buffer provides both sides.\<close>

interpretation ring_sink: record_sink acquire_producer push_slice drop_producer holds producer_ok
  producer_locked "\<lambda>rb recs vs. Suc (length vs + used recs) \<le> length (slots rb)"
proof unfold_locales
  fix q :: "'a ring_buffer" and recs
  assume "\<not> producer_locked q" "holds q recs"
  then show "\<exists>p q'. acquire_producer q = (Some p, q') \<and> holds q' recs \<and> producer_ok q' p recs \<and>
      (\<lambda>vs::'a list. Suc (length vs + used recs) \<le> length (slots q')) =
      (\<lambda>vs. Suc (length vs + used recs) \<le> length (slots q))"
    by (simp add: acquire_producer_def try_lock_def fresh_producer_ok)
next
  fix q :: "'a ring_buffer" and recs p and vs :: "'a list"
  assume a: "holds q recs" "producer_ok q p recs" "length vs < 2 ^ 64"
    "Suc (length vs + used recs) \<le> length (slots q)"
  then show "\<exists>p' q'. push_slice p q vs = (Inr (), p', q') \<and> holds q' (recs @ [vs])"
    using push_slice_spec(1) [OF a] holds_published by blast
next
  fix q :: "'a ring_buffer" and recs p and vs :: "'a list"
  assume a: "holds q recs" "producer_ok q p recs" "length vs < 2 ^ 64"
    "\<not> Suc (length vs + used recs) \<le> length (slots q)"
  then show "\<exists>p'. push_slice p q vs = (Inl Full, p', q)"
    using push_slice_spec(2) [OF a] by blast
qed (auto simp: acquire_producer_def try_lock_def drop_producer_def)

interpretation ring_source: record_source pop_slice holds consumer_ok
proof unfold_locales
  fix q :: "'a ring_buffer" and c and out :: "'a list"
  assume "holds q []" "consumer_ok q c []"
  then show "\<exists>c'. pop_slice c q out = Some (Inl Empty, out, c', q)"
    using pop_slice_Nil by blast
next
  fix q :: "'a ring_buffer" and r recs c and out :: "'a list"
  assume a: "holds q (r # recs)" "consumer_ok q c (r # recs)" "length r \<le> length out"
  then show "\<exists>c' q'. pop_slice c q out = Some (Inr (length r), r @ drop (length r) out, c', q') \<and>
      holds q' recs \<and> consumer_ok q' c' recs"
    using pop_slice_Cons(2) [OF a] holds_consumed by blast
qed

subsection \<open>Runs of operations\<close>

text \<open>
  A program that uses one producer and one consumer handle in any order, and the bounded
  first-in first-out queue it is compared with: a queue of \<open>n\<close> slots in which a record
  takes one slot more than its length.
\<close>

datatype 'a rb_op = Push "'a list" | Pop "'a list"

datatype 'a rb_result = Pushed | Refused | Popped nat "'a list" | NoRecord | Short usize

fun ring_op ::
    "producer \<Rightarrow> consumer \<Rightarrow> 'a ring_buffer \<Rightarrow> 'a rb_op \<Rightarrow>
     ('a rb_result \<times> producer \<times> consumer \<times> 'a ring_buffer) option" where
  "ring_op p c rb (Push vs) =
     (let (r, p, rb) = push_slice p rb vs
      in Some (case r of Inl Full \<Rightarrow> Refused | Inr _ \<Rightarrow> Pushed, p, c, rb))"
| "ring_op p c rb (Pop out) =
     do { (r, out, c, rb) \<leftarrow> pop_slice c rb out;
          Some (case r of Inl Empty \<Rightarrow> NoRecord | Inl (TooSmall n) \<Rightarrow> Short n
                | Inr n \<Rightarrow> Popped n out, p, c, rb) }"

fun run_ring ::
    "producer \<Rightarrow> consumer \<Rightarrow> 'a ring_buffer \<Rightarrow> 'a rb_op list \<Rightarrow> 'a rb_result list option" where
  "run_ring p c rb [] = Some []"
| "run_ring p c rb (op # ops) =
     do { (r, p, c, rb) \<leftarrow> ring_op p c rb op;
          rest \<leftarrow> run_ring p c rb ops;
          Some (r # rest) }"

fun queue_op :: "nat \<Rightarrow> 'a list list \<Rightarrow> 'a rb_op \<Rightarrow> 'a rb_result \<times> 'a list list" where
  "queue_op n recs (Push vs) =
     (if Suc (length vs) + used recs \<le> n then (Pushed, recs @ [vs]) else (Refused, recs))"
| "queue_op n [] (Pop out) = (NoRecord, [])"
| "queue_op n (r # recs) (Pop out) =
     (if length r > length out then (Short (of_nat (length r)), r # recs)
      else (Popped (length r) (r @ drop (length r) out), recs))"

fun run_queue :: "nat \<Rightarrow> 'a list list \<Rightarrow> 'a rb_op list \<Rightarrow> 'a rb_result list" where
  "run_queue n recs [] = []"
| "run_queue n recs (op # ops) =
     (let (r, recs) = queue_op n recs op in r # run_queue n recs ops)"

definition slice_sized :: "'a rb_op \<Rightarrow> bool" where
  "slice_sized op \<longleftrightarrow> (case op of Push vs \<Rightarrow> length vs < 2 ^ 64 | Pop _ \<Rightarrow> True)"

lemma slice_sized_simps [simp]:
  "slice_sized (Push vs) = (length vs < 2 ^ 64)" "slice_sized (Pop out)"
  by (simp_all add: slice_sized_def)

definition ring_rel ::
    "nat \<Rightarrow> producer \<Rightarrow> consumer \<Rightarrow> 'a ring_buffer \<Rightarrow> 'a list list \<Rightarrow> bool" where
  "ring_rel n p c rb recs \<longleftrightarrow>
     holds rb recs \<and> producer_ok rb p recs \<and> consumer_ok rb c recs \<and> length (slots rb) = n"

lemma push_op_refines:
  assumes R: "ring_rel n p c rb recs" and len: "length vs < 2 ^ 64"
  shows "\<exists>p' rb'. ring_op p c rb (Push vs) = Some (fst (queue_op n recs (Push vs)), p', c, rb') \<and>
           ring_rel n p' c rb' (snd (queue_op n recs (Push vs)))"
proof -
  from R have h: "holds rb recs" "producer_ok rb p recs" "consumer_ok rb c recs"
    "length (slots rb) = n"
    by (simp_all add: ring_rel_def)
  note S = push_slice_spec [OF h(1,2) len]
  show ?thesis
  proof (cases "Suc (length vs + used recs) \<le> length (slots rb)")
    case True
    then show ?thesis
      using S(1) holds_published [OF h(1) True] consumer_ok_published [OF h(3)] h(4)
      by (auto simp: ring_rel_def)
  next
    case False
    then show ?thesis using S(2) h by (auto simp: ring_rel_def)
  qed
qed

lemma pop_op_refines:
  assumes R: "ring_rel n p c rb recs"
  shows "\<exists>c' rb'. ring_op p c rb (Pop out) = Some (fst (queue_op n recs (Pop out)), p, c', rb') \<and>
           ring_rel n p c' rb' (snd (queue_op n recs (Pop out)))"
proof (cases recs)
  case Nil
  then show ?thesis using R pop_slice_Nil [of rb c out] by (auto simp: ring_rel_def)
next
  case (Cons r rs)
  with R have h: "holds rb (r # rs)" "producer_ok rb p (r # rs)" "consumer_ok rb c (r # rs)"
    "length (slots rb) = n"
    by (simp_all add: ring_rel_def)
  note S = pop_slice_Cons [OF h(1,3), of out]
  show ?thesis
  proof (cases "length r > length out")
    case True
    then show ?thesis using S(1) h Cons by (auto simp: ring_rel_def)
  next
    case False
    then show ?thesis
      using S(2) holds_consumed [OF h(1)] producer_ok_consumed [OF h(2)] h(4) Cons
      by (auto simp: ring_rel_def)
  qed
qed

lemma run_ring_refines:
  assumes "ring_rel n p c rb recs" "list_all slice_sized ops"
  shows "run_ring p c rb ops = Some (run_queue n recs ops)"
  using assms
proof (induction ops arbitrary: rb recs p c)
  case Nil
  then show ?case by simp
next
  case (Cons op ops)
  have "\<exists>p' c' rb'. ring_op p c rb op = Some (fst (queue_op n recs op), p', c', rb') \<and>
      ring_rel n p' c' rb' (snd (queue_op n recs op))"
    using Cons.prems push_op_refines pop_op_refines by (cases op) fastforce+
  then obtain p' c' rb' where
    "ring_op p c rb op = Some (fst (queue_op n recs op), p', c', rb')"
    "ring_rel n p' c' rb' (snd (queue_op n recs op))" by blast
  moreover have "run_ring p' c' rb' ops = Some (run_queue n (snd (queue_op n recs op)) ops)"
    using Cons.prems(2) calculation(2) by (intro Cons.IH) simp_all
  ultimately show ?case by (simp add: case_prod_beta)
qed

subsection \<open>Properties\<close>

text \<open>
  C5: Any sequence of pushes and pops through one producer and one consumer handle on a fresh
  buffer of \<open>n\<close> slots returns exactly what a bounded first-in first-out queue of \<open>n\<close> slots
  returns, records intact and in order, through every wrap-around of the array and of the
  counters; no operation panics or reads a slot that was not written.
\<close>

theorem ring_buffer_refines_queue:
  assumes "rb_new n = Some rb"
    and "acquire_producer rb = (Some p, rb1)" and "acquire_consumer rb1 = (Some c, rb2)"
    and "list_all slice_sized ops"
  shows "run_ring p c rb2 ops = Some (run_queue n [] ops)"
proof (rule run_ring_refines [OF _ assms(4)])
  note N = holds_new [OF assms(1)]
  show "ring_rel n p c rb2 []"
    using assms(2,3) N fresh_producer_ok [OF N(1)] fresh_consumer_ok [OF N(1)]
    by (auto simp: ring_rel_def acquire_producer_def acquire_consumer_def try_lock_def)
qed

theorem ring_buffer_refines_queue_witness:
  "run_ring \<lparr>p_head = 0, p_tail = 0\<rparr> \<lparr>c_head = 0, c_tail = 0\<rparr>
     \<lparr>slots = replicate 4 None, head = 0, tail = 0, producer_locked = True, consumer_locked = True\<rparr>
     [Push [7, 8], Push [1], Pop [0, 0], Push [1], Pop [0], Pop [0::nat]] =
   Some [Pushed, Refused, Popped 2 [7, 8], Pushed, Popped 1 [1], NoRecord]"
proof -
  have n: "rb_new 4 = Some \<lparr>slots = replicate 4 (None :: nat slot option), head = 0, tail = 0,
      producer_locked = False, consumer_locked = False\<rparr>"
    by (auto simp: rb_new_def is_power_of_two_def intro: exI [of _ 2])
  let ?rb = "\<lparr>slots = replicate 4 (None :: nat slot option), head = 0, tail = 0,
      producer_locked = True, consumer_locked = False\<rparr>"
  have p: "acquire_producer \<lparr>slots = replicate 4 (None :: nat slot option), head = 0, tail = 0,
      producer_locked = False, consumer_locked = False\<rparr> =
      (Some \<lparr>p_head = 0, p_tail = 0\<rparr>, ?rb)"
    by (simp add: acquire_producer_def try_lock_def)
  have c: "acquire_consumer ?rb = (Some \<lparr>c_head = 0, c_tail = 0\<rparr>, ?rb\<lparr>consumer_locked := True\<rparr>)"
    by (simp add: acquire_consumer_def try_lock_def)
  show ?thesis
    using ring_buffer_refines_queue [OF n p c,
        of "[Push [7, 8], Push [1], Pop [0, 0], Push [1], Pop [0], Pop [0]]"]
    by simp
qed

text \<open>
  C25: A push that does not fit leaves the buffer exactly as it was and reports \<open>Full\<close>; a push
  that fits appends one record; in neither case does the free-space computation wrap below zero.
\<close>

theorem push_slice_all_or_nothing:
  assumes "holds rb recs" and "producer_ok rb p recs" and "length vs < 2 ^ 64"
  shows "unat (p_head p - p_tail p) \<le> length (slots rb) \<and>
    (case push_slice p rb vs of
       (Inl Full, p', rb') \<Rightarrow>
         length (slots rb) < Suc (length vs + used recs) \<and> rb' = rb \<and> producer_ok rb' p' recs
     | (Inr u, p', rb') \<Rightarrow>
         Suc (length vs + used recs) \<le> length (slots rb) \<and> holds rb' (recs @ [vs]) \<and>
         producer_ok rb' p' (recs @ [vs]) \<and> tail rb' = tail rb)"
  using fits_no_underflow [OF assms(1,2)] push_slice_spec [OF assms] holds_published [OF assms(1)]
  by (cases "Suc (length vs + used recs) \<le> length (slots rb)") fastforce+

theorem push_slice_all_or_nothing_witness:
  "\<exists>rb :: nat ring_buffer. holds rb [] \<and>
     (case push_slice \<lparr>p_head = 0, p_tail = 0\<rparr> rb [1, 2] of
        (Inl Full, p', rb') \<Rightarrow> rb' = rb | (Inr u, p', rb') \<Rightarrow> False)"
proof -
  let ?rb = "\<lparr>slots = replicate 2 (None :: nat slot option), head = 0, tail = 0,
      producer_locked = False, consumer_locked = False\<rparr>"
  have n: "rb_new 2 = Some ?rb"
    by (auto simp: rb_new_def is_power_of_two_def intro: exI [of _ 1])
  have p: "producer_ok ?rb \<lparr>p_head = 0, p_tail = 0\<rparr> []"
    using fresh_producer_ok [OF holds_new(1) [OF n]] by simp
  have "length [1, 2::nat] < 2 ^ 64" by simp
  note T = push_slice_all_or_nothing [OF holds_new(1) [OF n] p this]
  obtain r p' rb' where e: "push_slice \<lparr>p_head = 0, p_tail = 0\<rparr> ?rb [1, 2] = (r, p', rb')"
    by (rule prod_cases3)
  have "case (r, p', rb') of (Inl Full, p', rb') \<Rightarrow> rb' = ?rb | (Inr u, p', rb') \<Rightarrow> False"
    using T unfolding e by (cases r) (simp_all split: push_error.splits)
  then show ?thesis
    by (intro exI [of _ ?rb] conjI holds_new(1) [OF n]) (simp only: e)
qed

end
