(* ===== verification/Ringbuffer_Concurrent.thy ===== *)
theory Ringbuffer_Concurrent
  imports Ringbuffer "HOL-Library.Sublist"
begin

text \<open>
  The ring buffer under interference: any number of signal handlers and threads (numbered by
  \<open>nat\<close>) contend for the producer and the consumer side, and every access to the shared
  buffer (a compare-exchange, a load or store of a counter, a slot read or write) is one step
  of \<open>rb_step\<close>, interleaved in any order. The steps are the shared accesses of
  \<open>RingBuffer::producer\<close>, \<open>push_slice\<close>, \<open>pop_slice\<close> and the \<open>Drop\<close> implementations in their
  program order; work on a handle's own fields is part of the next or previous step.

  Interleaving is sequentially consistent. The code's release stores of \<open>head\<close> and \<open>tail\<close>
  and the matching acquire loads are what makes the slot accesses race free; weaker orders
  are outside this model.

  \<open>pushed\<close> and \<open>popped\<close> record the history: the records whose \<open>head\<close> store has happened and
  the records whose \<open>tail\<close> store has happened.
\<close>

subsection \<open>Threads\<close>

datatype 'a pstate =
    PIdle
  | PLocked                                 \<comment> \<open>won the compare-exchange\<close>
  | PHead usize                             \<comment> \<open>\<open>head\<close> loaded\<close>
  | PReady producer                         \<comment> \<open>holds a \<open>Producer\<close>\<close>
  | PReload producer "'a list"              \<comment> \<open>does not fit the cached \<open>tail\<close>\<close>
  | PWrite producer "'a list" nat           \<comment> \<open>values written so far\<close>
  | PPublish producer "'a list"             \<comment> \<open>values and length written\<close>

datatype 'a cstate =
    CIdle
  | CLocked
  | CHead usize
  | CReady consumer                         \<comment> \<open>holds a \<open>Consumer\<close>\<close>
  | CPop consumer nat                       \<comment> \<open>sees a record; length of \<open>out\<close>\<close>
  | CRead consumer usize "'a list"          \<comment> \<open>length of the record, values copied so far\<close>
  | CFault                                  \<comment> \<open>\<open>unreachable!\<close> or an uninitialised slot\<close>

record 'a rb_sys =
  ring :: "'a ring_buffer"
  producers :: "nat \<Rightarrow> 'a pstate"
  consumers :: "nat \<Rightarrow> 'a cstate"
  pushed :: "'a list list"
  popped :: "'a list list"

definition rb_sys_init :: "'a ring_buffer \<Rightarrow> 'a rb_sys" where
  "rb_sys_init rb =
     \<lparr>ring = rb, producers = (\<lambda>_. PIdle), consumers = (\<lambda>_. CIdle), pushed = [], popped = []\<rparr>"

definition set_producer :: "nat \<Rightarrow> 'a pstate \<Rightarrow> 'a rb_sys \<Rightarrow> 'a rb_sys" where
  "set_producer t ps s = s\<lparr>producers := (producers s)(t := ps)\<rparr>"

definition set_consumer :: "nat \<Rightarrow> 'a cstate \<Rightarrow> 'a rb_sys \<Rightarrow> 'a rb_sys" where
  "set_consumer t cs s = s\<lparr>consumers := (consumers s)(t := cs)\<rparr>"

definition len_word :: "'a list \<Rightarrow> usize" where
  "len_word vs = of_nat (length vs)"

subsection \<open>Steps of a producer\<close>

inductive producer_step :: "nat \<Rightarrow> 'a rb_sys \<Rightarrow> 'a rb_sys \<Rightarrow> bool" where
  p_lock: "producers s t = PIdle \<Longrightarrow> \<not> producer_locked (ring s) \<Longrightarrow>
     producer_step t s (set_producer t PLocked (s\<lparr>ring := (ring s)\<lparr>producer_locked := True\<rparr>\<rparr>))"
| p_contended: "producers s t = PIdle \<Longrightarrow> producer_locked (ring s) \<Longrightarrow> producer_step t s s"
| p_load_head: "producers s t = PLocked \<Longrightarrow>
     producer_step t s (set_producer t (PHead (head (ring s))) s)"
| p_load_tail: "producers s t = PHead h \<Longrightarrow>
     producer_step t s (set_producer t (PReady \<lparr>p_head = h, p_tail = tail (ring s)\<rparr>) s)"
| p_fits: "producers s t = PReady p \<Longrightarrow> length vs < 2 ^ 64 \<Longrightarrow>
     fits (ring s) p (len_word vs) \<Longrightarrow>
     producer_step t s (set_producer t (PWrite p vs 0) s)"
| p_misfit: "producers s t = PReady p \<Longrightarrow> length vs < 2 ^ 64 \<Longrightarrow>
     \<not> fits (ring s) p (len_word vs) \<Longrightarrow>
     producer_step t s (set_producer t (PReload p vs) s)"
| p_reload: "producers s t = PReload p vs \<Longrightarrow> p' = p\<lparr>p_tail := tail (ring s)\<rparr> \<Longrightarrow>
     fits (ring s) p' (len_word vs) \<Longrightarrow>
     producer_step t s (set_producer t (PWrite p' vs 0) s)"
| p_full: "producers s t = PReload p vs \<Longrightarrow> p' = p\<lparr>p_tail := tail (ring s)\<rparr> \<Longrightarrow>
     \<not> fits (ring s) p' (len_word vs) \<Longrightarrow>
     producer_step t s (set_producer t (PReady p') s)"
| p_write: "producers s t = PWrite p vs i \<Longrightarrow> i < length vs \<Longrightarrow>
     producer_step t s (set_producer t (PWrite p vs (Suc i))
       (s\<lparr>ring := write_slot (ring s) (p_head p + 1 + of_nat i) (Value (vs ! i))\<rparr>))"
| p_write_len: "producers s t = PWrite p vs (length vs) \<Longrightarrow>
     producer_step t s (set_producer t (PPublish p vs)
       (s\<lparr>ring := write_slot (ring s) (p_head p) (Len (len_word vs))\<rparr>))"
| p_publish: "producers s t = PPublish p vs \<Longrightarrow> h = p_head p + 1 + len_word vs \<Longrightarrow>
     producer_step t s (set_producer t (PReady (p\<lparr>p_head := h\<rparr>))
       (s\<lparr>ring := (ring s)\<lparr>head := h\<rparr>, pushed := pushed s @ [vs]\<rparr>))"
| p_drop: "producers s t = PReady p \<Longrightarrow>
     producer_step t s (set_producer t PIdle (s\<lparr>ring := drop_producer (ring s)\<rparr>))"

subsection \<open>Steps of a consumer\<close>

inductive consumer_step :: "nat \<Rightarrow> 'a rb_sys \<Rightarrow> 'a rb_sys \<Rightarrow> bool" where
  c_lock: "consumers s t = CIdle \<Longrightarrow> \<not> consumer_locked (ring s) \<Longrightarrow>
     consumer_step t s (set_consumer t CLocked (s\<lparr>ring := (ring s)\<lparr>consumer_locked := True\<rparr>\<rparr>))"
| c_contended: "consumers s t = CIdle \<Longrightarrow> consumer_locked (ring s) \<Longrightarrow> consumer_step t s s"
| c_load_head: "consumers s t = CLocked \<Longrightarrow>
     consumer_step t s (set_consumer t (CHead (head (ring s))) s)"
| c_load_tail: "consumers s t = CHead h \<Longrightarrow>
     consumer_step t s (set_consumer t (CReady \<lparr>c_head = h, c_tail = tail (ring s)\<rparr>) s)"
| c_see: "consumers s t = CReady c \<Longrightarrow> c_tail c \<noteq> c_head c \<Longrightarrow>
     consumer_step t s (set_consumer t (CPop c cap) s)"
| c_refresh: "consumers s t = CReady c \<Longrightarrow> c_tail c = c_head c \<Longrightarrow>
     c' = c\<lparr>c_head := head (ring s)\<rparr> \<Longrightarrow> c_tail c' \<noteq> c_head c' \<Longrightarrow>
     consumer_step t s (set_consumer t (CPop c' cap) s)"
| c_empty: "consumers s t = CReady c \<Longrightarrow> c_tail c = c_head c \<Longrightarrow>
     c' = c\<lparr>c_head := head (ring s)\<rparr> \<Longrightarrow> c_tail c' = c_head c' \<Longrightarrow>
     consumer_step t s (set_consumer t (CReady c') s)"
| c_too_small: "consumers s t = CPop c cap \<Longrightarrow>
     read_slot (ring s) (c_tail c) = Some (Len n) \<Longrightarrow> unat n > cap \<Longrightarrow>
     consumer_step t s (set_consumer t (CReady c) s)"
| c_len: "consumers s t = CPop c cap \<Longrightarrow>
     read_slot (ring s) (c_tail c) = Some (Len n) \<Longrightarrow> unat n \<le> cap \<Longrightarrow>
     consumer_step t s (set_consumer t (CRead c n []) s)"
| c_len_fault: "consumers s t = CPop c cap \<Longrightarrow>
     (\<forall>n. read_slot (ring s) (c_tail c) \<noteq> Some (Len n)) \<Longrightarrow>
     consumer_step t s (set_consumer t CFault s)"
| c_read: "consumers s t = CRead c n vs \<Longrightarrow> length vs < unat n \<Longrightarrow>
     read_slot (ring s) (c_tail c + 1 + len_word vs) = Some (Value v) \<Longrightarrow>
     consumer_step t s (set_consumer t (CRead c n (vs @ [v])) s)"
| c_read_fault: "consumers s t = CRead c n vs \<Longrightarrow> length vs < unat n \<Longrightarrow>
     (\<forall>v. read_slot (ring s) (c_tail c + 1 + len_word vs) \<noteq> Some (Value v)) \<Longrightarrow>
     consumer_step t s (set_consumer t CFault s)"
| c_store: "consumers s t = CRead c n vs \<Longrightarrow> length vs = unat n \<Longrightarrow> h = c_tail c + 1 + n \<Longrightarrow>
     consumer_step t s (set_consumer t (CReady (c\<lparr>c_tail := h\<rparr>))
       (s\<lparr>ring := (ring s)\<lparr>tail := h\<rparr>, popped := popped s @ [vs]\<rparr>))"
| c_drop: "consumers s t = CReady c \<Longrightarrow>
     consumer_step t s (set_consumer t CIdle (s\<lparr>ring := drop_consumer (ring s)\<rparr>))"

inductive rb_reachable :: "nat \<Rightarrow> 'a rb_sys \<Rightarrow> bool" where
  start: "rb_new n = Some rb \<Longrightarrow> rb_reachable n (rb_sys_init rb)"
| producer: "rb_reachable n s \<Longrightarrow> producer_step t s s' \<Longrightarrow> rb_reachable n s'"
| consumer: "rb_reachable n s \<Longrightarrow> consumer_step t s s' \<Longrightarrow> rb_reachable n s'"

subsection \<open>The invariant\<close>

definition written :: "'a ring_buffer \<Rightarrow> usize \<Rightarrow> 'a list \<Rightarrow> nat \<Rightarrow> bool" where
  "written rb h vs i \<longleftrightarrow>
     i \<le> length vs \<and> (\<forall>j<i. read_slot rb (h + 1 + of_nat j) = Some (Value (vs ! j)))"

fun producer_inv :: "'a ring_buffer \<Rightarrow> 'a list list \<Rightarrow> 'a pstate \<Rightarrow> bool" where
  "producer_inv rb recs PIdle \<longleftrightarrow> True"
| "producer_inv rb recs PLocked \<longleftrightarrow> True"
| "producer_inv rb recs (PHead h) \<longleftrightarrow> h = head rb"
| "producer_inv rb recs (PReady p) \<longleftrightarrow> producer_ok rb p recs"
| "producer_inv rb recs (PReload p vs) \<longleftrightarrow> producer_ok rb p recs \<and> length vs < 2 ^ 64"
| "producer_inv rb recs (PWrite p vs i) \<longleftrightarrow>
     producer_room rb p recs (Suc (length vs)) \<and> written rb (head rb) vs i"
| "producer_inv rb recs (PPublish p vs) \<longleftrightarrow>
     producer_room rb p recs (Suc (length vs)) \<and> written rb (head rb) vs (length vs) \<and>
     read_slot rb (head rb) = Some (Len (len_word vs))"

fun consumer_inv :: "'a ring_buffer \<Rightarrow> 'a list list \<Rightarrow> 'a cstate \<Rightarrow> bool" where
  "consumer_inv rb recs CIdle \<longleftrightarrow> True"
| "consumer_inv rb recs CLocked \<longleftrightarrow> True"
| "consumer_inv rb recs (CHead h) \<longleftrightarrow> consumer_ok rb \<lparr>c_head = h, c_tail = tail rb\<rparr> recs"
| "consumer_inv rb recs (CReady c) \<longleftrightarrow> consumer_ok rb c recs"
| "consumer_inv rb recs (CPop c cap) \<longleftrightarrow> consumer_ok rb c recs \<and> c_tail c \<noteq> c_head c"
| "consumer_inv rb recs (CRead c n vs) \<longleftrightarrow>
     consumer_ok rb c recs \<and> c_tail c \<noteq> c_head c \<and>
     (\<exists>r rs. recs = r # rs \<and> unat n = length r \<and> vs = take (length vs) r)"
| "consumer_inv rb recs CFault \<longleftrightarrow> False"

definition locked_by :: "bool \<Rightarrow> (nat \<Rightarrow> bool) \<Rightarrow> bool" where
  "locked_by flag active \<longleftrightarrow>
     (flag \<longleftrightarrow> (\<exists>t. active t)) \<and> (\<forall>t u. active t \<and> active u \<longrightarrow> t = u)"

definition rb_inv :: "nat \<Rightarrow> 'a rb_sys \<Rightarrow> 'a list list \<Rightarrow> bool" where
  "rb_inv n s recs \<longleftrightarrow>
     holds (ring s) recs \<and> length (slots (ring s)) = n \<and> pushed s = popped s @ recs \<and>
     locked_by (producer_locked (ring s)) (\<lambda>t. producers s t \<noteq> PIdle) \<and>
     locked_by (consumer_locked (ring s)) (\<lambda>t. consumers s t \<noteq> CIdle) \<and>
     (\<forall>t. producer_inv (ring s) recs (producers s t)) \<and>
     (\<forall>t. consumer_inv (ring s) recs (consumers s t))"

lemma set_producer_simps [simp]:
  "ring (set_producer t ps s) = ring s"
  "producers (set_producer t ps s) = (producers s)(t := ps)"
  "consumers (set_producer t ps s) = consumers s"
  "pushed (set_producer t ps s) = pushed s"
  "popped (set_producer t ps s) = popped s"
  by (simp_all add: set_producer_def)

lemma set_consumer_simps [simp]:
  "ring (set_consumer t cs s) = ring s"
  "producers (set_consumer t cs s) = producers s"
  "consumers (set_consumer t cs s) = (consumers s)(t := cs)"
  "pushed (set_consumer t cs s) = pushed s"
  "popped (set_consumer t cs s) = popped s"
  by (simp_all add: set_consumer_def)

subsection \<open>Exclusion\<close>

lemma locked_by_flag: "locked_by f active \<Longrightarrow> active t \<Longrightarrow> f"
  by (auto simp: locked_by_def)

lemma locked_by_others: "locked_by f active \<Longrightarrow> active t \<Longrightarrow> u \<noteq> t \<Longrightarrow> \<not> active u"
  by (auto simp: locked_by_def)

lemma locked_by_free: "locked_by f active \<Longrightarrow> \<not> f \<Longrightarrow> \<not> active t"
  by (auto simp: locked_by_def)

text \<open>A thread that already holds the side moves to another of its states.\<close>

lemma rb_inv_producer_move:
  assumes I: "rb_inv n s recs" and a: "producers s t \<noteq> PIdle" and b: "ps \<noteq> PIdle"
    and h: "holds rb recs'" "length (slots rb) = n" "pu = popped s @ recs'"
    and l: "producer_locked rb = producer_locked (ring s)"
      "consumer_locked rb = consumer_locked (ring s)"
    and p: "producer_inv rb recs' ps"
    and c: "\<And>cs. consumer_inv (ring s) recs cs \<Longrightarrow> consumer_inv rb recs' cs"
  shows "rb_inv n (set_producer t ps (s\<lparr>ring := rb, pushed := pu\<rparr>)) recs'"
proof -
  have L: "locked_by (producer_locked (ring s)) (\<lambda>t. producers s t \<noteq> PIdle)"
    using I by (simp add: rb_inv_def)
  have others: "\<And>u. u \<noteq> t \<Longrightarrow> producers s u = PIdle"
    using locked_by_others [OF L a] by blast
  have "(\<lambda>u. ((producers s)(t := ps)) u \<noteq> PIdle) = (\<lambda>u. producers s u \<noteq> PIdle)"
    using a b by (auto simp: fun_eq_iff)
  then show ?thesis
    using I h l p c others by (simp add: rb_inv_def)
qed

lemma rb_inv_producer_local:
  assumes "rb_inv n s recs" "producers s t \<noteq> PIdle" "ps \<noteq> PIdle" "producer_inv (ring s) recs ps"
  shows "rb_inv n (set_producer t ps s) recs"
  using rb_inv_producer_move [OF assms(1-3), of "ring s" recs "pushed s"] assms(1,4)
  by (simp add: rb_inv_def)

lemma rb_inv_consumer_move:
  assumes I: "rb_inv n s recs" and a: "consumers s t \<noteq> CIdle" and b: "cs \<noteq> CIdle"
    and h: "holds rb recs'" "length (slots rb) = n" "pushed s = po @ recs'"
    and l: "producer_locked rb = producer_locked (ring s)"
      "consumer_locked rb = consumer_locked (ring s)"
    and c: "consumer_inv rb recs' cs"
    and p: "\<And>ps. producer_inv (ring s) recs ps \<Longrightarrow> producer_inv rb recs' ps"
  shows "rb_inv n (set_consumer t cs (s\<lparr>ring := rb, popped := po\<rparr>)) recs'"
proof -
  have L: "locked_by (consumer_locked (ring s)) (\<lambda>t. consumers s t \<noteq> CIdle)"
    using I by (simp add: rb_inv_def)
  have others: "\<And>u. u \<noteq> t \<Longrightarrow> consumers s u = CIdle"
    using locked_by_others [OF L a] by blast
  have "(\<lambda>u. ((consumers s)(t := cs)) u \<noteq> CIdle) = (\<lambda>u. consumers s u \<noteq> CIdle)"
    using a b by (auto simp: fun_eq_iff)
  then show ?thesis
    using I h l p c others by (simp add: rb_inv_def)
qed

lemma rb_inv_consumer_local:
  assumes "rb_inv n s recs" "consumers s t \<noteq> CIdle" "cs \<noteq> CIdle" "consumer_inv (ring s) recs cs"
  shows "rb_inv n (set_consumer t cs s) recs"
  using rb_inv_consumer_move [OF assms(1-3), of "ring s" recs "popped s"] assms(1,4)
  by (simp add: rb_inv_def)

subsection \<open>Slot accesses\<close>

text \<open>A write past the published records changes nothing a consumer relies on.\<close>

lemma holds_write_free:
  assumes h: "holds rb recs" and a: "used recs \<le> a" "a < length (slots rb)"
  shows "holds (write_slot rb (tail rb + of_nat a) x) recs"
proof -
  note H = holdsD [OF h]
  have "read_slot (write_slot rb (tail rb + of_nat a) x) (tail rb + of_nat j) =
      read_slot rb (tail rb + of_nat j)" if "j < used recs" for j
    using read_write_slot [OF H(1) a(2), of j "tail rb" x] that a by simp
  then have "slots_hold (write_slot rb (tail rb + of_nat a) x) (tail rb) (encode_records recs)"
    using H(4) by (simp add: slots_hold_def)
  then show ?thesis using H h by (simp add: holds_def)
qed

lemma consumer_ok_cong: "tail rb' = tail rb \<Longrightarrow> consumer_ok rb' c recs = consumer_ok rb c recs"
  by (simp add: consumer_ok_def)

lemma consumer_inv_cong:
  "tail rb' = tail rb \<Longrightarrow> consumer_inv rb recs cs \<Longrightarrow> consumer_inv rb' recs cs"
  by (cases cs) (simp_all add: consumer_ok_cong [of rb' rb])

lemma consumer_ok_append:
  assumes "consumer_ok rb c recs"
  shows "consumer_ok rb c (recs @ [vs])"
proof -
  from assms obtain k where "c_tail c = tail rb" "k \<le> length recs"
    "c_head c = tail rb + of_nat (used (take k recs))"
    unfolding consumer_ok_def by blast
  then show ?thesis unfolding consumer_ok_def by (intro conjI exI [of _ k]) simp_all
qed

lemma consumer_inv_append:
  "tail rb' = tail rb \<Longrightarrow> consumer_inv rb recs cs \<Longrightarrow> consumer_inv rb' (recs @ [vs]) cs"
  by (cases cs) (auto simp: consumer_ok_cong [of rb' rb] consumer_ok_append)

lemma room_offsets:
  assumes "holds rb recs" "producer_room rb p recs (Suc (length vs))"
  shows "head rb = tail rb + of_nat (used recs)" "p_head p = head rb"
    "Suc (length vs) + used recs \<le> length (slots rb)" "rb_size rb"
  using assms holdsD [OF assms(1)] by (auto simp: producer_room_def)

lemma producer_room_cong:
  "head rb' = head rb \<Longrightarrow> tail rb' = tail rb \<Longrightarrow> length (slots rb') = length (slots rb) \<Longrightarrow>
   producer_room rb' p recs m = producer_room rb p recs m"
  by (simp add: producer_room_def)

lemma write_slot_handles [simp, frame_simps]:
  "producer_room (write_slot rb i x) p recs m = producer_room rb p recs m"
  "consumer_inv (write_slot rb i x) recs cs = consumer_inv rb recs cs"
  using consumer_inv_cong [of "write_slot rb i x" rb] consumer_inv_cong [of rb "write_slot rb i x"]
  by (auto simp: producer_room_cong [of "write_slot rb i x" rb])

lemma written_step:
  assumes h: "holds rb recs" and r: "producer_room rb p recs (Suc (length vs))"
    and w: "written rb (head rb) vs i" and i: "i < length vs"
  defines "rb' \<equiv> write_slot rb (p_head p + 1 + of_nat i) (Value (vs ! i))"
  shows "holds rb' recs" "written rb' (head rb) vs (Suc i)"
proof -
  note R = room_offsets [OF h r]
  have idx: "head rb + 1 + of_nat j = tail rb + of_nat (Suc (used recs + j))" for j
    by (simp add: R(1))
  have eq: "rb' = write_slot rb (tail rb + of_nat (Suc (used recs + i))) (Value (vs ! i))"
    unfolding rb'_def R(2) idx ..
  show "holds rb' recs"
    unfolding eq using R(3) i by (intro holds_write_free [OF h]) simp_all
  have "read_slot rb' (head rb + 1 + of_nat j) = Some (Value (vs ! j))" if j: "j < Suc i" for j
  proof -
    have "read_slot rb' (tail rb + of_nat (Suc (used recs + j))) =
        (if Suc (used recs + j) = Suc (used recs + i) then Some (Value (vs ! i))
         else read_slot rb (tail rb + of_nat (Suc (used recs + j))))"
      unfolding eq using R(3) i j by (intro read_write_slot [OF R(4)]) simp_all
    then show ?thesis
      unfolding idx using w j by (auto simp: written_def idx less_Suc_eq)
  qed
  then show "written rb' (head rb) vs (Suc i)" using i by (simp add: written_def)
qed

lemma written_len:
  assumes h: "holds rb recs" and r: "producer_room rb p recs (Suc (length vs))"
    and w: "written rb (head rb) vs (length vs)"
  defines "rb' \<equiv> write_slot rb (p_head p) (Len (len_word vs))"
  shows "holds rb' recs" "written rb' (head rb) vs (length vs)"
    "read_slot rb' (head rb) = Some (Len (len_word vs))"
proof -
  note R = room_offsets [OF h r]
  have eq: "rb' = write_slot rb (tail rb + of_nat (used recs)) (Len (len_word vs))"
    unfolding rb'_def R(2) R(1) ..
  have rd: "read_slot rb' (tail rb + of_nat b) =
        (if b = used recs then Some (Len (len_word vs)) else read_slot rb (tail rb + of_nat b))"
    if "b < length (slots rb)" for b
    unfolding eq using R(3) that by (intro read_write_slot [OF R(4)]) simp_all
  show "holds rb' recs"
    unfolding eq using R(3) by (intro holds_write_free [OF h]) simp_all
  show "read_slot rb' (head rb) = Some (Len (len_word vs))"
    using rd [of "used recs"] R(1,3) by simp
  have idx: "head rb + 1 + of_nat j = tail rb + of_nat (Suc (used recs + j))" for j
    by (simp add: R(1))
  show "written rb' (head rb) vs (length vs)"
    using w R(3) rd [of "Suc (used recs + _)"]
    by (simp add: written_def idx del: of_nat_Suc of_nat_add)
qed

text \<open>The store of \<open>head\<close> publishes exactly the record that was written.\<close>

lemma holds_publish:
  assumes h: "holds rb recs" and r: "producer_room rb p recs (Suc (length vs))"
    and w: "written rb (head rb) vs (length vs)"
    and l: "read_slot rb (head rb) = Some (Len (len_word vs))"
  shows "holds (rb\<lparr>head := head rb + 1 + len_word vs\<rparr>) (recs @ [vs])"
proof -
  note R = room_offsets [OF h r]
  have "slots_hold rb (head rb + 1) (List.map Value vs)"
    using w by (simp add: slots_hold_def written_def)
  then have "slots_hold rb (tail rb) (encode_records (recs @ [vs]))"
    using holdsD(4) [OF h] l R(1)
    by (simp add: slots_hold_append slots_hold_Cons len_word_def)
  then show ?thesis
    using holdsD [OF h] R(3) by (simp add: holds_def len_word_def)
qed

lemma producer_ok_publish:
  assumes r: "producer_room rb p recs (Suc (length vs))" and h: "h = head rb + 1 + len_word vs"
  shows "producer_ok (rb\<lparr>head := h\<rparr>) (p\<lparr>p_head := h\<rparr>) (recs @ [vs])"
proof -
  from r obtain d where "tail rb = p_tail p + of_nat d"
    "Suc (length vs) + d + used recs \<le> length (slots rb)"
    unfolding producer_room_def by blast
  then show ?thesis
    unfolding producer_ok_def producer_room_def by (auto intro!: exI [of _ d])
qed

text \<open>A successful \<open>fits\<close> reserves the room the record needs.\<close>

lemma fits_room:
  assumes h: "holds rb recs" and p: "producer_ok rb p recs" and n: "length vs < 2 ^ 64"
    and f: "fits rb p (len_word vs)"
  shows "producer_room rb p recs (Suc (length vs))"
proof -
  from p obtain d where d: "p_head p = head rb" "tail rb = p_tail p + of_nat d"
    "d + used recs \<le> length (slots rb)"
    unfolding producer_ok_def producer_room_def by auto
  then show ?thesis
    using f fits_iff [OF h d n] unfolding producer_room_def len_word_def
    by (auto intro!: exI [of _ d])
qed

lemma producer_ok_reload:
  assumes "holds rb recs" "producer_ok rb p recs"
  shows "producer_ok rb (p\<lparr>p_tail := tail rb\<rparr>) recs"
  using assms(2) holdsD(2) [OF assms(1)]
  by (auto simp: producer_ok_def producer_room_def intro!: exI [of _ "0::nat"])

lemma consumer_slots:
  assumes h: "holds rb recs" and c: "consumer_ok rb c recs" "c_tail c \<noteq> c_head c"
  obtains r rs where "recs = r # rs" "read_slot rb (c_tail c) = Some (Len (of_nat (length r)))"
    "unat (of_nat (length r) :: usize) = length r"
    "\<And>j. j < length r \<Longrightarrow> read_slot rb (c_tail c + 1 + of_nat j) = Some (Value (r ! j))"
proof -
  have "recs \<noteq> []" using consumer_refresh(2) [OF h c(1)] c(2) by simp
  then obtain r rs where e: "recs = r # rs" by (cases recs) auto
  have t: "c_tail c = tail rb" using c(1) by (simp add: consumer_ok_def)
  note H = holds_Cons_slots [OF h [unfolded e]]
  have "slots_hold rb (tail rb + 1) (List.map Value r)"
    using holdsD(4) [OF h] by (simp add: e slots_hold_Cons slots_hold_append)
  then show thesis
    using that [OF e] H unfolding t by (simp add: slots_hold_def)
qed

lemma consumer_ok_store:
  assumes h: "holds rb (r # rs)" and c: "consumer_ok rb c (r # rs)" "c_tail c \<noteq> c_head c"
  shows "consumer_ok (consumed rb r) (c\<lparr>c_tail := c_tail c + 1 + of_nat (length r)\<rparr>) rs"
proof -
  from c(1) obtain k where k: "c_tail c = tail rb" "k \<le> length (r # rs)"
    "c_head c = tail rb + of_nat (used (take k (r # rs)))"
    unfolding consumer_ok_def by blast
  with c(2) obtain m where m: "k = Suc m" by (cases k) auto
  then show ?thesis using k by (auto simp: consumer_ok_def intro!: exI [of _ m])
qed

lemma producer_inv_consumed:
  assumes "producer_inv rb (r # rs) ps"
  shows "producer_inv (consumed rb r) rs ps"
proof -
  have "written (consumed rb r) h vs i = written rb h vs i" for h vs i
    by (simp add: written_def consumed_def)
  moreover have "read_slot (consumed rb r) i = read_slot rb i" for i
    by (simp add: consumed_def)
  ultimately show ?thesis
    using assms by (cases ps) (auto intro: producer_room_consumed producer_ok_consumed)
qed

subsection \<open>Every step keeps the invariant\<close>

lemma locked_by_acquire:
  "locked_by False active \<Longrightarrow> locked_by True (\<lambda>u. u \<noteq> t \<longrightarrow> active u)"
  by (auto simp: locked_by_def)

lemma locked_by_release:
  "locked_by True active \<Longrightarrow> active t \<Longrightarrow> locked_by False (\<lambda>u. u \<noteq> t \<and> active u)"
  by (auto simp: locked_by_def)

lemma producer_inv_cong:
  "head rb' = head rb \<Longrightarrow> tail rb' = tail rb \<Longrightarrow> slots rb' = slots rb \<Longrightarrow>
   producer_inv rb' recs ps = producer_inv rb recs ps"
  by (cases ps) (simp_all add: producer_ok_def producer_room_def written_def read_slot_def
      slot_index_def)

lemma rb_inv_locks:
  assumes "rb_inv n s recs"
    and "locked_by f (\<lambda>u. ((producers s)(t := ps)) u \<noteq> PIdle)" "producer_inv (ring s) recs ps"
  shows "rb_inv n (set_producer t ps (s\<lparr>ring := (ring s)\<lparr>producer_locked := f\<rparr>\<rparr>)) recs"
proof -
  have "producer_inv ((ring s)\<lparr>producer_locked := f\<rparr>) recs qs = producer_inv (ring s) recs qs"
    "consumer_inv (ring s) recs cs \<Longrightarrow> consumer_inv ((ring s)\<lparr>producer_locked := f\<rparr>) recs cs"
    for qs cs
    by (rule producer_inv_cong; simp) (rule consumer_inv_cong; simp)
  then show ?thesis using assms by (simp add: rb_inv_def)
qed

lemma rb_inv_consumer_locks:
  assumes "rb_inv n s recs"
    and "locked_by f (\<lambda>u. ((consumers s)(t := cs)) u \<noteq> CIdle)" "consumer_inv (ring s) recs cs"
  shows "rb_inv n (set_consumer t cs (s\<lparr>ring := (ring s)\<lparr>consumer_locked := f\<rparr>\<rparr>)) recs"
proof -
  have "producer_inv ((ring s)\<lparr>consumer_locked := f\<rparr>) recs qs = producer_inv (ring s) recs qs"
    "consumer_inv (ring s) recs ds \<Longrightarrow> consumer_inv ((ring s)\<lparr>consumer_locked := f\<rparr>) recs ds"
    for qs ds
    by (rule producer_inv_cong; simp) (rule consumer_inv_cong; simp)
  then show ?thesis using assms by (simp add: rb_inv_def)
qed

lemma rb_invD:
  assumes "rb_inv n s recs"
  shows "holds (ring s) recs" "length (slots (ring s)) = n" "pushed s = popped s @ recs"
    "locked_by (producer_locked (ring s)) (\<lambda>t. producers s t \<noteq> PIdle)"
    "locked_by (consumer_locked (ring s)) (\<lambda>t. consumers s t \<noteq> CIdle)"
    "producer_inv (ring s) recs (producers s t)" "consumer_inv (ring s) recs (consumers s t)"
  using assms by (simp_all add: rb_inv_def)

lemma producer_step_inv:
  assumes I: "rb_inv n s recs" and step: "producer_step t s s'"
  shows "\<exists>recs'. rb_inv n s' recs'"
  using step
proof cases
  case p_lock
  have "locked_by True (\<lambda>u. ((producers s)(t := PLocked)) u \<noteq> PIdle)"
    using locked_by_acquire [of "\<lambda>t. producers s t \<noteq> PIdle" t] rb_invD(4) [OF I] p_lock(3)
    by (simp add: fun_upd_def if_distrib)
  then show ?thesis unfolding p_lock(1) by (intro exI [of _ recs] rb_inv_locks [OF I]) simp_all
next
  case p_drop
  have "locked_by False (\<lambda>u. ((producers s)(t := PIdle)) u \<noteq> PIdle)"
    using locked_by_release [of "\<lambda>t. producers s t \<noteq> PIdle" t] rb_invD(4) [OF I]
      locked_by_flag [OF rb_invD(4) [OF I], of t] p_drop(2)
    by (simp add: fun_upd_def if_distrib cong: conj_cong)
  then show ?thesis
    unfolding p_drop(1) drop_producer_def by (intro exI [of _ recs] rb_inv_locks [OF I]) simp_all
next
  case (p_publish p vs h)
  note P = rb_invD(6) [OF I, of t, unfolded p_publish(2), simplified]
  have h: "h = head (ring s) + 1 + len_word vs"
    using P p_publish(3) by (simp add: producer_room_def)
  have "rb_inv n s' (recs @ [vs])"
    unfolding p_publish(1) using P h
    by (intro rb_inv_producer_move [OF I])
       (simp_all add: p_publish(2) rb_invD [OF I] holds_publish [where p = p] producer_ok_publish
         consumer_inv_append [of _ "ring s"])
  then show ?thesis ..
next
  case (p_write p vs i)
  note P = rb_invD(6) [OF I, of t, unfolded p_write(2), simplified]
  note W = written_step [OF rb_invD(1) [OF I] conjunct1 [OF P] conjunct2 [OF P] p_write(3)]
  have "rb_inv n (set_producer t (PWrite p vs (Suc i)) (s\<lparr>ring := write_slot (ring s)
      (p_head p + 1 + of_nat i) (Value (vs ! i)), pushed := pushed s\<rparr>)) recs"
    using P W
    by (intro rb_inv_producer_move [OF I])
       (simp_all add: p_write(2) rb_invD [OF I])
  then show ?thesis unfolding p_write(1) by auto
next
  case (p_write_len p vs)
  note P = rb_invD(6) [OF I, of t, unfolded p_write_len(2), simplified]
  note W = written_len [OF rb_invD(1) [OF I] conjunct1 [OF P] conjunct2 [OF P]]
  have "rb_inv n (set_producer t (PPublish p vs) (s\<lparr>ring := write_slot (ring s)
      (p_head p) (Len (len_word vs)), pushed := pushed s\<rparr>)) recs"
    using P W
    by (intro rb_inv_producer_move [OF I])
       (simp_all add: p_write_len(2) rb_invD [OF I])
  then show ?thesis unfolding p_write_len(1) by auto
qed (use I rb_invD(1,2) [OF I] rb_invD(6) [OF I, of t] in
     \<open>auto intro!: exI [of _ recs] rb_inv_producer_local fresh_producer_ok fits_room
        producer_ok_reload simp: written_def\<close>)

lemma consumer_len_iff:
  assumes "rb_inv n s recs" "consumers s t = CPop c cap"
  obtains r rs where "recs = r # rs" "consumer_ok (ring s) c recs" "c_tail c \<noteq> c_head c"
    "read_slot (ring s) (c_tail c) = Some (Len (of_nat (length r)))"
    "unat (of_nat (length r) :: usize) = length r"
  using consumer_slots [OF rb_invD(1) [OF assms(1)], of c] rb_invD(7) [OF assms(1), of t] assms(2)
  by (metis consumer_inv.simps(5))

lemma consumer_value_iff:
  assumes "rb_inv n s recs" "consumers s t = CRead c k vs"
  obtains r rs where "recs = r # rs" "consumer_ok (ring s) c recs" "c_tail c \<noteq> c_head c"
    "unat k = length r" "vs = take (length vs) r" "length vs \<le> length r"
    "length vs < length r \<Longrightarrow>
       read_slot (ring s) (c_tail c + 1 + len_word vs) = Some (Value (r ! length vs))"
proof -
  have C: "consumer_ok (ring s) c recs" "c_tail c \<noteq> c_head c"
    "\<exists>r rs. recs = r # rs \<and> unat k = length r \<and> vs = take (length vs) r"
    using rb_invD(7) [OF assms(1), of t] assms(2) by simp_all
  then obtain r rs where r: "recs = r # rs" "unat k = length r" "vs = take (length vs) r" by blast
  then have "length vs \<le> length r" by (metis length_take min.cobounded1)
  moreover have "length vs < length r \<Longrightarrow>
      read_slot (ring s) (c_tail c + 1 + len_word vs) = Some (Value (r ! length vs))"
    using consumer_slots [OF rb_invD(1) [OF assms(1)] C(1,2)] r(1) unfolding len_word_def by blast
  ultimately show thesis using that C r by blast
qed

lemma consumer_step_inv:
  assumes I: "rb_inv n s recs" and step: "consumer_step t s s'"
  shows "\<exists>recs'. rb_inv n s' recs'"
  using step
proof cases
  case c_lock
  have "locked_by True (\<lambda>u. ((consumers s)(t := CLocked)) u \<noteq> CIdle)"
    using locked_by_acquire [of "\<lambda>t. consumers s t \<noteq> CIdle" t] rb_invD(5) [OF I] c_lock(3)
    by (simp add: fun_upd_def if_distrib)
  then show ?thesis
    unfolding c_lock(1) by (intro exI [of _ recs] rb_inv_consumer_locks [OF I]) simp_all
next
  case c_drop
  have "locked_by False (\<lambda>u. ((consumers s)(t := CIdle)) u \<noteq> CIdle)"
    using locked_by_release [of "\<lambda>t. consumers s t \<noteq> CIdle" t] rb_invD(5) [OF I]
      locked_by_flag [OF rb_invD(5) [OF I], of t] c_drop(2)
    by (simp add: fun_upd_def if_distrib cong: conj_cong)
  then show ?thesis
    unfolding c_drop(1) drop_consumer_def
    by (intro exI [of _ recs] rb_inv_consumer_locks [OF I]) simp_all
next
  case (c_refresh c c' cap)
  have "consumer_ok (ring s) c' recs"
    using consumer_refresh(1) [OF rb_invD(1) [OF I], of c] rb_invD(7) [OF I, of t] c_refresh
    by simp
  then show ?thesis
    unfolding c_refresh(1) using c_refresh
    by (intro exI [of _ recs] rb_inv_consumer_local [OF I]) simp_all
next
  case (c_empty c c')
  have "consumer_ok (ring s) c' recs"
    using consumer_refresh(1) [OF rb_invD(1) [OF I], of c] rb_invD(7) [OF I, of t] c_empty
    by simp
  then show ?thesis
    unfolding c_empty(1) using c_empty
    by (intro exI [of _ recs] rb_inv_consumer_local [OF I]) simp_all
next
  case (c_len c cap k)
  obtain r rs where "recs = r # rs" "consumer_ok (ring s) c recs" "c_tail c \<noteq> c_head c"
    "read_slot (ring s) (c_tail c) = Some (Len (of_nat (length r)))"
    "unat (of_nat (length r) :: usize) = length r"
    using consumer_len_iff [OF I c_len(2)] .
  then show ?thesis
    unfolding c_len(1) using c_len(2,3)
    by (intro exI [of _ recs] rb_inv_consumer_local [OF I]) simp_all
next
  case (c_len_fault c cap)
  then show ?thesis using consumer_len_iff [OF I c_len_fault(2)] by metis
next
  case (c_read c k vs v)
  obtain r rs where "recs = r # rs" "consumer_ok (ring s) c recs" "c_tail c \<noteq> c_head c"
    "unat k = length r" "vs = take (length vs) r"
    "read_slot (ring s) (c_tail c + 1 + len_word vs) = Some (Value (r ! length vs))"
    using consumer_value_iff [OF I c_read(2)] c_read(3) by metis
  then show ?thesis
    unfolding c_read(1) using c_read(2-4)
    by (intro exI [of _ recs] rb_inv_consumer_local [OF I])
       (simp_all add: take_Suc_conv_app_nth)
next
  case (c_read_fault c k vs)
  then show ?thesis using consumer_value_iff [OF I c_read_fault(2)] by metis
next
  case (c_store c k vs h)
  obtain r rs where r: "recs = r # rs" "consumer_ok (ring s) c recs" "c_tail c \<noteq> c_head c"
    "unat k = length r" "vs = take (length vs) r"
    using consumer_value_iff [OF I c_store(2)] by metis
  have vs: "vs = r" using r(4,5) c_store(3) by simp
  have k: "k = of_nat (length r)" by (simp flip: r(4))
  have t: "c_tail c = tail (ring s)" using r(2) by (simp add: consumer_ok_def)
  have ring: "(ring s)\<lparr>tail := h\<rparr> = consumed (ring s) r"
    by (simp add: consumed_def c_store(4) k t)
  have "rb_inv n s' rs"
    unfolding c_store(1) vs ring
    using rb_invD [OF I] r consumer_ok_store [of "ring s" r rs c] c_store(4) k
    by (intro rb_inv_consumer_move [OF I])
       (simp_all add: c_store(2) holds_consumed producer_inv_consumed)
  then show ?thesis ..
qed (use I rb_invD(1) [OF I] rb_invD(7) [OF I, of t] in
     \<open>auto intro!: exI [of _ recs] rb_inv_consumer_local fresh_consumer_ok\<close>)

lemma rb_reachable_inv: "rb_reachable n s \<Longrightarrow> \<exists>recs. rb_inv n s recs"
proof (induction rule: rb_reachable.induct)
  case (start n rb)
  have "rb_inv n (rb_sys_init rb) []"
    using holds_new [OF start] by (simp add: rb_inv_def rb_sys_init_def locked_by_def)
  then show ?case ..
next
  case (producer n s t s')
  then show ?case using producer_step_inv by blast
next
  case (consumer n s t s')
  then show ?case using consumer_step_inv by blast
qed

subsection \<open>Properties\<close>

text \<open>
  C4: In every interleaving of any number of producing and consuming threads, with a handler
  allowed to interrupt at any shared access: what has been popped is a prefix of what has been
  pushed, in order and unaltered; the records in between fit the array; no thread reaches the
  \<open>unreachable!\<close> arm or reads a slot that was not written; and at most one thread is on the
  producer side and at most one on the consumer side.
\<close>

theorem ring_buffer_linearizable:
  assumes "rb_reachable n s"
  shows "(\<exists>recs. pushed s = popped s @ recs \<and> used recs \<le> n \<and> holds (ring s) recs) \<and>
    (\<forall>t. consumers s t \<noteq> CFault) \<and>
    (\<forall>t u. producers s t \<noteq> PIdle \<and> producers s u \<noteq> PIdle \<longrightarrow> t = u) \<and>
    (\<forall>t u. consumers s t \<noteq> CIdle \<and> consumers s u \<noteq> CIdle \<longrightarrow> t = u)"
proof -
  obtain recs where I: "rb_inv n s recs" using rb_reachable_inv [OF assms] by blast
  have "consumers s t \<noteq> CFault" for t using rb_invD(7) [OF I, of t] by auto
  then show ?thesis
    using rb_invD(1-5) [OF I] holdsD(2) [OF rb_invD(1) [OF I]] by (auto simp: locked_by_def)
qed

theorem ring_buffer_linearizable_witness:
  "\<exists>s :: nat rb_sys. rb_reachable 2 s \<and> pushed s = [[7]] \<and> popped s = [] \<and>
     (\<exists>recs. pushed s = popped s @ recs \<and> used recs \<le> 2 \<and> holds (ring s) recs)"
proof -
  let ?rb = "\<lparr>slots = [None, None], head = 0, tail = 0,
      producer_locked = False, consumer_locked = False\<rparr> :: nat ring_buffer"
  let ?s0 = "rb_sys_init ?rb"
  let ?s1 = "set_producer 0 PLocked (?s0\<lparr>ring := (ring ?s0)\<lparr>producer_locked := True\<rparr>\<rparr>)"
  let ?s2 = "set_producer 0 (PHead (head (ring ?s1))) ?s1"
  let ?s3 = "set_producer 0 (PReady \<lparr>p_head = head (ring ?s1), p_tail = tail (ring ?s2)\<rparr>) ?s2"
  let ?p = "\<lparr>p_head = 0, p_tail = 0\<rparr>"
  let ?s4 = "set_producer 0 (PWrite ?p [7] 0) ?s3"
  let ?s5 = "set_producer 0 (PWrite ?p [7] 1)
      (?s4\<lparr>ring := write_slot (ring ?s4) (p_head ?p + 1 + of_nat 0) (Value 7)\<rparr>)"
  let ?s6 = "set_producer 0 (PPublish ?p [7])
      (?s5\<lparr>ring := write_slot (ring ?s5) (p_head ?p) (Len (len_word [7 :: nat]))\<rparr>)"
  let ?s7 = "set_producer 0 (PReady (?p\<lparr>p_head := 2\<rparr>))
      (?s6\<lparr>ring := (ring ?s6)\<lparr>head := 2\<rparr>, pushed := pushed ?s6 @ [[7]]\<rparr>)"
  have "rb_new 2 = Some ?rb"
    by (auto simp: rb_new_def is_power_of_two_def numeral_2_eq_2 intro: exI [of _ 1])
  then have r0: "rb_reachable 2 ?s0" by (rule rb_reachable.start)
  have init: "producers ?s0 0 = PIdle" "\<not> producer_locked (ring ?s0)" "pushed ?s0 = []"
    "popped ?s0 = []" "ring ?s0 = ?rb"
    by (simp_all add: rb_sys_init_def)
  have r1: "rb_reachable 2 ?s1" by (rule rb_reachable.producer [OF r0 p_lock [OF init(1,2)]])
  have r2: "rb_reachable 2 ?s2" by (rule rb_reachable.producer [OF r1 p_load_head]) simp
  have r3: "rb_reachable 2 ?s3" by (rule rb_reachable.producer [OF r2 p_load_tail]) simp
  have f: "fits (ring ?s3) ?p (len_word [7 :: nat])"
    by (simp add: fits_def len_word_def init)
  have r4: "rb_reachable 2 ?s4"
    by (rule rb_reachable.producer [OF r3 p_fits [OF _ _ f]]) (simp_all add: init)
  have r5: "rb_reachable 2 ?s5"
    using rb_reachable.producer [OF r4 p_write [of ?s4 0 ?p "[7]" 0]] by simp
  have r6: "rb_reachable 2 ?s6"
    using rb_reachable.producer [OF r5 p_write_len [of ?s5 0 ?p "[7]"]] by simp
  have r7: "rb_reachable 2 ?s7"
    using rb_reachable.producer [OF r6 p_publish [of ?s6 0 ?p "[7]" 2]] by (simp add: len_word_def)
  have "pushed ?s7 = [[7]]" "popped ?s7 = []" by (simp_all add: init)
  then show ?thesis
    using r7 conjunct1 [OF ring_buffer_linearizable [OF r7]] by blast
qed

end
