(* ===== verification/String_Table.thy ===== *)
theory String_Table
  imports Prelude
begin

text \<open>
  The string table of \<open>rust/src/encode/pprof.rs\<close> (\<open>StringID\<close>, \<open>StringTable\<close>) and the
  process-wide table that native code fills through \<open>rust/src/encode/interner.rs\<close>.

  A table of identifiers is an interface: \<open>id_table\<close> says what interning a key guarantees, and
  proves once that interning a list of keys gives identifiers that name exactly those keys. The
  string table provides it here; the function and location tables of the profile builder, and
  the frames of a stack, provide it in \<open>Pprof\<close>.
\<close>

subsection \<open>Tables of identifiers\<close>

text \<open>The loop that interns one key after another, written over the operation.\<close>

fun intern_all :: "('k \<Rightarrow> 't \<Rightarrow> (nat \<times> 't) option) \<Rightarrow> 'k list \<Rightarrow> 't \<Rightarrow> (nat list \<times> 't) option" where
  "intern_all intern [] t = Some ([], t)"
| "intern_all intern (k # ks) t =
     do { (i, t) \<leftarrow> intern k t;
          (is, t) \<leftarrow> intern_all intern ks t;
          Some (i # is, t) }"

locale id_table =
  fixes intern :: "'k \<Rightarrow> 't \<Rightarrow> (nat \<times> 't) option"
    and name_of :: "'t \<Rightarrow> nat \<Rightarrow> 'k option"
    and wf :: "'t \<Rightarrow> bool"
  assumes intern_wf: "wf t \<Longrightarrow> intern k t = Some (i, t') \<Longrightarrow> wf t'"
    and intern_names: "wf t \<Longrightarrow> intern k t = Some (i, t') \<Longrightarrow> name_of t' i = Some k"
    and intern_keeps: "wf t \<Longrightarrow> intern k t = Some (i, t') \<Longrightarrow> name_of t j = Some k' \<Longrightarrow>
      name_of t' j = Some k'"
    and names_unique: "wf t \<Longrightarrow> name_of t i = Some k \<Longrightarrow> name_of t j = Some k \<Longrightarrow> i = j"
begin

lemma intern_all_spec:
  assumes "wf t" "intern_all intern ks t = Some (is, t')"
  shows "wf t' \<and> List.map (name_of t') is = List.map Some ks \<and>
    (\<forall>j k. name_of t j = Some k \<longrightarrow> name_of t' j = Some k)"
  using assms
proof (induction ks arbitrary: "is" t)
  case (Cons k ks)
  obtain i t1 js where s: "intern k t = Some (i, t1)" "intern_all intern ks t1 = Some (js, t')"
    "is = i # js"
    using Cons.prems(2) by (auto split: Option.bind_splits)
  note IH = Cons.IH [OF intern_wf [OF Cons.prems(1) s(1)] s(2)]
  then show ?case
    using s(3) intern_names [OF Cons.prems(1) s(1)] intern_keeps [OF Cons.prems(1) s(1)] by simp
qed simp

text \<open>Two lists of keys get the same identifiers only if they are the same list.\<close>

lemma ids_inject:
  assumes "wf t" "List.map (name_of t) is = List.map Some ks" "List.map (name_of t) js = List.map Some ls"
  shows "is = js \<longleftrightarrow> ks = ls"
proof
  assume "is = js"
  then have "List.map Some ks = List.map Some ls" using assms(2,3) by simp
  then show "ks = ls" by (simp add: inj_map_eq_map)
next
  assume "ks = ls"
  then have "List.map (name_of t) is = List.map (name_of t) js" using assms(2,3) by simp
  moreover have "\<forall>i\<in>set is. name_of t i \<noteq> None"
    using assms(2) by (metis (mono_tags) in_set_conv_nth length_map nth_map option.distinct(1))
  ultimately show "is = js"
    using names_unique [OF assms(1)]
    by (auto simp: list_eq_iff_nth_eq dest: map_eq_imp_length_eq)
       (metis length_map nth_map nth_mem not_None_eq)
qed

end

subsection \<open>The string table\<close>

text \<open>\<open>StringSetKey\<close> compares and hashes by its string: the set is a map from string to index.\<close>

type_synonym string_table = "(string \<times> nat) list"

text \<open>\<open>StringID::new\<close>: the assertion fails when the table is full.\<close>

definition string_id_new :: "string_table \<Rightarrow> nat option" where
  "string_id_new t = (if length t < u32_max then Some (length t) else None)"

definition st_add :: "string \<Rightarrow> string_table \<Rightarrow> (nat \<times> string_table) option" where
  "st_add s t =
     do { next_id \<leftarrow> string_id_new t;
          case map_of t s of
            Some i \<Rightarrow> Some (i, t)
          | None \<Rightarrow> Some (next_id, AList.update s next_id t) }"

definition st_new :: "string_table option" where
  "st_new = do { (_, t) \<leftarrow> st_add '''' []; Some t }"

text \<open>\<open>v[idx] = s\<close> for every entry; an index out of range panics.\<close>

fun fill_table :: "string_table \<Rightarrow> string list \<Rightarrow> string list option" where
  "fill_table [] v = Some v"
| "fill_table ((s, i) # t) v = (if i < length v then fill_table t (v[i := s]) else None)"

definition into_pprof_table :: "string_table \<Rightarrow> string list option" where
  "into_pprof_table t = fill_table t (replicate (length t) '''')"

definition clone_pprof_table :: "string_table \<Rightarrow> string list \<Rightarrow> string list option" where
  "clone_pprof_table t dst = fill_table t (replicate (length t) '''')"

text \<open>The debugging helpers; \<open>allocation_size\<close> is what the hash map reports of its own memory.\<close>

definition debug_get_ffi :: "nat \<Rightarrow> string_table \<Rightarrow> string" where
  "debug_get_ffi i t =
     (case find (\<lambda>x. snd x = i) t of Some (s, _) \<Rightarrow> s | None \<Rightarrow> ''NOT FOUND WTF'')"

definition memory_size_bytes :: "(string_table \<Rightarrow> nat) \<Rightarrow> string_table \<Rightarrow> nat" where
  "memory_size_bytes allocation_size t = fold (\<lambda>x sz. usize_add sz (length (fst x))) t (allocation_size t)"

definition st_wf :: "string_table \<Rightarrow> bool" where
  "st_wf t \<longleftrightarrow> map_wf t \<and> distinct (List.map snd t) \<and> snd ` set t = {..<length t} \<and>
     map_of t '''' = Some 0"

text \<open>The string an index stands for.\<close>

definition st_string :: "string_table \<Rightarrow> nat \<Rightarrow> string option" where
  "st_string t i = map_of (List.map prod.swap t) i"

lemma st_string_iff:
  assumes "st_wf t"
  shows "st_string t i = Some s \<longleftrightarrow> map_of t s = Some i"
proof -
  have "distinct (List.map fst (List.map prod.swap t))" using assms by (simp add: st_wf_def comp_def)
  then have "st_string t i = Some s \<longleftrightarrow> (i, s) \<in> set (List.map prod.swap t)"
    unfolding st_string_def by (rule map_of_eq_Some_iff)
  also have "\<dots> \<longleftrightarrow> (s, i) \<in> set t" by force
  also have "\<dots> \<longleftrightarrow> map_of t s = Some i"
    using assms by (simp add: st_wf_def map_of_eq_Some_mem)
  finally show ?thesis .
qed

lemma debug_get_ffi_named: "st_string t i = Some s \<Longrightarrow> debug_get_ffi i t = s"
  by (induction t) (auto simp: st_string_def debug_get_ffi_def split: if_splits)

lemma st_index_lt:
  assumes "st_wf t" "map_of t s = Some i"
  shows "i < length t"
proof -
  from assms(2) have "(s, i) \<in> set t" by (rule map_of_SomeD)
  then have "i \<in> snd ` set t" by force
  then show ?thesis using assms(1) by (simp add: st_wf_def)
qed

lemma st_new_eq: "st_new = Some [('''', 0)]"
  by (simp add: st_new_def st_add_def string_id_new_def)

lemma st_new_wf: "st_new = Some t \<Longrightarrow> st_wf t"
  by (auto simp: st_new_eq st_wf_def map_wf_def)

lemma st_add_cases:
  assumes "st_add s t = Some (i, t')"
  obtains (old) "map_of t s = Some i" "t' = t"
  | (fresh) "map_of t s = None" "i = length t" "t' = t @ [(s, length t)]"
proof (cases "map_of t s")
  case None
  then have "s \<notin> map_keys t" by (simp add: map_of_eq_None_keys)
  then show thesis
    using assms None fresh update_fresh [of s t]
    by (auto simp: st_add_def string_id_new_def split: if_splits)
next
  case (Some j)
  then show thesis using assms old by (simp add: st_add_def string_id_new_def split: if_splits)
qed

lemma st_add_wf:
  assumes "st_wf t" "st_add s t = Some (i, t')"
  shows "st_wf t'"
  using assms(2)
proof (cases rule: st_add_cases)
  case old
  then show ?thesis using assms(1) by simp
next
  case fresh
  have "s \<notin> fst ` set t" using fresh(1) by (simp add: map_of_eq_None_iff)
  then show ?thesis
    using assms(1) unfolding fresh(3) st_wf_def map_wf_def
    by (auto simp: lessThan_Suc map_add_Some_iff split: option.splits)
qed

lemma st_add_map_of:
  assumes "st_add s t = Some (i, t')"
  shows "map_of t' s = Some i" "map_of t s' = Some j \<Longrightarrow> map_of t' s' = Some j"
  using assms by (cases rule: st_add_cases; simp add: map_add_Some_iff)+

interpretation strings: id_table st_add st_string st_wf
proof unfold_locales
  fix t :: string_table and s i t' j s'
  assume wf: "st_wf t" and a: "st_add s t = Some (i, t')"
  note wf' = st_add_wf [OF wf a]
  show "st_wf t'" by (rule wf')
  show "st_string t' i = Some s" using st_add_map_of(1) [OF a] by (simp add: st_string_iff [OF wf'])
  show "st_string t j = Some s' \<Longrightarrow> st_string t' j = Some s'"
    using st_add_map_of(2) [OF a] by (simp add: st_string_iff [OF wf] st_string_iff [OF wf'])
next
  fix t :: string_table and i s j
  assume "st_wf t" "st_string t i = Some s" "st_string t j = Some s"
  then show "i = j" by (simp add: st_string_iff)
qed

subsection \<open>The table in a profile\<close>

lemma fill_table_spec:
  assumes "distinct (List.map snd t)" "\<forall>i\<in>snd ` set t. i < length v"
  shows "\<exists>v'. fill_table t v = Some v' \<and> length v' = length v \<and>
    (\<forall>i<length v. v' ! i = (case st_string t i of Some s \<Rightarrow> s | None \<Rightarrow> v ! i))"
  using assms
proof (induction t arbitrary: v)
  case Nil
  then show ?case by (simp add: st_string_def)
next
  case (Cons x t)
  obtain s j where x: "x = (s, j)" by (cases x)
  have j: "j < length v" using Cons.prems(2) by (simp add: x)
  have "\<exists>v'. fill_table t (v[j := s]) = Some v' \<and> length v' = length (v[j := s]) \<and>
      (\<forall>i<length (v[j := s]). v' ! i = (case st_string t i of Some s \<Rightarrow> s | None \<Rightarrow> v[j := s] ! i))"
    using Cons.prems by (intro Cons.IH) (auto simp: x)
  moreover have "st_string t j = None"
    using Cons.prems(1) by (force simp: st_string_def x map_of_eq_None_iff)
  moreover have "st_string (x # t) i = (if i = j then Some s else st_string t i)" for i
    by (auto simp: st_string_def x)
  ultimately show ?case
    using j by (fastforce simp: x nth_list_update split: option.splits)
qed

lemma pprof_table_spec:
  assumes "st_wf t"
  obtains v where "into_pprof_table t = Some v" "length v = length t"
    "\<And>s i. map_of t s = Some i \<Longrightarrow> v ! i = s" "v ! 0 = ''''" "\<And>dst. clone_pprof_table t dst = Some v"
proof -
  have "distinct (List.map snd t)" "\<forall>i\<in>snd ` set t. i < length (replicate (length t) '''')"
    using assms by (simp_all add: st_wf_def)
  from fill_table_spec [OF this] obtain v where v: "into_pprof_table t = Some v"
    "length v = length t"
    "\<forall>i<length t. v ! i = (case st_string t i of Some s \<Rightarrow> s | None \<Rightarrow> replicate (length t) '''' ! i)"
    unfolding into_pprof_table_def by auto
  have nth: "v ! i = s" if "map_of t s = Some i" for s i
    using v(3) st_index_lt [OF assms that] that by (simp add: st_string_iff [OF assms, symmetric])
  show thesis
    by (rule that [OF v(1,2) nth])
       (use assms nth in \<open>auto simp: st_wf_def clone_pprof_table_def into_pprof_table_def [symmetric] v(1)\<close>)
qed

text \<open>Room: an addition succeeds while the table has room, and grows it by at most one.\<close>

lemma st_add_total:
  assumes "length t < u32_max"
  shows "\<exists>i t'. st_add s t = Some (i, t') \<and> length t' \<le> Suc (length t)"
  using assms length_update_fresh [of s t]
  by (cases "map_of t s") (auto simp: st_add_def string_id_new_def map_of_eq_None_keys [symmetric])

lemma st_add_length: "st_add s t = Some (i, t') \<Longrightarrow> length t \<le> length t' \<and> length t' \<le> Suc (length t)"
  by (erule st_add_cases) simp_all

subsection \<open>The process-wide table\<close>

text \<open>
  \<open>std::str::from_utf8\<close> accepts exactly the well-formed byte sequences of the Unicode standard
  (table 3-7): no overlong form, no surrogate, nothing above \<open>U+10FFFF\<close>.
\<close>

definition byte_in :: "nat \<Rightarrow> nat \<Rightarrow> char \<Rightarrow> bool" where
  "byte_in lo hi c \<longleftrightarrow> lo \<le> of_char c \<and> (of_char c :: nat) \<le> hi"

definition utf8_tail :: "char \<Rightarrow> (nat \<times> nat) list" where
  "utf8_tail c =
     (if byte_in 0xC2 0xDF c then [(0x80, 0xBF)]
      else if byte_in 0xE0 0xE0 c then [(0xA0, 0xBF), (0x80, 0xBF)]
      else if byte_in 0xED 0xED c then [(0x80, 0x9F), (0x80, 0xBF)]
      else if byte_in 0xE1 0xEF c then [(0x80, 0xBF), (0x80, 0xBF)]
      else if byte_in 0xF0 0xF0 c then [(0x90, 0xBF), (0x80, 0xBF), (0x80, 0xBF)]
      else if byte_in 0xF1 0xF3 c then [(0x80, 0xBF), (0x80, 0xBF), (0x80, 0xBF)]
      else if byte_in 0xF4 0xF4 c then [(0x80, 0x8F), (0x80, 0xBF), (0x80, 0xBF)]
      else [])"

text \<open>The ranges still expected for the character being read, then the bytes.\<close>

fun utf8_from :: "(nat \<times> nat) list \<Rightarrow> string \<Rightarrow> bool" where
  "utf8_from [] [] = True"
| "utf8_from [] (c # cs) =
     (if byte_in 0 0x7F c then utf8_from [] cs
      else utf8_tail c \<noteq> [] \<and> utf8_from (utf8_tail c) cs)"
| "utf8_from ((lo, hi) # rs) (c # cs) = (byte_in lo hi c \<and> utf8_from rs cs)"
| "utf8_from (_ # _) [] = False"

definition utf8_valid :: "string \<Rightarrow> bool" where "utf8_valid bytes = utf8_from [] bytes"

record interner =
  interned :: string_table
  table_poisoned :: bool

text \<open>\<open>FFIStringView\<close>: \<open>None\<close> is a null pointer. The result is \<open>FFIInternedString\<close>'s index.\<close>

definition empty_ffi_string :: nat where "empty_ffi_string = 0"

definition intern_text :: "string \<Rightarrow> interner \<Rightarrow> (nat \<times> interner) option" where
  "intern_text s w =
     (if table_poisoned w then Some (empty_ffi_string, w)
      else do { (i, t) \<leftarrow> st_add s (interned w); Some (i, w\<lparr>interned := t\<rparr>) })"

definition intern_utf8 :: "string option \<Rightarrow> interner \<Rightarrow> (nat \<times> interner) option" where
  "intern_utf8 view w =
     (case view of
        None \<Rightarrow> Some (empty_ffi_string, w)
      | Some bytes \<Rightarrow>
          if bytes = [] then Some (empty_ffi_string, w)
          else intern_text (if utf8_valid bytes then bytes else ''<non-utf8>'') w)"

definition intern_ascii :: "string option \<Rightarrow> interner \<Rightarrow> (nat \<times> interner) option" where
  "intern_ascii view w =
     (case view of
        None \<Rightarrow> Some (empty_ffi_string, w)
      | Some bytes \<Rightarrow> if bytes = [] then Some (empty_ffi_string, w) else intern_text bytes w)"

definition interner_clear :: "interner \<Rightarrow> interner option" where
  "interner_clear w = do { t \<leftarrow> st_new; Some (w\<lparr>interned := t\<rparr>) }"

definition interner_postfork :: "interner \<Rightarrow> interner option" where
  "interner_postfork w = do { t \<leftarrow> st_new; Some \<lparr>interned = t, table_poisoned = False\<rparr> }"

text \<open>The text a view is interned as.\<close>

definition view_text :: "string option \<Rightarrow> string" where
  "view_text view =
     (case view of None \<Rightarrow> [] | Some bytes \<Rightarrow>
        if utf8_valid bytes then bytes else ''<non-utf8>'')"

lemma utf8_ascii: "\<forall>c\<in>set bytes. byte_in 0 0x7F c \<Longrightarrow> utf8_valid bytes"
  unfolding utf8_valid_def by (induction bytes) simp_all

lemma intern_utf8_spec:
  assumes "st_wf (interned w)" "\<not> table_poisoned w" "intern_utf8 view w = Some (i, w')"
  shows "st_wf (interned w') \<and> \<not> table_poisoned w' \<and>
    st_string (interned w') i = Some (view_text view) \<and>
    (\<forall>j s. st_string (interned w) j = Some s \<longrightarrow> st_string (interned w') j = Some s)"
proof (cases "view = None \<or> view = Some []")
  case True
  then have "i = 0" "w' = w" "view_text view = []"
    using assms(3) by (auto simp: intern_utf8_def empty_ffi_string_def view_text_def utf8_valid_def)
  then show ?thesis using assms(1,2) by (simp add: st_string_iff) (simp add: st_wf_def)
next
  case False
  then obtain bytes where b: "view = Some bytes" "bytes \<noteq> []" by (cases view) auto
  then have "intern_text (view_text view) w = Some (i, w')"
    using assms(3) unfolding intern_utf8_def view_text_def option.case by simp
  then obtain t' where "st_add (view_text view) (interned w) = Some (i, t')" "w' = w\<lparr>interned := t'\<rparr>"
    using assms(2) unfolding intern_text_def by (auto split: Option.bind_splits)
  note T = this
  show ?thesis
    using strings.intern_wf [OF assms(1) T(1)] strings.intern_names [OF assms(1) T(1)]
      strings.intern_keeps [OF assms(1) T(1)] assms(2) T(2)
    by (cases w) simp
qed

subsection \<open>Properties\<close>

text \<open>
  C30: Interning strings one after another in a new table gives 32-bit indices such that the
  table written into the profile has each string at its index, the empty string at index 0, and
  two of the strings share an index exactly when they are equal.
\<close>

theorem string_table_roundtrip:
  assumes "st_new = Some t" and "intern_all st_add ks t = Some (is, t')"
  shows "\<exists>v. into_pprof_table t' = Some v \<and> List.map (\<lambda>i. v ! i) is = ks \<and> v ! 0 = '''' \<and>
    length v = length t' \<and> list_all (\<lambda>i. i < length v) is \<and> length is = length ks \<and>
    (\<forall>a<length ks. \<forall>b<length ks. is ! a = is ! b \<longleftrightarrow> ks ! a = ks ! b)"
proof -
  have S: "st_wf t'" "List.map (st_string t') is = List.map Some ks"
    using strings.intern_all_spec [OF st_new_wf [OF assms(1)] assms(2)] by simp_all
  have len: "length is = length ks" using S(2) by (metis length_map)
  have nth: "map_of t' (ks ! a) = Some (is ! a)" if "a < length ks" for a
    using S that len st_string_iff [OF S(1)] by (metis nth_map)
  obtain v where v: "into_pprof_table t' = Some v" "length v = length t'"
    "\<And>s i. map_of t' s = Some i \<Longrightarrow> v ! i = s" "v ! 0 = ''''"
    using pprof_table_spec [OF S(1)] by metis
  have "List.map (\<lambda>i. v ! i) is = ks"
    using len nth v(3) by (auto simp: list_eq_iff_nth_eq)
  moreover have "list_all (\<lambda>i. i < length v) is"
    using len nth v(2) st_index_lt [OF S(1)] by (auto simp: list_all_length)
  moreover have "is ! a = is ! b \<longleftrightarrow> ks ! a = ks ! b" if "a < length ks" "b < length ks" for a b
    using nth [OF that(1)] nth [OF that(2)] v(3) by (metis option.inject)
  ultimately show ?thesis using v len by blast
qed

text \<open>
  An identifier the native interface hands out names the text it was given (the placeholder
  when the bytes are not UTF-8, the empty string for a null or empty view), and no later
  interning changes what an identifier names.
\<close>

theorem interner_stable:
  assumes "st_wf (interned w)" and "\<not> table_poisoned w"
    and "intern_utf8 view w = Some (i, w1)" and "intern_utf8 view' w1 = Some (j, w2)"
  shows "st_wf (interned w2) \<and> st_string (interned w2) i = Some (view_text view) \<and>
    st_string (interned w2) j = Some (view_text view') \<and>
    (i = j \<longleftrightarrow> view_text view = view_text view')"
proof -
  have A: "st_wf (interned w1)" "\<not> table_poisoned w1"
    "st_string (interned w1) i = Some (view_text view)"
    using intern_utf8_spec [OF assms(1-3)] by simp_all
  have B: "st_wf (interned w2)" "st_string (interned w2) i = Some (view_text view)"
    "st_string (interned w2) j = Some (view_text view')"
    using intern_utf8_spec [OF A(1,2) assms(4)] A(3) by simp_all
  then show ?thesis using strings.names_unique [OF B(1)] by auto
qed

subsection \<open>Witnesses\<close>

theorem string_table_roundtrip_witness:
  "\<exists>v. into_pprof_table [('''', 0), (''b'', 1), (''a'', 2)] = Some v \<and>
     List.map (\<lambda>i. v ! i) [1, 2, 1] = [''b'', ''a'', ''b''] \<and> v ! 0 = ''''"
proof -
  have "intern_all st_add [''b'', ''a'', ''b''] [('''', 0)] =
      Some ([1, 2, 1], [('''', 0), (''b'', 1), (''a'', 2)])"
    by (simp add: st_add_def string_id_new_def u32_max_eq)
  note T = string_table_roundtrip [OF st_new_eq this]
  from T obtain v where "into_pprof_table [('''', 0), (''b'', 1), (''a'', 2)] = Some v"
    "List.map (\<lambda>i. v ! i) [1, 2, 1] = [''b'', ''a'', ''b'']" "v ! 0 = ''''" by (elim exE conjE)
  then show ?thesis by (intro exI [of _ v] conjI)
qed

theorem interner_stable_witness:
  "\<exists>i j w2. intern_utf8 (Some ''a'') \<lparr>interned = [('''', 0)], table_poisoned = False\<rparr> = Some (i, w2) \<and>
     intern_utf8 None w2 = Some (j, w2) \<and> i \<noteq> j \<and> st_string (interned w2) i = Some ''a''"
proof -
  let ?w = "\<lparr>interned = [('''', 0)], table_poisoned = False\<rparr>"
  let ?w2 = "\<lparr>interned = [('''', 0), (''a'', 1)], table_poisoned = False\<rparr>"
  have u: "utf8_valid ''a''" by (rule utf8_ascii) (simp add: byte_in_def)
  have a: "intern_utf8 (Some ''a'') ?w = Some (1, ?w2)"
    by (simp add: intern_utf8_def intern_text_def u st_add_def string_id_new_def u32_max_eq)
  have b: "intern_utf8 None ?w2 = Some (0, ?w2)"
    by (simp add: intern_utf8_def empty_ffi_string_def)
  have "st_wf (interned ?w)" using st_new_wf [OF st_new_eq] by simp
  from interner_stable [OF this _ a b] show ?thesis using a b u by (auto simp: view_text_def)
qed

end
