(* ===== verification/Errors.thy ===== *)
theory Errors
  imports Prelude
begin

text \<open>
  \<open>rust/src/error.rs\<close>: the errors of the agent. The wrapped error of a library is its text.
\<close>

datatype pyroscope_error =
    AdHoc string
  | Compat string string
  | Reqwest string
  | ParseError string
  | TimeSource
  | Io string
  | AgentNotRunning
  | AgentAlreadyRunning
  | ConcurrentOperation

definition error_new :: "string \<Rightarrow> pyroscope_error" where "error_new msg = AdHoc msg"

definition error_new_with_source :: "string \<Rightarrow> string \<Rightarrow> pyroscope_error" where
  "error_new_with_source msg source = Compat msg source"

definition poison_error :: pyroscope_error where "poison_error = AdHoc ''Poison Error''"

definition send_error :: "string \<Rightarrow> pyroscope_error" where
  "send_error source = Compat ''SendError Error'' source"

text \<open>
  A \<open>Mutex<T>\<close> that is locked with \<open>lock()?\<close>: its content, and whether a panic poisoned it.
\<close>

record 'a mutex =
  mutex_value :: 'a
  mutex_poisoned :: bool

definition mutex_new :: "'a \<Rightarrow> 'a mutex" where
  "mutex_new x = \<lparr>mutex_value = x, mutex_poisoned = False\<rparr>"

definition with_lock :: "('a \<Rightarrow> 'b \<times> 'a) \<Rightarrow> 'a mutex \<Rightarrow> (pyroscope_error + 'b) \<times> 'a mutex" where
  "with_lock f m =
     (if mutex_poisoned m then (Inl poison_error, m)
      else (let (r, x) = f (mutex_value m) in (Inr r, m\<lparr>mutex_value := x\<rparr>)))"

lemma with_lock_poisoned [simp]: "mutex_poisoned (snd (with_lock f m)) = mutex_poisoned m"
  by (simp add: with_lock_def case_prod_beta)

end
