(* ===== verification/Backend_Types.thy ===== *)
theory Backend_Types
  imports Errors
begin

text \<open>
  \<open>rust/src/backend/types.rs\<close>, \<open>backend/backend.rs\<close> and \<open>backend/ruleset.rs\<close>: tags, stack
  traces, the buffer that counts them, its conversion into reports, and the thread tags.

  \<open>Tag\<close> derives \<open>Ord\<close>, which the instance of \<open>linorder\<close> below reproduces; strings are their
  bytes. \<open>DefaultHasher\<close> is a parameter: a function from metadata to \<open>usize\<close> that may have
  collisions. A \<open>pthread_t\<close> is its number.
\<close>

subsection \<open>Tags\<close>

datatype tag = Tag (key: string) (tag_value: string)

instantiation tag :: linorder
begin

definition less_eq_tag :: "tag \<Rightarrow> tag \<Rightarrow> bool" where
  "less_eq_tag s t \<longleftrightarrow> key s < key t \<or> key s = key t \<and> tag_value s \<le> tag_value t"

definition less_tag :: "tag \<Rightarrow> tag \<Rightarrow> bool" where
  "less_tag s t \<longleftrightarrow> key s < key t \<or> key s = key t \<and> tag_value s < tag_value t"

instance
proof
  fix s t u :: tag
  show "s < t \<longleftrightarrow> s \<le> t \<and> \<not> t \<le> s" by (auto simp: less_eq_tag_def less_tag_def)
  show "s \<le> s" by (simp add: less_eq_tag_def)
  show "s \<le> t \<Longrightarrow> t \<le> u \<Longrightarrow> s \<le> u" by (auto simp: less_eq_tag_def)
  show "s \<le> t \<Longrightarrow> t \<le> s \<Longrightarrow> s = t" by (auto simp: less_eq_tag_def intro: tag.expand)
  show "s \<le> t \<or> t \<le> s" by (auto simp: less_eq_tag_def)
qed

end

text \<open>\<open>impl Display for Tag\<close>\<close>

definition tag_display :: "tag \<Rightarrow> string" where
  "tag_display t = key t @ ''='' @ tag_value t"

subsection \<open>Stack traces\<close>

type_synonym thread_id = nat

record backend_config =
  report_thread_id :: bool
  report_thread_name :: bool
  report_pid :: bool

record metadata =
  tags :: "tag list"

definition metadata_default :: metadata where "metadata_default = \<lparr>tags = []\<rparr>"

definition add_tag :: "tag \<Rightarrow> metadata \<Rightarrow> metadata" where
  "add_tag t md = md\<lparr>tags := btree_insert t (tags md)\<rparr>"

record stack_frame =
  name :: string
  filename :: string
  line :: nat

definition stack_frame_default :: stack_frame where
  "stack_frame_default = \<lparr>name = [], filename = [], line = 0\<rparr>"

record stack_trace =
  pid :: "nat option"
  thread_id :: "thread_id option"
  thread_name :: "string option"
  frames :: "stack_frame list"
  metadata :: metadata

definition stack_trace_new ::
    "backend_config \<Rightarrow> nat option \<Rightarrow> thread_id option \<Rightarrow> string option \<Rightarrow> stack_frame list \<Rightarrow>
     stack_trace" where
  "stack_trace_new config p tid tname frs =
     (let md = metadata_default;
          md = (case p of
                  Some p \<Rightarrow> if report_pid config then add_tag (Tag ''pid'' (to_decimal p)) md else md
                | None \<Rightarrow> md);
          md = (case tid of
                  Some t \<Rightarrow> if report_thread_id config
                             then add_tag (Tag ''thread_id'' (to_decimal t)) md else md
                | None \<Rightarrow> md);
          md = (case tname of
                  Some nm \<Rightarrow> if report_thread_name config
                              then add_tag (Tag ''thread_name'' nm) md else md
                | None \<Rightarrow> md)
      in \<lparr>pid = p, thread_id = tid, thread_name = tname, frames = frs, metadata = md\<rparr>)"

subsection \<open>The stack buffer and reports\<close>

type_synonym stack_buffer = "(stack_trace \<times> nat) list"

definition buffer_record :: "stack_trace \<Rightarrow> stack_buffer \<Rightarrow> stack_buffer" where
  "buffer_record st buf = entry_add st 1 buf"

definition buffer_record_with_count :: "stack_trace \<Rightarrow> nat \<Rightarrow> stack_buffer \<Rightarrow> stack_buffer" where
  "buffer_record_with_count st n buf = entry_add st n buf"

definition buffer_clear :: "stack_buffer \<Rightarrow> stack_buffer" where
  "buffer_clear buf = []"

record report =
  report_data :: "(stack_trace \<times> nat) list"
  report_metadata :: metadata

definition report_new :: "(stack_trace \<times> nat) list \<Rightarrow> report" where
  "report_new m = \<lparr>report_data = m, report_metadata = metadata_default\<rparr>"

definition report_with_metadata :: "metadata \<Rightarrow> report \<Rightarrow> report" where
  "report_with_metadata md r = r\<lparr>report_metadata := md\<rparr>"

definition report_record :: "stack_trace \<Rightarrow> report \<Rightarrow> report" where
  "report_record st r = r\<lparr>report_data := entry_add st 1 (report_data r)\<rparr>"

definition report_record_with_count :: "stack_trace \<Rightarrow> nat \<Rightarrow> report \<Rightarrow> report" where
  "report_record_with_count st n r = r\<lparr>report_data := entry_add st n (report_data r)\<rparr>"

type_synonym hasher = "metadata \<Rightarrow> nat"

definition group_step ::
    "hasher \<Rightarrow> stack_trace \<times> nat \<Rightarrow> (nat \<times> report) list \<Rightarrow> (nat \<times> report) list" where
  "group_step hash sc acc =
     (let (st, count) = sc; i = hash (metadata st)
      in case map_of acc i of
           Some r \<Rightarrow> AList.update i (report_record_with_count st count r) acc
         | None \<Rightarrow>
             let r = report_with_metadata (metadata st) (report_new []);
                 r = report_record_with_count st count r
             in AList.update i r acc)"

text \<open>\<open>From<StackBuffer> for Vec<Report>\<close>\<close>

definition buffer_reports :: "hasher \<Rightarrow> stack_buffer \<Rightarrow> report list" where
  "buffer_reports hash buf = List.map snd (fold (group_step hash) buf [])"

datatype report_data = Reports "report list" | RawPprof "nat list"

record report_batch =
  profile_type :: string
  batch_data :: report_data

definition batch_is_empty :: "report_batch \<Rightarrow> bool" where
  "batch_is_empty b =
     (case batch_data b of
        Reports rs \<Rightarrow> list_all (\<lambda>r. report_data r = []) rs
      | RawPprof bytes \<Rightarrow> bytes = [])"

subsection \<open>Thread tags\<close>

text \<open>
  \<open>Arc<Mutex<HashSet<ThreadTag>>>\<close>: the set as a list without duplicates, and whether a panic
  poisoned the lock.
\<close>

record thread_tags =
  rules :: "(thread_id \<times> tag) list"
  poisoned :: bool

definition thread_tags_new :: thread_tags where
  "thread_tags_new = \<lparr>rules = [], poisoned = False\<rparr>"

definition rule_add :: "thread_id \<times> tag \<Rightarrow> thread_tags \<Rightarrow> (pyroscope_error + bool) \<times> thread_tags" where
  "rule_add rule ts =
     (if poisoned ts then (Inl poison_error, ts)
      else (Inr (rule \<notin> set (rules ts)), ts\<lparr>rules := List.insert rule (rules ts)\<rparr>))"

definition rule_remove :: "thread_id \<times> tag \<Rightarrow> thread_tags \<Rightarrow> (pyroscope_error + bool) \<times> thread_tags" where
  "rule_remove rule ts =
     (if poisoned ts then (Inl poison_error, ts)
      else (Inr (rule \<in> set (rules ts)), ts\<lparr>rules := remove1 rule (rules ts)\<rparr>))"

definition add_tag_rules :: "thread_tags \<Rightarrow> stack_trace \<Rightarrow> stack_trace" where
  "add_tag_rules ts st =
     st\<lparr>metadata :=
        (if poisoned ts then metadata st
         else fold (\<lambda>(tid, t) md. if thread_id st = Some tid then add_tag t md else md)
                (rules ts) (metadata st))\<rparr>"

subsection \<open>Metadata\<close>

definition metadata_wf :: "metadata \<Rightarrow> bool" where "metadata_wf md \<longleftrightarrow> btree_wf (tags md)"

lemma metadata_wf_simps [simp, inv_intros]:
  "metadata_wf metadata_default" "metadata_wf md \<Longrightarrow> metadata_wf (add_tag t md)"
  by (simp_all add: metadata_wf_def metadata_default_def add_tag_def)

lemma set_tags_simps [simp]:
  "set (tags metadata_default) = {}" "set (tags (add_tag t md)) = insert t (set (tags md))"
  by (simp_all add: metadata_default_def add_tag_def)

lemma metadata_eqI:
  fixes a b :: metadata
  assumes "metadata_wf a" "metadata_wf b" "set (tags a) = set (tags b)"
  shows "a = b"
  using btree_eqI [of "tags a" "tags b"] assms by (simp add: metadata_wf_def)

text \<open>The tags a trace should carry.\<close>

definition expected_tags ::
    "backend_config \<Rightarrow> nat option \<Rightarrow> thread_id option \<Rightarrow> string option \<Rightarrow> tag set" where
  "expected_tags config p tid tname =
     {Tag ''pid'' (to_decimal n) | n. report_pid config \<and> p = Some n} \<union>
     {Tag ''thread_id'' (to_decimal n) | n. report_thread_id config \<and> tid = Some n} \<union>
     {Tag ''thread_name'' s | s. report_thread_name config \<and> tname = Some s}"

lemma stack_trace_new_tags:
  "metadata_wf (metadata (stack_trace_new config p tid tname frs))"
  "set (tags (metadata (stack_trace_new config p tid tname frs))) = expected_tags config p tid tname"
  "frames (stack_trace_new config p tid tname frs) = frs"
  "thread_id (stack_trace_new config p tid tname frs) = tid"
  by (auto simp: stack_trace_new_def expected_tags_def Let_def split: option.splits)

subsection \<open>Grouping keeps every sample\<close>

definition bucket_count :: "hasher \<Rightarrow> (nat \<times> report) list \<Rightarrow> stack_trace \<Rightarrow> nat" where
  "bucket_count hash acc st =
     (case map_of acc (hash (metadata st)) of None \<Rightarrow> 0 | Some r \<Rightarrow> count_of (report_data r) st)"

definition report_ok :: "hasher \<Rightarrow> nat \<Rightarrow> report \<Rightarrow> bool" where
  "report_ok hash i r \<longleftrightarrow> map_wf (report_data r) \<and> report_data r \<noteq> [] \<and>
     hash (report_metadata r) = i \<and> (\<forall>st\<in>map_keys (report_data r). hash (metadata st) = i)"

definition groups_ok :: "hasher \<Rightarrow> (nat \<times> report) list \<Rightarrow> stack_buffer \<Rightarrow> bool" where
  "groups_ok hash acc buf \<longleftrightarrow>
     map_wf acc \<and> (\<forall>i r. map_of acc i = Some r \<longrightarrow> report_ok hash i r) \<and>
     (\<forall>st. bucket_count hash acc st = count_of buf st)"

lemma count_of_fresh: "st \<notin> map_keys m \<Longrightarrow> count_of m st = 0"
  by (simp add: count_of_def map_of_eq_None_keys flip: map_of_eq_None_keys)

lemma count_of_append_fresh:
  "st \<notin> map_keys m \<Longrightarrow>
   count_of (m @ [(st, c)]) st' = (if st' = st then c else count_of m st')"
  by (auto simp: count_of_def map_add_def map_of_append map_of_eq_None_keys [symmetric]
      split: option.splits)

lemma entry_add_ne [simp]: "entry_add k n m \<noteq> []"
  by (metis entry_add_def insert_not_empty map_keys_def map_keys_entry_add image_empty
      empty_set)

lemma report_ok_entry:
  assumes "report_ok hash i r" "hash (metadata st) = i"
  shows "report_ok hash i (report_record_with_count st c r)"
  using assms by (auto simp: report_ok_def report_record_with_count_def map_simps)

lemma report_ok_first:
  "report_ok hash (hash (metadata st))
     (report_record_with_count st c (report_with_metadata (metadata st) (report_new [])))"
  by (auto simp: report_ok_def report_record_with_count_def report_with_metadata_def
      report_new_def map_simps) (simp add: map_keys_def)

lemma group_step_ok:
  assumes G: "groups_ok hash acc buf" and f: "st \<notin> map_keys buf" and c: "c < 2 ^ 64"
  shows "groups_ok hash (group_step hash (st, c) acc) (buf @ [(st, c)])"
proof -
  let ?i = "hash (metadata st)"
  have zero: "bucket_count hash acc st = 0"
    using G f by (simp add: groups_ok_def count_of_fresh)
  define r where "r = report_record_with_count st c
    (case map_of acc ?i of Some r \<Rightarrow> r | None \<Rightarrow> report_with_metadata (metadata st) (report_new []))"
  have step: "group_step hash (st, c) acc = AList.update ?i r acc"
    by (simp add: group_step_def r_def Let_def split: option.splits)
  have "report_ok hash ?i r"
    using G report_ok_entry report_ok_first
    unfolding groups_ok_def r_def by (auto split: option.splits)
  moreover have "bucket_count hash (AList.update ?i r acc) st' = count_of (buf @ [(st, c)]) st'" for st'
  proof -
    have "bucket_count hash (AList.update ?i r acc) st' =
        (if st' = st then c else bucket_count hash acc st')"
      using zero c
      by (auto simp: bucket_count_def r_def map_simps report_record_with_count_def
          report_with_metadata_def report_new_def usize_add_def split: option.splits)
    then show ?thesis using G f by (simp add: groups_ok_def count_of_append_fresh)
  qed
  ultimately show ?thesis
    using G by (simp add: groups_ok_def step map_simps)
qed

lemma groups_ok_fold:
  assumes "map_wf buf" "\<forall>c\<in>snd ` set buf. c < 2 ^ 64"
  shows "groups_ok hash (fold (group_step hash) buf []) buf"
  using assms
proof (induction buf rule: rev_induct)
  case Nil
  then show ?case by (simp add: groups_ok_def bucket_count_def)
next
  case (snoc x buf)
  obtain st c where x: "x = (st, c)" by (cases x)
  have "st \<notin> map_keys buf" "map_wf buf" "c < 2 ^ 64"
    using snoc.prems by (auto simp: x map_wf_def map_keys_def)
  then show ?case using group_step_ok [of hash _ buf st c] snoc by (simp add: x)
qed

text \<open>A sum over buckets that is zero off one bucket.\<close>

lemma sum_list_one_bucket:
  fixes g :: "'b \<Rightarrow> nat"
  assumes "map_wf acc" "\<And>j r. map_of acc j = Some r \<Longrightarrow> j \<noteq> i \<Longrightarrow> g r = 0"
  shows "(\<Sum>r\<leftarrow>List.map snd acc. g r) = (case map_of acc i of None \<Rightarrow> 0 | Some r \<Rightarrow> g r)"
  using assms
proof (induction acc)
  case (Cons x acc)
  obtain j r where x: "x = (j, r)" by (cases x)
  have wf: "map_wf acc" "map_of acc j = None"
    using Cons.prems(1) by (auto simp: x map_wf_def map_of_eq_None_iff)
  have "(\<Sum>r\<leftarrow>List.map snd acc. g r) = (case map_of acc i of None \<Rightarrow> 0 | Some r \<Rightarrow> g r)"
  proof (rule Cons.IH [OF wf(1)])
    fix k s assume "map_of acc k = Some s" "k \<noteq> i"
    then show "g s = 0" using Cons.prems(2) [of k s] wf(2) by (cases "k = j") (auto simp: x)
  qed
  then show ?case using Cons.prems(2) [of j r] wf(2) by (cases "j = i") (auto simp: x)
qed simp

lemma groups_total:
  assumes "groups_ok hash acc buf"
  shows "(\<Sum>r\<leftarrow>List.map snd acc. count_of (report_data r) st) = count_of buf st"
proof -
  have "(\<Sum>r\<leftarrow>List.map snd acc. count_of (report_data r) st) = bucket_count hash acc st"
    unfolding bucket_count_def
  proof (rule sum_list_one_bucket)
    show "map_wf acc" using assms by (simp add: groups_ok_def)
    fix j r assume "map_of acc j = Some r" "j \<noteq> hash (metadata st)"
    then have "report_ok hash j r" "j \<noteq> hash (metadata st)" using assms by (auto simp: groups_ok_def)
    then have "st \<notin> map_keys (report_data r)" by (auto simp: report_ok_def)
    then show "count_of (report_data r) st = 0" by (rule count_of_fresh)
  qed
  then show ?thesis using assms by (simp add: groups_ok_def)
qed

subsection \<open>Thread tags as a set\<close>

definition rules_wf :: "thread_tags \<Rightarrow> bool" where "rules_wf ts \<longleftrightarrow> distinct (rules ts)"

lemma set_rules_simps [simp]:
  "\<not> poisoned ts \<Longrightarrow> set (rules (snd (rule_add r ts))) = insert r (set (rules ts))"
  "\<not> poisoned ts \<Longrightarrow> rules_wf ts \<Longrightarrow> set (rules (snd (rule_remove r ts))) = set (rules ts) - {r}"
  "rules_wf ts \<Longrightarrow> rules_wf (snd (rule_add r ts))"
  "rules_wf ts \<Longrightarrow> rules_wf (snd (rule_remove r ts))"
  by (auto simp: rule_add_def rule_remove_def rules_wf_def)

lemma fold_add_tags:
  fixes md :: metadata
  assumes "metadata_wf md"
  shows "metadata_wf (fold (\<lambda>(tid, t) md. if P tid then add_tag t md else md) rs md) \<and>
    set (tags (fold (\<lambda>(tid, t) md. if P tid then add_tag t md else md) rs md)) =
      set (tags md) \<union> {t. \<exists>tid. (tid, t) \<in> set rs \<and> P tid}"
  using assms
proof (induction rs arbitrary: md)
  case (Cons r rs)
  obtain tid t where r: "r = (tid, t)" by (cases r)
  show ?case
    using Cons.IH [of md] Cons.IH [of "add_tag t md"] Cons.prems by (cases "P tid") (auto simp: r)
qed simp

lemma add_tag_rules_tags:
  assumes "metadata_wf (metadata st)" "\<not> poisoned ts"
  shows "metadata_wf (metadata (add_tag_rules ts st))"
    "set (tags (metadata (add_tag_rules ts st))) =
       set (tags (metadata st)) \<union> {t. \<exists>tid. (tid, t) \<in> set (rules ts) \<and> thread_id st = Some tid}"
  using fold_add_tags [OF assms(1), of "\<lambda>tid. thread_id st = Some tid" "rules ts"] assms(2)
  by (simp_all add: add_tag_rules_def)

text \<open>Sequences of tag operations, and the set they leave.\<close>

datatype tag_op = AddRule "thread_id \<times> tag" | RemoveRule "thread_id \<times> tag"

fun tag_op_run :: "tag_op \<Rightarrow> thread_tags \<Rightarrow> thread_tags" where
  "tag_op_run (AddRule r) ts = snd (rule_add r ts)"
| "tag_op_run (RemoveRule r) ts = snd (rule_remove r ts)"

fun last_op_adds :: "thread_id \<times> tag \<Rightarrow> tag_op list \<Rightarrow> bool" where
  "last_op_adds r [] = False"
| "last_op_adds r (AddRule r' # older) = (r = r' \<or> last_op_adds r older)"
| "last_op_adds r (RemoveRule r' # older) = (r \<noteq> r' \<and> last_op_adds r older)"

lemma tag_ops_run:
  defines "run \<equiv> \<lambda>ops. fold tag_op_run ops thread_tags_new"
  shows "rules_wf (run ops) \<and> \<not> poisoned (run ops) \<and>
    (r \<in> set (rules (run ops)) \<longleftrightarrow> last_op_adds r (rev ops))"
  unfolding run_def
proof (induction ops rule: rev_induct)
  case Nil
  then show ?case by (simp add: thread_tags_new_def rules_wf_def)
next
  case (snoc op ops)
  moreover have "poisoned (snd (rule_add q ts)) = poisoned ts"
    "poisoned (snd (rule_remove q ts)) = poisoned ts" for q ts
    by (simp_all add: rule_add_def rule_remove_def)
  ultimately show ?case by (cases op) auto
qed

lemma expected_tags_eq_iff:
  "expected_tags c p tid tname = expected_tags c p' tid' tname' \<longleftrightarrow>
     (report_pid c \<longrightarrow> p = p') \<and> (report_thread_id c \<longrightarrow> tid = tid') \<and>
     (report_thread_name c \<longrightarrow> tname = tname')"
proof -
  have mem: "Tag ''pid'' s \<in> expected_tags c q u v \<longleftrightarrow>
      (\<exists>n. s = to_decimal n \<and> report_pid c \<and> q = Some n)"
    "Tag ''thread_id'' s \<in> expected_tags c q u v \<longleftrightarrow>
      (\<exists>n. s = to_decimal n \<and> report_thread_id c \<and> u = Some n)"
    "Tag ''thread_name'' s \<in> expected_tags c q u v \<longleftrightarrow> report_thread_name c \<and> v = Some s"
    for s q u v
    by (auto simp: expected_tags_def)
  have opt: "(\<forall>n :: nat. (\<exists>m. to_decimal n = to_decimal m \<and> b \<and> q = Some m) \<longleftrightarrow>
      (\<exists>m. to_decimal n = to_decimal m \<and> b \<and> q' = Some m)) \<Longrightarrow> b \<Longrightarrow> q = q'" for b q q'
    by (cases q; cases q') (auto simp: to_decimal_inject)
  show ?thesis
  proof
    assume eq: "expected_tags c p tid tname = expected_tags c p' tid' tname'"
    have "report_pid c \<Longrightarrow> p = p'"
      by (rule opt [of "report_pid c"]) (use mem(1) eq in blast)+
    moreover have "report_thread_id c \<Longrightarrow> tid = tid'"
      by (rule opt [of "report_thread_id c"]) (use mem(2) eq in blast)+
    moreover have "report_thread_name c \<Longrightarrow> tname = tname'"
      using mem(3) [of _ p tid tname] mem(3) [of _ p' tid' tname'] unfolding eq
      by (cases tname; cases tname') auto
    ultimately show "(report_pid c \<longrightarrow> p = p') \<and> (report_thread_id c \<longrightarrow> tid = tid') \<and>
        (report_thread_name c \<longrightarrow> tname = tname')" by blast
  qed (auto simp: expected_tags_def)
qed

subsection \<open>Properties\<close>

text \<open>
  C27: The metadata of a new stack trace holds exactly the enabled identity tags, and two traces
  get the same metadata (so share a report) exactly when they agree on every enabled field.
\<close>

theorem stack_trace_identity:
  "set (tags (metadata (stack_trace_new c p tid tname frs))) = expected_tags c p tid tname \<and>
   (metadata (stack_trace_new c p tid tname frs) = metadata (stack_trace_new c p' tid' tname' frs') \<longleftrightarrow>
      (report_pid c \<longrightarrow> p = p') \<and> (report_thread_id c \<longrightarrow> tid = tid') \<and>
      (report_thread_name c \<longrightarrow> tname = tname'))"
  using expected_tags_eq_iff stack_trace_new_tags(1,2) metadata_eqI by metis

lemma buffer_reports_counts:
  assumes "map_wf buf" and "\<forall>c\<in>snd ` set buf. c < 2 ^ 64"
  shows "(\<Sum>r\<leftarrow>buffer_reports hash buf. count_of (report_data r) st) = count_of buf st \<and>
    (\<forall>r\<in>set (buffer_reports hash buf). report_data r \<noteq> [] \<and>
       (\<forall>st\<in>map_keys (report_data r). hash (metadata st) = hash (report_metadata r)))"
proof -
  note G = groups_ok_fold [OF assms, of hash]
  then have wf: "map_wf (fold (group_step hash) buf [])" by (simp add: groups_ok_def)
  have "report_ok hash i r" if "(i, r) \<in> set (fold (group_step hash) buf [])" for i r
    using G that map_of_eq_Some_mem [OF wf] unfolding groups_ok_def by blast
  then have "report_data r \<noteq> [] \<and>
      (\<forall>st\<in>map_keys (report_data r). hash (metadata st) = hash (report_metadata r))"
    if "r \<in> set (buffer_reports hash buf)" for r
    using that by (fastforce simp: buffer_reports_def report_ok_def)
  then show ?thesis using groups_total [OF G, of st] by (simp add: buffer_reports_def)
qed

text \<open>
  C28: Turning the buffer into reports neither loses nor adds a sample, whatever collisions the
  metadata hash has: summed over the reports, every stack trace has the count it had in the
  buffer. No report is empty, and a report holds only traces whose metadata hashes as its own
  does, so with a hash that separates them every trace is reported under its own metadata.
\<close>

theorem reports_preserve_counts:
  assumes "map_wf buf" and "\<forall>c\<in>snd ` set buf. c < 2 ^ 64"
  shows "(\<Sum>r\<leftarrow>buffer_reports hash buf. count_of (report_data r) st) = count_of buf st \<and>
    (\<forall>r\<in>set (buffer_reports hash buf). report_data r \<noteq> [] \<and>
       (\<forall>st\<in>map_keys (report_data r). hash (metadata st) = hash (report_metadata r)))"
  by (rule buffer_reports_counts [OF assms])

text \<open>
  C29: After any sequence of adding and removing thread tags, a stack trace of thread \<open>tid\<close> gains
  exactly the tags whose last operation for that thread was an addition, and nothing of another
  thread's.
\<close>

theorem thread_tags_applied:
  assumes "metadata_wf (metadata st)" and "thread_id st = Some tid"
  shows "set (tags (metadata (add_tag_rules (fold tag_op_run ops thread_tags_new) st))) =
    set (tags (metadata st)) \<union> {t. last_op_adds (tid, t) (rev ops)}"
  using add_tag_rules_tags(2) [OF assms(1)] tag_ops_run [of ops] assms(2) by simp

subsection \<open>Witnesses\<close>

theorem stack_trace_identity_witness:
  "metadata (stack_trace_new \<lparr>report_thread_id = False, report_thread_name = False, report_pid = True\<rparr>
       (Some 7) (Some 1) None []) \<noteq>
   metadata (stack_trace_new \<lparr>report_thread_id = False, report_thread_name = False, report_pid = True\<rparr>
       (Some 70) (Some 1) None [])"
  using stack_trace_identity [of "\<lparr>report_thread_id = False, report_thread_name = False, report_pid = True\<rparr>"
      "Some 7" "Some 1" None "[]" "Some 70" "Some 1" None "[]"]
  by simp

definition example_trace :: stack_trace where
  "example_trace = \<lparr>pid = None, thread_id = Some 1, thread_name = None, frames = [],
     metadata = metadata_default\<rparr>"

theorem reports_preserve_counts_witness:
  "(\<Sum>r\<leftarrow>buffer_reports (\<lambda>_. 0)
      [(example_trace, 3), (example_trace\<lparr>metadata := add_tag (Tag ''a'' ''b'') metadata_default\<rparr>, 2)].
      count_of (report_data r) example_trace) = 3"
proof -
  let ?m = "add_tag (Tag ''a'' ''b'') metadata_default"
  have ne: "?m \<noteq> metadata_default" by (simp add: add_tag_def metadata_default_def btree_insert_def
      insort_insert_key_def)
  then have "map_wf [(example_trace, 3 :: nat), (example_trace\<lparr>metadata := ?m\<rparr>, 2)]"
    by (simp add: map_wf_def example_trace_def)
  from reports_preserve_counts [OF this, where hash = "\<lambda>_. 0" and st = example_trace] show ?thesis
    by (simp add: count_of_def)
qed

theorem thread_tags_applied_witness:
  "set (tags (metadata (add_tag_rules (fold tag_op_run
      [AddRule (1, Tag ''k'' ''v''), AddRule (2, Tag ''x'' ''y''), AddRule (1, Tag ''k'' ''w''),
       RemoveRule (1, Tag ''k'' ''v'')] thread_tags_new) example_trace))) = {Tag ''k'' ''w''}"
proof -
  have "metadata_wf (metadata example_trace)" "thread_id example_trace = Some 1"
    by (simp_all add: example_trace_def)
  note T = thread_tags_applied [OF this, of "[AddRule (1, Tag ''k'' ''v''),
      AddRule (2, Tag ''x'' ''y''), AddRule (1, Tag ''k'' ''w''), RemoveRule (1, Tag ''k'' ''v'')]"]
  show ?thesis unfolding T by (auto simp: example_trace_def)
qed

end
