(* ===== verification/Pprof.thy ===== *)
theory Pprof
  imports String_Table Backend_Types
begin

text \<open>
  The profile messages of \<open>rust/src/encode/gen/google.rs\<close> and the builder of
  \<open>rust/src/encode/pprof.rs\<close>: profile kinds, the function and location tables, samples
  accumulated from native code, samples built from stack traces, and \<open>encode\<close>.

  A field of type \<open>u64\<close>, \<open>u32\<close> or \<open>usize\<close> is a \<open>nat\<close>, an \<open>i64\<close> an \<open>int\<close>; casts that may change
  a value are written out. \<open>functions.len() as u64 + 1\<close> cannot wrap, as no collection has
  \<open>2^64 - 1\<close> entries, and is written as \<open>Suc\<close>. \<open>HashMap\<close> iteration follows the list order.

  Decoding a profile the way a reader of the format does, \<open>pprof_samples\<close>, is the specification:
  the builder's tables provide the interface \<open>id_table\<close>, and encoding then decoding gives back
  the stacks, values and labels that went in.
\<close>

subsection \<open>Messages\<close>

record value_type =
  vt_type :: int
  vt_unit :: int

record label =
  label_key :: int
  label_str :: int
  label_num :: int
  label_num_unit :: int

record sample =
  location_id :: "nat list"
  sample_value :: "int list"
  sample_label :: "label list"

record mapping =
  mapping_id :: nat
  memory_start :: nat
  memory_limit :: nat
  file_offset :: nat
  mapping_filename :: int
  build_id :: int
  has_functions :: bool
  has_filenames :: bool
  has_line_numbers :: bool
  has_inline_frames :: bool

record loc_line =
  ll_function_id :: nat
  ll_line :: int

record location =
  loc_id :: nat
  loc_mapping_id :: nat
  address :: nat
  loc_line :: "loc_line list"
  is_folded :: bool

record func =
  func_id :: nat
  func_name :: int
  system_name :: int
  func_filename :: int
  start_line :: int

record profile =
  p_sample_type :: "value_type list"
  p_sample :: "sample list"
  p_mapping :: "mapping list"
  p_location :: "location list"
  p_function :: "func list"
  p_string_table :: "string list"
  drop_frames :: int
  keep_frames :: int
  time_nanos :: int
  duration_nanos :: int
  period_type :: "value_type option"
  period :: int
  comment :: "int list"
  default_sample_type :: int

definition profile_default :: profile where
  "profile_default = \<lparr>p_sample_type = [], p_sample = [], p_mapping = [], p_location = [],
     p_function = [], p_string_table = [], drop_frames = 0, keep_frames = 0, time_nanos = 0,
     duration_nanos = 0, period_type = None, period = 0, comment = [], default_sample_type = 0\<rparr>"

record ffi_frame =
  function_name :: nat
  file_name :: nat
  ffi_line :: int

record ffi_values =
  cpu_time :: int
  wall_time :: int
  alloc_space :: nat
  alloc_count :: nat
  heap_space :: nat
  heap_count :: nat

subsection \<open>Profile kinds\<close>

definition string_pprof :: "nat \<Rightarrow> int" where "string_pprof i = int i"

text \<open>\<open>ValueType { type: strings.add(..).pprof(), unit: strings.add(..).pprof() }\<close>\<close>

definition add_value_type ::
    "string \<Rightarrow> string \<Rightarrow> string_table \<Rightarrow> (value_type \<times> string_table) option" where
  "add_value_type ty un st =
     do { (i, st) \<leftarrow> st_add ty st;
          (j, st) \<leftarrow> st_add un st;
          Some (\<lparr>vt_type = string_pprof i, vt_unit = string_pprof j\<rparr>, st) }"

definition memory_profile_type ::
    "nat \<Rightarrow> profile \<Rightarrow> string_table \<Rightarrow> (profile \<times> string_table) option" where
  "memory_profile_type heap_sample_rate p st =
     do { (a, st) \<leftarrow> add_value_type ''alloc_objects'' ''count'' st;
          (b, st) \<leftarrow> add_value_type ''alloc_space'' ''bytes'' st;
          (c, st) \<leftarrow> add_value_type ''inuse_objects'' ''count'' st;
          (d, st) \<leftarrow> add_value_type ''inuse_space'' ''bytes'' st;
          (e, st) \<leftarrow> add_value_type ''space'' ''bytes'' st;
          Some (p\<lparr>p_sample_type := [a, b, c, d], period := as_i64 (int heap_sample_rate),
                  period_type := Some e\<rparr>, st) }"

definition memory_value_slots :: "ffi_values \<Rightarrow> int list" where
  "memory_value_slots v =
     [as_i64 (int (alloc_count v)), as_i64 (int (alloc_space v)),
      as_i64 (int (heap_count v)), as_i64 (int (heap_space v))]"

definition cpu_wall_profile_type ::
    "int \<Rightarrow> profile \<Rightarrow> string_table \<Rightarrow> (profile \<times> string_table) option" where
  "cpu_wall_profile_type period_ns p st =
     do { (a, st) \<leftarrow> add_value_type ''cpu'' ''nanoseconds'' st;
          (b, st) \<leftarrow> add_value_type ''wall'' ''nanoseconds'' st;
          (c, st) \<leftarrow> add_value_type ''cpu'' ''nanoseconds'' st;
          Some (p\<lparr>p_sample_type := [a, b], period := period_ns, period_type := Some c\<rparr>, st) }"

definition cpu_wall_value_slots :: "ffi_values \<Rightarrow> int list" where
  "cpu_wall_value_slots v = [cpu_time v, wall_time v]"

definition cpu_profile_type ::
    "int \<Rightarrow> profile \<Rightarrow> string_table \<Rightarrow> (profile \<times> string_table) option" where
  "cpu_profile_type period_ns p st =
     do { (a, st) \<leftarrow> add_value_type ''cpu'' ''nanoseconds'' st;
          (b, st) \<leftarrow> add_value_type ''cpu'' ''nanoseconds'' st;
          Some (p\<lparr>p_sample_type := [a], period := period_ns, period_type := Some b\<rparr>, st) }"

definition cpu_value_slots :: "ffi_values \<Rightarrow> int list" where
  "cpu_value_slots v = [cpu_time v]"

text \<open>Division by a zero sample rate panics.\<close>

definition pyspy_profile_type ::
    "nat \<Rightarrow> profile \<Rightarrow> string_table \<Rightarrow> (profile \<times> string_table) option" where
  "pyspy_profile_type sample_rate p st =
     do { (a, st) \<leftarrow> add_value_type ''cpu'' ''nanoseconds'' st;
          q \<leftarrow> (if sample_rate = 0 then None else Some (1000000000 div int sample_rate));
          (b, st) \<leftarrow> add_value_type ''cpu'' ''nanoseconds'' st;
          Some (p\<lparr>p_sample_type := [a], period := q, period_type := Some b\<rparr>, st) }"

subsection \<open>The builder\<close>

type_synonym function_mirror = "nat \<times> nat"  \<comment> \<open>indices of name and file name\<close>
type_synonym location_mirror = "nat \<times> int"  \<comment> \<open>function id and line\<close>

record builder =
  b_profile :: profile
  b_functions :: "(function_mirror \<times> nat) list"
  b_locations :: "(location_mirror \<times> nat) list"
  ffi_samples :: "(nat list \<times> int list) list"
  ffi_locations_scratch :: "nat list"

definition builder_new :: builder where
  "builder_new = \<lparr>b_profile = profile_default, b_functions = [], b_locations = [], ffi_samples = [],
     ffi_locations_scratch = []\<rparr>"

text \<open>Start and duration in nanoseconds, each cut to 64 bits and reinterpreted as signed.\<close>

definition set_time_range :: "nat \<times> nat \<Rightarrow> builder \<Rightarrow> builder" where
  "set_time_range tr b =
     b\<lparr>b_profile := (b_profile b)\<lparr>time_nanos := as_i64 (int (as_u64 (int (fst tr)))),
                               duration_nanos := as_i64 (int (as_u64 (int (snd tr))))\<rparr>\<rparr>"

definition flush_ffi_samples :: "builder \<Rightarrow> builder" where
  "flush_ffi_samples b =
     b\<lparr>b_profile := (b_profile b)\<lparr>p_sample := p_sample (b_profile b) @
          List.map (\<lambda>(ids, v). \<lparr>location_id = ids, sample_value = v, sample_label = []\<rparr>)
            (ffi_samples b)\<rparr>,
       ffi_samples := []\<rparr>"

definition add_function_mirror :: "function_mirror \<Rightarrow> builder \<Rightarrow> (nat \<times> builder) option" where
  "add_function_mirror fm b =
     (case map_of (b_functions b) fm of
        Some v \<Rightarrow> Some (v, b)
      | None \<Rightarrow>
          if length (b_functions b) = length (p_function (b_profile b)) + 1 then None
          else
            let i = Suc (length (b_functions b));
                f = \<lparr>func_id = i, func_name = string_pprof (fst fm), system_name = 0,
                     func_filename = string_pprof (snd fm), start_line = 0\<rparr>
            in Some (i, b\<lparr>b_functions := AList.update fm i (b_functions b),
                          b_profile := (b_profile b)\<lparr>p_function := p_function (b_profile b) @ [f]\<rparr>\<rparr>))"

definition add_location_mirror :: "location_mirror \<Rightarrow> builder \<Rightarrow> (nat \<times> builder) option" where
  "add_location_mirror lm b =
     (case map_of (b_locations b) lm of
        Some v \<Rightarrow> Some (v, b)
      | None \<Rightarrow>
          if length (b_locations b) = length (p_location (b_profile b)) + 1 then None
          else
            let i = Suc (length (b_locations b));
                l = \<lparr>loc_id = i, loc_mapping_id = 0, address = 0,
                     loc_line = [\<lparr>ll_function_id = fst lm, ll_line = snd lm\<rparr>], is_folded = False\<rparr>
            in Some (i, b\<lparr>b_locations := AList.update lm i (b_locations b),
                          b_profile := (b_profile b)\<lparr>p_location := p_location (b_profile b) @ [l]\<rparr>\<rparr>))"

definition builder_reset :: "builder \<Rightarrow> builder" where
  "builder_reset b =
     b\<lparr>b_profile := (b_profile b)\<lparr>p_sample := [], p_function := [], p_location := [],
          p_string_table := [], time_nanos := 0, duration_nanos := 0\<rparr>,
       b_locations := [], b_functions := [], ffi_samples := [], ffi_locations_scratch := []\<rparr>"

definition take_profile_and_reset ::
    "string_table \<Rightarrow> nat \<times> nat \<Rightarrow> builder \<Rightarrow> (profile option \<times> builder) option" where
  "take_profile_and_reset st tr b =
     (let b = flush_ffi_samples b
      in if p_sample (b_profile b) = [] then Some (None, builder_reset b)
         else
           let b = set_time_range tr b in
           do { v \<leftarrow> clone_pprof_table st (p_string_table (b_profile b));
                let p = (b_profile b)\<lparr>p_string_table := v\<rparr>;
                Some (Some p, builder_reset (b\<lparr>b_profile := profile_default\<rparr>)) })"

text \<open>The location of one frame of native code.\<close>

definition add_ffi_frame :: "ffi_frame \<Rightarrow> builder \<Rightarrow> (nat \<times> builder) option" where
  "add_ffi_frame f b =
     do { (fid, b) \<leftarrow> add_function_mirror (function_name f, file_name f) b;
          add_location_mirror (fid, ffi_line f) b }"

definition accumulate :: "int list \<Rightarrow> int list \<Rightarrow> int list" where
  "accumulate acc vs =
     List.map (\<lambda>(a, v). sat_add_i64 a v) (zip acc vs) @ drop (length vs) acc"

definition add_ffi_sample ::
    "(ffi_values \<Rightarrow> int list) \<Rightarrow> ffi_frame list \<Rightarrow> ffi_values \<Rightarrow> builder \<Rightarrow> builder option" where
  "add_ffi_sample value_slots frs values b =
     (let vs = value_slots values in
      do { (ids, b) \<leftarrow> intern_all add_ffi_frame frs b;
           let entry = (case map_of (ffi_samples b) ids of
                          Some acc \<Rightarrow> accumulate acc vs | None \<Rightarrow> vs);
           Some (b\<lparr>ffi_samples := AList.update ids entry (ffi_samples b),
                   ffi_locations_scratch := ids\<rparr>) })"

subsection \<open>Samples from stack traces\<close>

text \<open>The string table and the builder, threaded together.\<close>

type_synonym encoder = "string_table \<times> builder"

definition add_stack_frame :: "stack_frame \<Rightarrow> encoder \<Rightarrow> (nat \<times> encoder) option" where
  "add_stack_frame sf e =
     (let (st, b) = e in
      do { (nm, st) \<leftarrow> st_add (name sf) st;
           (fl, st) \<leftarrow> st_add (filename sf) st;
           (fid, b) \<leftarrow> add_function_mirror (nm, fl) b;
           (lid, b) \<leftarrow> add_location_mirror (fid, int (line sf)) b;
           Some (lid, (st, b)) })"

fun add_labels :: "tag list \<Rightarrow> string_table \<Rightarrow> (label list \<times> string_table) option" where
  "add_labels [] st = Some ([], st)"
| "add_labels (t # ts) st =
     do { (k, st) \<leftarrow> st_add (key t) st;
          (v, st) \<leftarrow> st_add (tag_value t) st;
          (ls, st) \<leftarrow> add_labels ts st;
          Some (\<lparr>label_key = string_pprof k, label_str = string_pprof v, label_num = 0,
                 label_num_unit = 0\<rparr> # ls, st) }"

text \<open>\<open>value as i64 * period\<close> wraps.\<close>

definition sample_total :: "nat \<Rightarrow> int \<Rightarrow> int" where
  "sample_total n per = as_i64 (as_i64 (int n) * per)"

definition add_stacktrace :: "stack_trace \<Rightarrow> nat \<Rightarrow> encoder \<Rightarrow> encoder option" where
  "add_stacktrace st_trace n e =
     do { let v = sample_total n (period (b_profile (snd e)));
          (ids, st, b) \<leftarrow> intern_all add_stack_frame (frames st_trace) e;
          (ls, st) \<leftarrow> add_labels (tags (metadata st_trace)) st;
          let s = \<lparr>location_id = ids, sample_value = [v], sample_label = ls\<rparr>;
          Some (st, b\<lparr>b_profile := (b_profile b)\<lparr>p_sample := p_sample (b_profile b) @ [s]\<rparr>\<rparr>) }"

fun add_stacktraces :: "(stack_trace \<times> nat) list \<Rightarrow> encoder \<Rightarrow> encoder option" where
  "add_stacktraces [] e = Some e"
| "add_stacktraces ((t, n) # ts) e = do { e \<leftarrow> add_stacktrace t n e; add_stacktraces ts e }"

definition encode :: "report list \<Rightarrow> nat \<Rightarrow> nat \<times> nat \<Rightarrow> profile option" where
  "encode reports sample_rate tr =
     do { strings \<leftarrow> st_new;
          let b = set_time_range tr builder_new;
          (p, strings) \<leftarrow> pyspy_profile_type sample_rate (b_profile b) strings;
          (strings, b) \<leftarrow>
            add_stacktraces (concat (List.map report_data reports)) (strings, b\<lparr>b_profile := p\<rparr>);
          v \<leftarrow> into_pprof_table strings;
          Some ((b_profile b)\<lparr>p_string_table := v\<rparr>) }"

subsection \<open>Numbered tables\<close>

text \<open>The builder's maps number their keys from one, in the order of insertion.\<close>

definition num_wf :: "('k \<times> nat) list \<Rightarrow> bool" where
  "num_wf m \<longleftrightarrow> map_wf m \<and> List.map snd m = [1..<Suc (length m)]"

definition num_name :: "('k \<times> nat) list \<Rightarrow> nat \<Rightarrow> 'k option" where
  "num_name m i = map_of (List.map prod.swap m) i"

lemma num_wf_Nil [simp]: "num_wf []"
  by (simp add: num_wf_def)

lemma num_name_mem:
  assumes "num_wf m"
  shows "num_name m i = Some k \<longleftrightarrow> (k, i) \<in> set m"
proof -
  have "distinct (List.map snd m)" using assms by (simp add: num_wf_def)
  then have "distinct (List.map fst (List.map prod.swap m))" by (simp add: comp_def)
  then have "num_name m i = Some k \<longleftrightarrow> (i, k) \<in> set (List.map prod.swap m)"
    unfolding num_name_def by (rule map_of_eq_Some_iff)
  then show ?thesis by force
qed

lemma num_name_iff: "num_wf m \<Longrightarrow> num_name m i = Some k \<longleftrightarrow> map_of m k = Some i"
  by (simp add: num_name_mem) (simp add: num_wf_def map_of_eq_Some_mem)

lemma num_wf_snoc: "num_wf m \<Longrightarrow> k \<notin> map_keys m \<Longrightarrow> num_wf (m @ [(k, Suc (length m))])"
  by (auto simp: num_wf_def map_wf_def map_keys_def)

text \<open>A reader finds an entry of the numbered list by its identifier.\<close>

lemma find_numbered:
  assumes "num_wf m" "(k, i) \<in> set m" "\<And>k i. ident (mk (k, i)) = i"
  shows "find (\<lambda>x. ident x = i) (List.map mk m) = Some (mk (k, i))"
proof -
  have "distinct (List.map snd m)" using assms(1) by (simp add: num_wf_def)
  with assms(2) show ?thesis
  proof (induction m)
    case (Cons x m)
    obtain k' j where x: "x = (k', j)" by (cases x)
    show ?case
    proof (cases "j = i")
      case True
      then have "(k, i) \<notin> set m" using Cons.prems(2) by (force simp: x)
      then show ?thesis using Cons.prems(1) True assms(3) by (simp add: x)
    next
      case False
      then show ?thesis using Cons assms(3) by (simp add: x)
    qed
  qed simp
qed

subsection \<open>The builder's invariant\<close>

definition mk_func :: "function_mirror \<times> nat \<Rightarrow> func" where
  "mk_func = (\<lambda>(fm, i). \<lparr>func_id = i, func_name = string_pprof (fst fm), system_name = 0,
     func_filename = string_pprof (snd fm), start_line = 0\<rparr>)"

definition mk_location :: "location_mirror \<times> nat \<Rightarrow> location" where
  "mk_location = (\<lambda>(lm, i). \<lparr>loc_id = i, loc_mapping_id = 0, address = 0,
     loc_line = [\<lparr>ll_function_id = fst lm, ll_line = snd lm\<rparr>], is_folded = False\<rparr>)"

definition builder_wf :: "builder \<Rightarrow> bool" where
  "builder_wf b \<longleftrightarrow> num_wf (b_functions b) \<and> num_wf (b_locations b) \<and>
     p_function (b_profile b) = List.map mk_func (b_functions b) \<and>
     p_location (b_profile b) = List.map mk_location (b_locations b)"

lemma builder_new_wf [simp, inv_intros]: "builder_wf builder_new"
  by (simp add: builder_wf_def builder_new_def profile_default_def)

text \<open>What the two mirror operations leave alone.\<close>

definition same_rest :: "builder \<Rightarrow> builder \<Rightarrow> bool" where
  "same_rest b b' \<longleftrightarrow>
     (b_profile b')\<lparr>p_function := [], p_location := []\<rparr> =
       (b_profile b)\<lparr>p_function := [], p_location := []\<rparr> \<and>
     ffi_samples b' = ffi_samples b \<and> ffi_locations_scratch b' = ffi_locations_scratch b"

lemma same_rest_refl [simp]: "same_rest b b"
  by (simp add: same_rest_def)

lemma same_rest_trans: "same_rest b c \<Longrightarrow> same_rest c d \<Longrightarrow> same_rest b d"
  by (simp add: same_rest_def)

lemma same_restD:
  assumes "same_rest b b'"
  shows "p_sample (b_profile b') = p_sample (b_profile b)" "period (b_profile b') = period (b_profile b)"
    "p_sample_type (b_profile b') = p_sample_type (b_profile b)"
    "period_type (b_profile b') = period_type (b_profile b)"
    "time_nanos (b_profile b') = time_nanos (b_profile b)"
    "duration_nanos (b_profile b') = duration_nanos (b_profile b)"
    "ffi_samples b' = ffi_samples b"
proof -
  have e: "(b_profile b')\<lparr>p_function := [], p_location := []\<rparr> =
      (b_profile b)\<lparr>p_function := [], p_location := []\<rparr>" "ffi_samples b' = ffi_samples b"
    using assms by (simp_all add: same_rest_def)
  from e(1) show "p_sample (b_profile b') = p_sample (b_profile b)"
    "period (b_profile b') = period (b_profile b)"
    "p_sample_type (b_profile b') = p_sample_type (b_profile b)"
    "period_type (b_profile b') = period_type (b_profile b)"
    "time_nanos (b_profile b') = time_nanos (b_profile b)"
    "duration_nanos (b_profile b') = duration_nanos (b_profile b)"
    by (cases "b_profile b"; cases "b_profile b'"; simp)+
  show "ffi_samples b' = ffi_samples b" by (rule e(2))
qed

lemma add_function_mirror_cases:
  assumes "builder_wf b"
  obtains (old) i where "map_of (b_functions b) fm = Some i" "add_function_mirror fm b = Some (i, b)"
  | (fresh) i b' where "map_of (b_functions b) fm = None" "add_function_mirror fm b = Some (i, b')"
      "i = Suc (length (b_functions b))" "b_functions b' = b_functions b @ [(fm, i)]"
      "b_locations b' = b_locations b" "builder_wf b'" "same_rest b b'"
proof (cases "map_of (b_functions b) fm")
  case (Some i)
  then show thesis using old by (simp add: add_function_mirror_def)
next
  case None
  then have k: "fm \<notin> map_keys (b_functions b)" by (simp add: map_of_eq_None_keys)
  obtain i b' where r: "add_function_mirror fm b = Some (i, b')" "i = Suc (length (b_functions b))"
    "b' = b\<lparr>b_functions := b_functions b @ [(fm, i)], b_profile := (b_profile b)
       \<lparr>p_function := p_function (b_profile b) @ [mk_func (fm, i)]\<rparr>\<rparr>"
    using None assms update_fresh [OF k]
    by (simp add: add_function_mirror_def builder_wf_def mk_func_def)
  have "num_wf (b_functions b @ [(fm, Suc (length (b_functions b)))])"
    using assms k by (intro num_wf_snoc) (simp_all add: builder_wf_def)
  then show thesis
    by (intro fresh [OF None r(1,2)]) (use assms r in \<open>simp_all add: builder_wf_def same_rest_def\<close>)
qed

lemma add_location_mirror_cases:
  assumes "builder_wf b"
  obtains (old) i where "map_of (b_locations b) lm = Some i" "add_location_mirror lm b = Some (i, b)"
  | (fresh) i b' where "map_of (b_locations b) lm = None" "add_location_mirror lm b = Some (i, b')"
      "i = Suc (length (b_locations b))" "b_locations b' = b_locations b @ [(lm, i)]"
      "b_functions b' = b_functions b" "builder_wf b'" "same_rest b b'"
proof (cases "map_of (b_locations b) lm")
  case (Some i)
  then show thesis using old by (simp add: add_location_mirror_def)
next
  case None
  then have k: "lm \<notin> map_keys (b_locations b)" by (simp add: map_of_eq_None_keys)
  obtain i b' where r: "add_location_mirror lm b = Some (i, b')" "i = Suc (length (b_locations b))"
    "b' = b\<lparr>b_locations := b_locations b @ [(lm, i)], b_profile := (b_profile b)
       \<lparr>p_location := p_location (b_profile b) @ [mk_location (lm, i)]\<rparr>\<rparr>"
    using None assms update_fresh [OF k]
    by (simp add: add_location_mirror_def builder_wf_def mk_location_def)
  have "num_wf (b_locations b @ [(lm, Suc (length (b_locations b)))])"
    using assms k by (intro num_wf_snoc) (simp_all add: builder_wf_def)
  then show thesis
    by (intro fresh [OF None r(1,2)]) (use assms r in \<open>simp_all add: builder_wf_def same_rest_def\<close>)
qed

lemma num_name_snoc_fresh:
  assumes "num_wf m" "k \<notin> map_keys m" "num_name m j = Some k'"
  shows "num_name (m @ [(k, Suc (length m))]) j = Some k'"
    "num_name (m @ [(k, Suc (length m))]) (Suc (length m)) = Some k"
  using assms by (simp_all add: num_name_mem [OF num_wf_snoc] num_name_mem)

text \<open>One summary for each mirror operation: it succeeds, and the tables only grow.\<close>

lemma add_function_mirror_ok:
  assumes "builder_wf b"
  shows "\<exists>i b'. add_function_mirror fm b = Some (i, b') \<and> builder_wf b' \<and> same_rest b b' \<and>
    num_name (b_functions b') i = Some fm \<and> b_locations b' = b_locations b \<and>
    (\<forall>j k. num_name (b_functions b) j = Some k \<longrightarrow> num_name (b_functions b') j = Some k)"
  using assms
proof (cases rule: add_function_mirror_cases [where fm = fm])
  case (old i)
  then show ?thesis using assms by (simp add: num_name_iff builder_wf_def)
next
  case (fresh i b')
  then have "fm \<notin> map_keys (b_functions b)" "num_wf (b_functions b)" "num_wf (b_functions b')"
    using assms by (simp_all add: map_of_eq_None_keys builder_wf_def)
  then show ?thesis using fresh num_name_snoc_fresh(1) [of "b_functions b" fm] by (simp add: num_name_mem)
qed

lemma add_location_mirror_ok:
  assumes "builder_wf b"
  shows "\<exists>i b'. add_location_mirror lm b = Some (i, b') \<and> builder_wf b' \<and> same_rest b b' \<and>
    num_name (b_locations b') i = Some lm \<and> b_functions b' = b_functions b \<and>
    (\<forall>j k. num_name (b_locations b) j = Some k \<longrightarrow> num_name (b_locations b') j = Some k)"
  using assms
proof (cases rule: add_location_mirror_cases [where lm = lm])
  case (old i)
  then show ?thesis using assms by (simp add: num_name_iff builder_wf_def)
next
  case (fresh i b')
  then have "lm \<notin> map_keys (b_locations b)" "num_wf (b_locations b)" "num_wf (b_locations b')"
    using assms by (simp_all add: map_of_eq_None_keys builder_wf_def)
  then show ?thesis using fresh num_name_snoc_fresh(1) [of "b_locations b" lm] by (simp add: num_name_mem)
qed

interpretation function_ids: id_table add_function_mirror "\<lambda>b. num_name (b_functions b)" builder_wf
proof unfold_locales
  fix b fm i b' j k
  assume "builder_wf b" "add_function_mirror fm b = Some (i, b')"
  then show "builder_wf b'" "num_name (b_functions b') i = Some fm"
    "num_name (b_functions b) j = Some k \<Longrightarrow> num_name (b_functions b') j = Some k"
    using add_function_mirror_ok [of b fm] by (cases k; auto)+
qed (simp add: builder_wf_def num_name_iff)

interpretation location_ids: id_table add_location_mirror "\<lambda>b. num_name (b_locations b)" builder_wf
proof unfold_locales
  fix b lm i b' j k
  assume "builder_wf b" "add_location_mirror lm b = Some (i, b')"
  then show "builder_wf b'" "num_name (b_locations b') i = Some lm"
    "num_name (b_locations b) j = Some k \<Longrightarrow> num_name (b_locations b') j = Some k"
    using add_location_mirror_ok [of b lm] by (cases k; auto)+
qed (simp add: builder_wf_def num_name_iff)

subsection \<open>Frames of native code\<close>

definition ffi_frame_name :: "builder \<Rightarrow> nat \<Rightarrow> ffi_frame option" where
  "ffi_frame_name b i =
     do { (fid, l) \<leftarrow> num_name (b_locations b) i;
          (nm, fl) \<leftarrow> num_name (b_functions b) fid;
          Some \<lparr>function_name = nm, file_name = fl, ffi_line = l\<rparr> }"

lemma ffi_frame_name_iff:
  "ffi_frame_name b i = Some f \<longleftrightarrow>
     (\<exists>fid. num_name (b_locations b) i = Some (fid, ffi_line f) \<and>
            num_name (b_functions b) fid = Some (function_name f, file_name f))"
  by (cases f) (auto simp: ffi_frame_name_def split: Option.bind_splits)

lemma add_ffi_frame_ok:
  assumes "builder_wf b"
  shows "\<exists>i b'. add_ffi_frame f b = Some (i, b') \<and> builder_wf b' \<and> same_rest b b' \<and>
    ffi_frame_name b' i = Some f \<and>
    (\<forall>j g. ffi_frame_name b j = Some g \<longrightarrow> ffi_frame_name b' j = Some g)"
proof -
  obtain fid b1 where 1: "add_function_mirror (function_name f, file_name f) b = Some (fid, b1)"
    "builder_wf b1" "same_rest b b1"
    "num_name (b_functions b1) fid = Some (function_name f, file_name f)"
    "b_locations b1 = b_locations b"
    "\<And>j k. num_name (b_functions b) j = Some k \<Longrightarrow> num_name (b_functions b1) j = Some k"
    using add_function_mirror_ok [OF assms] by metis
  obtain i b2 where 2: "add_location_mirror (fid, ffi_line f) b1 = Some (i, b2)"
    "builder_wf b2" "same_rest b1 b2" "num_name (b_locations b2) i = Some (fid, ffi_line f)"
    "b_functions b2 = b_functions b1"
    "\<And>j k. num_name (b_locations b1) j = Some k \<Longrightarrow> num_name (b_locations b2) j = Some k"
    using add_location_mirror_ok [OF 1(2)] by metis
  have "add_ffi_frame f b = Some (i, b2)" using 1(1) 2(1) by (simp add: add_ffi_frame_def)
  moreover have "ffi_frame_name b2 i = Some f" using 1(4) 2(4,5) by (simp add: ffi_frame_name_iff)
  moreover have "ffi_frame_name b2 j = Some g" if "ffi_frame_name b j = Some g" for j g
    using that 1(5,6) 2(5,6) by (auto simp: ffi_frame_name_iff)
  ultimately show ?thesis using 2(2) same_rest_trans [OF 1(3) 2(3)] by blast
qed

interpretation ffi_frame_ids: id_table add_ffi_frame ffi_frame_name builder_wf
proof unfold_locales
  fix b f i b' j g
  assume a: "builder_wf b" "add_ffi_frame f b = Some (i, b')"
  obtain i2 b2 where "add_ffi_frame f b = Some (i2, b2)" "builder_wf b2" "ffi_frame_name b2 i2 = Some f"
    "\<And>j g. ffi_frame_name b j = Some g \<Longrightarrow> ffi_frame_name b2 j = Some g"
    using add_ffi_frame_ok [OF a(1)] by metis
  with a(2) show "builder_wf b'" "ffi_frame_name b' i = Some f"
    "ffi_frame_name b j = Some g \<Longrightarrow> ffi_frame_name b' j = Some g"
    by simp_all
next
  fix b i f j
  assume a: "builder_wf b" "ffi_frame_name b i = Some f" "ffi_frame_name b j = Some f"
  then show "i = j"
    using function_ids.names_unique location_ids.names_unique by (metis ffi_frame_name_iff)
qed

lemma intern_ffi_frames_ok:
  assumes "builder_wf b"
  shows "\<exists>is b'. intern_all add_ffi_frame frs b = Some (is, b') \<and> builder_wf b' \<and> same_rest b b' \<and>
    List.map (ffi_frame_name b') is = List.map Some frs \<and>
    (\<forall>j g. ffi_frame_name b j = Some g \<longrightarrow> ffi_frame_name b' j = Some g)"
proof -
  have "\<exists>is b'. intern_all add_ffi_frame frs b = Some (is, b') \<and> same_rest b b'"
    using assms
  proof (induction frs arbitrary: b)
    case (Cons f frs)
    obtain i b1 where 1: "add_ffi_frame f b = Some (i, b1)" "builder_wf b1" "same_rest b b1"
      using add_ffi_frame_ok [OF Cons.prems] by metis
    obtain "is" b2 where "intern_all add_ffi_frame frs b1 = Some (is, b2)" "same_rest b1 b2"
      using Cons.IH [OF 1(2)] by metis
    then show ?case using 1 same_rest_trans by auto
  qed simp
  then show ?thesis using ffi_frame_ids.intern_all_spec [OF assms] by metis
qed

subsection \<open>Accumulating native samples\<close>

text \<open>The values recorded so far for a stack, by its frames.\<close>

definition stack_ids :: "builder \<Rightarrow> ffi_frame list \<Rightarrow> nat list \<Rightarrow> bool" where
  "stack_ids b frs is \<longleftrightarrow> List.map (ffi_frame_name b) is = List.map Some frs"

definition ffi_inv :: "builder \<Rightarrow> (ffi_frame list \<times> int list) list \<Rightarrow> bool" where
  "ffi_inv b m \<longleftrightarrow> builder_wf b \<and> map_wf (ffi_samples b) \<and> map_wf m \<and>
     list_all2 (\<lambda>(is, v) (frs, w). stack_ids b frs is \<and> v = w) (ffi_samples b) m"

lemma list_all2_lookup:
  assumes "list_all2 (\<lambda>(a, v) (b, w). R b a \<and> v = w) xs ys"
    and "\<And>a b. (a, b) \<in> set (zip (List.map fst xs) (List.map fst ys)) \<Longrightarrow> (a = a') = (b = b')"
  shows "map_of xs a' = map_of ys b'"
  using assms by (induction rule: list_all2_induct) auto

lemma list_all2_update:
  assumes "list_all2 (\<lambda>(a, v) (b, w). R b a \<and> v = w) xs ys"
    and "\<And>a b. (a, b) \<in> set (zip (List.map fst xs) (List.map fst ys)) \<Longrightarrow> (a = a') = (b = b')"
    and "R b' a'"
  shows "list_all2 (\<lambda>(a, v) (b, w). R b a \<and> v = w) (AList.update a' e xs) (AList.update b' e ys)"
  using assms by (induction rule: list_all2_induct) auto

text \<open>The specification: samples summed per stack, each sum saturating, in order of arrival.\<close>

definition sum_sample ::
    "ffi_frame list \<times> int list \<Rightarrow> (ffi_frame list \<times> int list) list \<Rightarrow> (ffi_frame list \<times> int list) list" where
  "sum_sample s m =
     AList.update (fst s)
       (case map_of m (fst s) of Some acc \<Rightarrow> accumulate acc (snd s) | None \<Rightarrow> snd s) m"

lemma sum_sample_pair:
  "sum_sample (frs, v) m =
     AList.update frs (case map_of m frs of Some acc \<Rightarrow> accumulate acc v | None \<Rightarrow> v) m"
  by (simp only: sum_sample_def fst_conv snd_conv)

lemma stack_ids_frame [simp, frame_simps]:
  "stack_ids (b\<lparr>ffi_samples := m, ffi_locations_scratch := is\<rparr>) = stack_ids b"
proof -
  have "ffi_frame_name (b\<lparr>ffi_samples := m, ffi_locations_scratch := is\<rparr>) = ffi_frame_name b"
    by (simp add: ffi_frame_name_def fun_eq_iff)
  then show ?thesis by (intro ext) (simp only: stack_ids_def)
qed

lemma add_ffi_sample_inv:
  assumes I: "ffi_inv b m"
  shows "\<exists>b'. add_ffi_sample slots frs values b = Some b' \<and>
    ffi_inv b' (sum_sample (frs, slots values) m) \<and>
    p_sample (b_profile b') = p_sample (b_profile b)"
proof -
  have wf: "builder_wf b" using I by (simp add: ffi_inv_def)
  obtain "is" b1 where 1: "intern_all add_ffi_frame frs b = Some (is, b1)" "builder_wf b1"
    "same_rest b b1" "stack_ids b1 frs is"
    "\<And>j g. ffi_frame_name b j = Some g \<Longrightarrow> ffi_frame_name b1 j = Some g"
    using intern_ffi_frames_ok [OF wf] unfolding stack_ids_def by metis
  note R = same_restD [OF 1(3)]
  have keep: "stack_ids b1 frs' js" if "stack_ids b frs' js" for frs' js
    using that 1(5) unfolding stack_ids_def
    by (auto simp: list_eq_iff_nth_eq)
  have old: "list_all2 (\<lambda>(is, v) (frs, w). stack_ids b1 frs is \<and> v = w) (ffi_samples b1) m"
    using I keep unfolding ffi_inv_def R(7)
    by (auto elim!: list_all2_mono)
  have same: "(js = is) = (frs' = frs)"
    if "(js, frs') \<in> set (zip (List.map fst (ffi_samples b1)) (List.map fst m))" for js frs'
  proof -
    have "stack_ids b1 frs' js"
      using that old by (auto simp: in_set_zip list_all2_conv_all_nth case_prod_beta)
    then show ?thesis
      using ffi_frame_ids.ids_inject [OF 1(2)] 1(4) unfolding stack_ids_def by blast
  qed
  let ?vs = "slots values"
  let ?e = "case map_of (ffi_samples b1) is of Some acc \<Rightarrow> accumulate acc ?vs | None \<Rightarrow> ?vs"
  let ?b2 = "b1\<lparr>ffi_samples := AList.update is ?e (ffi_samples b1), ffi_locations_scratch := is\<rparr>"
  have s: "add_ffi_sample slots frs values b = Some ?b2"
    by (simp add: add_ffi_sample_def 1(1) Let_def)
  have look: "map_of (ffi_samples b1) is = map_of m frs"
    by (rule list_all2_lookup [OF old same])
  have "list_all2 (\<lambda>(is, v) (frs, w). stack_ids ?b2 frs is \<and> v = w) (ffi_samples ?b2)
      (sum_sample (frs, ?vs) m)"
    using list_all2_update [OF old same 1(4), of ?e] look
    by (simp add: sum_sample_pair)
  then have "ffi_inv ?b2 (sum_sample (frs, ?vs) m)"
    using I 1(2) R(7) by (simp add: ffi_inv_def builder_wf_def sum_sample_pair)
  then show ?thesis using s R(1) by auto
qed

fun add_ffi_samples ::
    "(ffi_values \<Rightarrow> int list) \<Rightarrow> (ffi_frame list \<times> ffi_values) list \<Rightarrow> builder \<Rightarrow> builder option" where
  "add_ffi_samples slots [] b = Some b"
| "add_ffi_samples slots ((frs, v) # ss) b =
     do { b \<leftarrow> add_ffi_sample slots frs v b; add_ffi_samples slots ss b }"

lemma add_ffi_samples_inv:
  assumes "ffi_inv b m"
  shows "\<exists>b'. add_ffi_samples slots ss b = Some b' \<and>
    ffi_inv b' (fold (\<lambda>(frs, v). sum_sample (frs, slots v)) ss m) \<and>
    p_sample (b_profile b') = p_sample (b_profile b)"
  using assms
proof (induction ss arbitrary: b m)
  case (Cons s ss)
  obtain frs v where s: "s = (frs, v)" by (cases s)
  obtain b1 where 1: "add_ffi_sample slots frs v b = Some b1" "ffi_inv b1 (sum_sample (frs, slots v) m)"
    "p_sample (b_profile b1) = p_sample (b_profile b)"
    using add_ffi_sample_inv [OF Cons.prems] by metis
  then show ?case using Cons.IH [OF 1(2)] by (simp add: s)
qed simp

lemma ffi_inv_new: "ffi_inv builder_new []"
  unfolding ffi_inv_def by (simp add: builder_new_wf) (simp add: builder_new_def)

subsection \<open>Reading a profile\<close>

text \<open>How a reader of the format resolves a location, a string, a label and a sample.\<close>

definition read_location :: "profile \<Rightarrow> nat \<Rightarrow> (int \<times> int \<times> int) option" where
  "read_location p i =
     do { l \<leftarrow> find (\<lambda>l. loc_id l = i) (p_location p);
          ln \<leftarrow> (case loc_line l of [x] \<Rightarrow> Some x | _ \<Rightarrow> None);
          f \<leftarrow> find (\<lambda>f. func_id f = ll_function_id ln) (p_function p);
          Some (func_name f, func_filename f, ll_line ln) }"

definition read_string :: "profile \<Rightarrow> int \<Rightarrow> string option" where
  "read_string p i =
     (if 0 \<le> i \<and> nat i < length (p_string_table p) then Some (p_string_table p ! nat i) else None)"

definition read_stack_frame :: "profile \<Rightarrow> nat \<Rightarrow> stack_frame option" where
  "read_stack_frame p i =
     do { (n, f, l) \<leftarrow> read_location p i;
          nm \<leftarrow> read_string p n;
          fl \<leftarrow> read_string p f;
          if l < 0 then None else Some \<lparr>name = nm, filename = fl, line = nat l\<rparr> }"

definition read_label :: "profile \<Rightarrow> label \<Rightarrow> tag option" where
  "read_label p l =
     do { k \<leftarrow> read_string p (label_key l);
          v \<leftarrow> read_string p (label_str l);
          Some (Tag k v) }"

type_synonym read_sample = "stack_frame list \<times> tag list \<times> int list"

definition resolve_sample ::
    "(nat \<Rightarrow> stack_frame option) \<Rightarrow> (label \<Rightarrow> tag option) \<Rightarrow> sample \<Rightarrow> read_sample option" where
  "resolve_sample frame_of tag_of s =
     do { fs \<leftarrow> those (List.map frame_of (location_id s));
          ls \<leftarrow> those (List.map tag_of (sample_label s));
          Some (fs, ls, sample_value s) }"

definition pprof_samples :: "profile \<Rightarrow> read_sample list option" where
  "pprof_samples p = those (List.map (resolve_sample (read_stack_frame p) (read_label p)) (p_sample p))"

definition pprof_sample_types :: "profile \<Rightarrow> (string \<times> string) list option" where
  "pprof_sample_types p =
     those (List.map (\<lambda>v. do { a \<leftarrow> read_string p (vt_type v); b \<leftarrow> read_string p (vt_unit v); Some (a, b) })
       (p_sample_type p))"

lemma those_map_Some: "those (List.map Some xs) = Some xs"
  by (induction xs) simp_all

lemma those_eq_Some: "those xs = Some ys \<longleftrightarrow> xs = List.map Some ys"
  by (induction xs arbitrary: ys) (auto split: option.splits simp: map_eq_Cons_conv)

lemma resolve_sample_iff:
  "resolve_sample frame_of tag_of s = Some (fs, ls, vs) \<longleftrightarrow>
     List.map frame_of (location_id s) = List.map Some fs \<and>
     List.map tag_of (sample_label s) = List.map Some ls \<and> sample_value s = vs"
  by (auto simp: resolve_sample_def those_eq_Some those_map_Some split: Option.bind_splits)

lemma map_eq_Some_mono:
  assumes "List.map f xs = List.map Some ys" "\<And>x y. f x = Some y \<Longrightarrow> g x = Some y"
  shows "List.map g xs = List.map Some ys"
  using assms by (auto simp: list_eq_iff_nth_eq)

lemma resolve_sample_mono:
  assumes "resolve_sample f g s = Some r"
    and "\<And>i x. f i = Some x \<Longrightarrow> f' i = Some x" and "\<And>l x. g l = Some x \<Longrightarrow> g' l = Some x"
  shows "resolve_sample f' g' s = Some r"
proof (cases r)
  case (fields fs ls vs)
  then show ?thesis
    using assms(1) map_eq_Some_mono [of f _ _ f', OF _ assms(2)]
      map_eq_Some_mono [of g _ _ g', OF _ assms(3)]
    by (simp add: resolve_sample_iff)
qed

lemma read_location_builder:
  assumes "builder_wf b" "ffi_frame_name b i = Some f"
    and "p_location p = p_location (b_profile b)" "p_function p = p_function (b_profile b)"
  shows "read_location p i =
    Some (string_pprof (function_name f), string_pprof (file_name f), ffi_line f)"
proof -
  from assms(2) obtain fid where F: "num_name (b_locations b) i = Some (fid, ffi_line f)"
    "num_name (b_functions b) fid = Some (function_name f, file_name f)"
    by (auto simp: ffi_frame_name_iff)
  have W: "num_wf (b_locations b)" "num_wf (b_functions b)"
    "p_location p = List.map mk_location (b_locations b)"
    "p_function p = List.map mk_func (b_functions b)"
    using assms(1,3,4) by (simp_all add: builder_wf_def)
  have "find (\<lambda>l. loc_id l = i) (p_location p) = Some (mk_location ((fid, ffi_line f), i))"
    unfolding W(3) using F(1) W(1)
    by (intro find_numbered) (simp_all add: num_name_mem mk_location_def)
  moreover have "find (\<lambda>g. func_id g = fid) (p_function p) =
      Some (mk_func ((function_name f, file_name f), fid))"
    unfolding W(4) using F(2) W(2)
    by (intro find_numbered) (simp_all add: num_name_mem mk_func_def)
  ultimately show ?thesis by (simp add: read_location_def mk_location_def mk_func_def)
qed

subsection \<open>Frames and labels of stack traces\<close>

definition enc_frame_name :: "encoder \<Rightarrow> nat \<Rightarrow> stack_frame option" where
  "enc_frame_name e i =
     do { f \<leftarrow> ffi_frame_name (snd e) i;
          nm \<leftarrow> st_string (fst e) (function_name f);
          fl \<leftarrow> st_string (fst e) (file_name f);
          if ffi_line f < 0 then None
          else Some \<lparr>name = nm, filename = fl, line = nat (ffi_line f)\<rparr> }"

definition enc_label_tag :: "encoder \<Rightarrow> label \<Rightarrow> tag option" where
  "enc_label_tag e l =
     (if label_key l < 0 \<or> label_str l < 0 then None
      else do { k \<leftarrow> st_string (fst e) (nat (label_key l));
                v \<leftarrow> st_string (fst e) (nat (label_str l));
                Some (Tag k v) })"

definition enc_wf :: "encoder \<Rightarrow> bool" where
  "enc_wf e \<longleftrightarrow> st_wf (fst e) \<and> builder_wf (snd e)"

lemma enc_frame_name_iff:
  "enc_frame_name e i = Some sf \<longleftrightarrow>
     (\<exists>nm fl. ffi_frame_name (snd e) i = Some \<lparr>function_name = nm, file_name = fl, ffi_line = int (line sf)\<rparr> \<and>
        st_string (fst e) nm = Some (name sf) \<and> st_string (fst e) fl = Some (filename sf))"
proof
  assume "enc_frame_name e i = Some sf"
  then obtain f where "ffi_frame_name (snd e) i = Some f"
    "st_string (fst e) (function_name f) = Some (name sf)"
    "st_string (fst e) (file_name f) = Some (filename sf)" "ffi_line f = int (line sf)"
    by (auto simp: enc_frame_name_def split: Option.bind_splits if_splits)
  then show "\<exists>nm fl. ffi_frame_name (snd e) i = Some \<lparr>function_name = nm, file_name = fl, ffi_line = int (line sf)\<rparr> \<and>
        st_string (fst e) nm = Some (name sf) \<and> st_string (fst e) fl = Some (filename sf)"
    by (cases f) auto
qed (cases sf; auto simp: enc_frame_name_def)

definition enc_extends :: "encoder \<Rightarrow> encoder \<Rightarrow> bool" where
  "enc_extends e e' \<longleftrightarrow>
     (\<forall>j s. st_string (fst e) j = Some s \<longrightarrow> st_string (fst e') j = Some s) \<and>
     (\<forall>j f. ffi_frame_name (snd e) j = Some f \<longrightarrow> ffi_frame_name (snd e') j = Some f)"

lemma enc_extends_refl [simp]: "enc_extends e e"
  by (simp add: enc_extends_def)

lemma enc_extends_trans: "enc_extends e e1 \<Longrightarrow> enc_extends e1 e2 \<Longrightarrow> enc_extends e e2"
  by (simp add: enc_extends_def)

lemma enc_extends_names:
  assumes "enc_extends e e'"
  shows "enc_frame_name e i = Some sf \<Longrightarrow> enc_frame_name e' i = Some sf"
    "enc_label_tag e l = Some t \<Longrightarrow> enc_label_tag e' l = Some t"
  using assms by (fastforce simp: enc_frame_name_iff enc_extends_def)
    (use assms in \<open>auto simp: enc_label_tag_def enc_extends_def split: Option.bind_splits if_splits\<close>)

lemma add_stack_frame_alt:
  "add_stack_frame sf (st, b) =
     do { (nm, st) \<leftarrow> st_add (name sf) st;
          (fl, st) \<leftarrow> st_add (filename sf) st;
          (lid, b) \<leftarrow> add_ffi_frame \<lparr>function_name = nm, file_name = fl, ffi_line = int (line sf)\<rparr> b;
          Some (lid, (st, b)) }"
  by (auto simp: add_stack_frame_def add_ffi_frame_def case_prod_beta split: Option.bind_splits)

lemma add_stack_frame_ok:
  assumes wf: "enc_wf (st, b)" and a: "add_stack_frame sf (st, b) = Some (i, e')"
  shows "enc_wf e' \<and> enc_extends (st, b) e' \<and> enc_frame_name e' i = Some sf \<and> same_rest b (snd e')"
proof -
  obtain nm st1 fl st2 b2 where s: "st_add (name sf) st = Some (nm, st1)"
    "st_add (filename sf) st1 = Some (fl, st2)"
    "add_ffi_frame \<lparr>function_name = nm, file_name = fl, ffi_line = int (line sf)\<rparr> b = Some (i, b2)"
    "e' = (st2, b2)"
    using a by (auto simp: add_stack_frame_alt split: Option.bind_splits)
  have W: "st_wf st" "builder_wf b" using wf by (simp_all add: enc_wf_def)
  note W1 = strings.intern_wf [OF W(1) s(1)]
  note W2 = strings.intern_wf [OF W1 s(2)]
  note B = add_ffi_frame_ok [OF W(2), of "\<lparr>function_name = nm, file_name = fl, ffi_line = int (line sf)\<rparr>",
      unfolded s(3)]
  have "st_string st2 nm = Some (name sf)" "st_string st2 fl = Some (filename sf)"
    using strings.intern_names [OF W(1) s(1)] strings.intern_keeps [OF W1 s(2)]
      strings.intern_names [OF W1 s(2)] by simp_all
  then show ?thesis
    using B W2 strings.intern_keeps [OF W(1) s(1)] strings.intern_keeps [OF W1 s(2)] s(4)
    by (auto simp: enc_wf_def enc_extends_def enc_frame_name_iff)
qed

interpretation stack_frame_ids: id_table add_stack_frame enc_frame_name enc_wf
proof unfold_locales
  fix e sf i e' j sf'
  assume a: "enc_wf e" "add_stack_frame sf e = Some (i, e')"
  obtain st b where e: "e = (st, b)" by (cases e)
  note O = add_stack_frame_ok [OF a [unfolded e]]
  show "enc_wf e'" "enc_frame_name e' i = Some sf" using O by simp_all
  show "enc_frame_name e j = Some sf' \<Longrightarrow> enc_frame_name e' j = Some sf'"
    using O enc_extends_names(1) unfolding e by blast
next
  fix e i sf j
  assume a: "enc_wf e" "enc_frame_name e i = Some sf" "enc_frame_name e j = Some sf"
  then have W: "st_wf (fst e)" "builder_wf (snd e)" by (simp_all add: enc_wf_def)
  from a obtain nm fl nm' fl' where
    "ffi_frame_name (snd e) i = Some \<lparr>function_name = nm, file_name = fl, ffi_line = int (line sf)\<rparr>"
    "ffi_frame_name (snd e) j = Some \<lparr>function_name = nm', file_name = fl', ffi_line = int (line sf)\<rparr>"
    "nm = nm'" "fl = fl'"
    using strings.names_unique [OF W(1)] unfolding enc_frame_name_iff by metis
  then show "i = j" using ffi_frame_ids.names_unique [OF W(2)] by simp
qed

lemma intern_stack_frames_ok:
  assumes "enc_wf e" "intern_all add_stack_frame frs e = Some (is, e')"
  shows "enc_wf e' \<and> enc_extends e e' \<and> List.map (enc_frame_name e') is = List.map Some frs \<and>
    same_rest (snd e) (snd e')"
proof -
  have "enc_extends e e' \<and> same_rest (snd e) (snd e')"
    using assms
  proof (induction frs arbitrary: e "is")
    case (Cons sf frs)
    obtain st b where e: "e = (st, b)" by (cases e)
    obtain i e1 js where s: "add_stack_frame sf (st, b) = Some (i, e1)"
      "intern_all add_stack_frame frs e1 = Some (js, e')"
      using Cons.prems(2) by (auto simp: e split: Option.bind_splits)
    note O = add_stack_frame_ok [OF Cons.prems(1) [unfolded e] s(1)]
    then have "enc_extends e1 e' \<and> same_rest (snd e1) (snd e')" using Cons.IH s(2) by blast
    then show ?case using O enc_extends_trans same_rest_trans by (fastforce simp: e)
  qed simp
  then show ?thesis using stack_frame_ids.intern_all_spec [OF assms] by blast
qed

lemma add_labels_ok:
  assumes "st_wf st" "add_labels ts st = Some (ls, st')"
  shows "st_wf st' \<and> List.map (enc_label_tag (st', b)) ls = List.map Some ts \<and>
    (\<forall>j s. st_string st j = Some s \<longrightarrow> st_string st' j = Some s)"
  using assms
proof (induction ts arbitrary: st ls)
  case (Cons t ts)
  obtain k st1 v st2 ms where s: "st_add (key t) st = Some (k, st1)"
    "st_add (tag_value t) st1 = Some (v, st2)" "add_labels ts st2 = Some (ms, st')"
    "ls = \<lparr>label_key = string_pprof k, label_str = string_pprof v, label_num = 0,
       label_num_unit = 0\<rparr> # ms"
    using Cons.prems(2) by (auto split: Option.bind_splits)
  note W1 = strings.intern_wf [OF Cons.prems(1) s(1)]
  note W2 = strings.intern_wf [OF W1 s(2)]
  note IH = Cons.IH [OF W2 s(3)]
  have "st_string st2 k = Some (key t)" "st_string st2 v = Some (tag_value t)"
    using strings.intern_names [OF Cons.prems(1) s(1)] strings.intern_keeps [OF W1 s(2)]
      strings.intern_names [OF W1 s(2)] by simp_all
  then have "enc_label_tag (st', b) (hd ls) = Some t"
    using IH by (cases t) (simp add: s(4) enc_label_tag_def string_pprof_def)
  then show ?case
    using IH strings.intern_keeps [OF Cons.prems(1) s(1)] strings.intern_keeps [OF W1 s(2)]
    by (simp add: s(4))
qed simp

text \<open>The samples of an encoder, resolved by its own tables.\<close>

definition enc_samples :: "encoder \<Rightarrow> read_sample list \<Rightarrow> bool" where
  "enc_samples e rs \<longleftrightarrow>
     List.map (resolve_sample (enc_frame_name e) (enc_label_tag e)) (p_sample (b_profile (snd e))) =
       List.map Some rs"

text \<open>What a counted stack trace should read back as.\<close>

definition expected_sample :: "int \<Rightarrow> stack_trace \<times> nat \<Rightarrow> read_sample" where
  "expected_sample per tn =
     (frames (fst tn), tags (metadata (fst tn)), [sample_total (snd tn) per])"

lemma enc_samples_extends:
  assumes "enc_samples e rs" "enc_extends e e'"
    and "p_sample (b_profile (snd e')) = p_sample (b_profile (snd e))"
  shows "enc_samples e' rs"
  using assms(1) resolve_sample_mono [OF _ enc_extends_names [OF assms(2)]]
  unfolding enc_samples_def assms(3) by (rule map_eq_Some_mono)

lemma enc_samples_snoc:
  assumes "enc_samples e rs" "resolve_sample (enc_frame_name e) (enc_label_tag e) s = Some r"
  shows "enc_samples (fst e, (snd e)\<lparr>b_profile := (b_profile (snd e))
     \<lparr>p_sample := p_sample (b_profile (snd e)) @ [s]\<rparr>\<rparr>) (rs @ [r])"
proof -
  let ?e = "(fst e, (snd e)\<lparr>b_profile := (b_profile (snd e))
     \<lparr>p_sample := p_sample (b_profile (snd e)) @ [s]\<rparr>\<rparr>)"
  have "enc_frame_name ?e = enc_frame_name e" "enc_label_tag ?e = enc_label_tag e"
    by (simp_all add: fun_eq_iff enc_frame_name_def enc_label_tag_def ffi_frame_name_def)
  then show ?thesis using assms by (simp add: enc_samples_def)
qed

text \<open>The fields of the profile that adding samples does not touch.\<close>

definition same_header :: "builder \<Rightarrow> builder \<Rightarrow> bool" where
  "same_header b b' \<longleftrightarrow>
     period (b_profile b') = period (b_profile b) \<and>
     p_sample_type (b_profile b') = p_sample_type (b_profile b) \<and>
     period_type (b_profile b') = period_type (b_profile b) \<and>
     time_nanos (b_profile b') = time_nanos (b_profile b) \<and>
     duration_nanos (b_profile b') = duration_nanos (b_profile b)"

lemma same_rest_header: "same_rest b b' \<Longrightarrow> same_header b b'"
  using same_restD [of b b'] by (simp add: same_header_def)

lemma add_stacktrace_ok:
  assumes wf: "enc_wf e" and S: "enc_samples e rs" and a: "add_stacktrace t n e = Some e'"
  shows "enc_wf e' \<and> enc_samples e' (rs @ [expected_sample (period (b_profile (snd e))) (t, n)]) \<and>
    same_header (snd e) (snd e') \<and> (\<forall>j s. st_string (fst e) j = Some s \<longrightarrow> st_string (fst e') j = Some s)"
proof -
  let ?v = "sample_total n (period (b_profile (snd e)))"
  obtain "is" st b ls st2 where s: "intern_all add_stack_frame (frames t) e = Some (is, st, b)"
    "add_labels (tags (metadata t)) st = Some (ls, st2)"
    "e' = (st2, b\<lparr>b_profile := (b_profile b)\<lparr>p_sample := p_sample (b_profile b) @
      [\<lparr>location_id = is, sample_value = [?v], sample_label = ls\<rparr>]\<rparr>\<rparr>)"
    using a by (auto simp: add_stacktrace_def Let_def split: Option.bind_splits)
  note F = intern_stack_frames_ok [OF wf s(1)]
  note L = add_labels_ok [OF _ s(2), of b]
  have W: "st_wf st" "builder_wf b" using F by (simp_all add: enc_wf_def)
  have x: "enc_extends (st, b) (st2, b)" using L [OF W(1)] by (simp add: enc_extends_def)
  then have S2: "enc_samples (st2, b) rs"
    using F same_restD(1) [of "snd e" b] enc_extends_trans [of e "(st, b)" "(st2, b)"]
    by (intro enc_samples_extends [OF S]) simp_all
  have "List.map (enc_frame_name (st2, b)) is = List.map Some (frames t)"
    by (rule map_eq_Some_mono [of "enc_frame_name (st, b)"]) (use F enc_extends_names(1) [OF x] in auto)
  then have r: "resolve_sample (enc_frame_name (st2, b)) (enc_label_tag (st2, b))
      \<lparr>location_id = is, sample_value = [?v], sample_label = ls\<rparr> =
      Some (expected_sample (period (b_profile (snd e))) (t, n))"
    using L [OF W(1)] by (simp add: expected_sample_def resolve_sample_iff)
  have "enc_samples e' (rs @ [expected_sample (period (b_profile (snd e))) (t, n)])"
    using enc_samples_snoc [OF S2 r] by (simp add: s(3))
  moreover have "enc_wf e'" using L [OF W(1)] W(2) by (simp add: s(3) enc_wf_def builder_wf_def)
  moreover have "same_header (snd e) (snd e')"
    using F same_rest_header [of "snd e" b] by (simp add: s(3) same_header_def)
  ultimately show ?thesis using F x by (simp add: s(3) enc_extends_def)
qed

lemma add_stacktraces_ok:
  assumes "enc_wf e" "enc_samples e rs" "add_stacktraces ts e = Some e'"
  shows "enc_wf e' \<and> same_header (snd e) (snd e') \<and>
    enc_samples e' (rs @ List.map (expected_sample (period (b_profile (snd e)))) ts) \<and>
    (\<forall>j s. st_string (fst e) j = Some s \<longrightarrow> st_string (fst e') j = Some s)"
  using assms
proof (induction ts arbitrary: e rs)
  case Nil
  then show ?case by (simp add: same_header_def)
next
  case (Cons x ts)
  obtain t n where x: "x = (t, n)" by (cases x)
  obtain e1 where s: "add_stacktrace t n e = Some e1" "add_stacktraces ts e1 = Some e'"
    using Cons.prems(3) by (auto simp: x split: Option.bind_splits)
  note O = add_stacktrace_ok [OF Cons.prems(1,2) s(1)]
  have "period (b_profile (snd e1)) = period (b_profile (snd e))" using O by (simp add: same_header_def)
  then show ?case
    using Cons.IH [OF conjunct1 [OF O] conjunct1 [OF conjunct2 [OF O]] s(2)] O
    by (auto simp: x same_header_def)
qed

subsection \<open>The finished profile\<close>

text \<open>The profile of an encoder with its table written out resolves as the encoder does.\<close>

lemma read_final:
  assumes wf: "enc_wf (st, b)" and v: "into_pprof_table st = Some v"
  defines "p \<equiv> (b_profile b)\<lparr>p_string_table := v\<rparr>"
  shows "st_string st i = Some s \<Longrightarrow> read_string p (string_pprof i) = Some s"
    "enc_frame_name (st, b) i = Some sf \<Longrightarrow> read_stack_frame p i = Some sf"
    "enc_label_tag (st, b) l = Some t \<Longrightarrow> read_label p l = Some t"
proof -
  have W: "st_wf st" "builder_wf b" using wf by (simp_all add: enc_wf_def)
  have T: "length v = length st" "\<And>s i. map_of st s = Some i \<Longrightarrow> v ! i = s"
    using pprof_table_spec [OF W(1)] v by (metis option.inject)+
  have rd: "read_string p (string_pprof i) = Some s" if "st_string st i = Some s" for i s
    using that T st_index_lt [OF W(1)] by (simp add: st_string_iff [OF W(1)] read_string_def p_def string_pprof_def)
  then show "st_string st i = Some s \<Longrightarrow> read_string p (string_pprof i) = Some s" .
  show "read_stack_frame p i = Some sf" if f: "enc_frame_name (st, b) i = Some sf"
  proof -
    obtain nm fl where F: "ffi_frame_name b i =
        Some \<lparr>function_name = nm, file_name = fl, ffi_line = int (line sf)\<rparr>"
      "st_string st nm = Some (name sf)" "st_string st fl = Some (filename sf)"
      using f by (auto simp: enc_frame_name_iff)
    have "read_location p i = Some (string_pprof nm, string_pprof fl, int (line sf))"
      using read_location_builder [OF W(2) F(1), of p] by (simp add: p_def)
    then show ?thesis using rd [OF F(2)] rd [OF F(3)] by (cases sf) (simp add: read_stack_frame_def)
  qed
  show "read_label p l = Some t" if "enc_label_tag (st, b) l = Some t"
  proof -
    have nat: "string_pprof (nat x) = x" if "\<not> x < 0" for x using that by (simp add: string_pprof_def)
    show ?thesis
      using that rd [of "nat (label_key l)"] rd [of "nat (label_str l)"] nat
      by (auto simp: enc_label_tag_def read_label_def split: Option.bind_splits if_splits)
  qed
qed

lemma read_final_samples:
  assumes "enc_wf (st, b)" "into_pprof_table st = Some v" "enc_samples (st, b) rs"
  shows "pprof_samples ((b_profile b)\<lparr>p_string_table := v\<rparr>) = Some rs"
  using map_eq_Some_mono [OF assms(3) [unfolded enc_samples_def]
      resolve_sample_mono [OF _ read_final(2,3) [OF assms(1,2)]]]
  by (simp add: pprof_samples_def those_eq_Some)

lemma add_value_type_ok:
  assumes "st_wf st" "add_value_type ty un st = Some (vt, st')"
  shows "st_wf st' \<and> (\<exists>i j. vt = \<lparr>vt_type = string_pprof i, vt_unit = string_pprof j\<rparr> \<and>
      st_string st' i = Some ty \<and> st_string st' j = Some un) \<and>
    (\<forall>j s. st_string st j = Some s \<longrightarrow> st_string st' j = Some s)"
proof -
  obtain i st1 j where s: "st_add ty st = Some (i, st1)" "st_add un st1 = Some (j, st')"
    "vt = \<lparr>vt_type = string_pprof i, vt_unit = string_pprof j\<rparr>"
    using assms(2) by (auto simp: add_value_type_def split: Option.bind_splits)
  note W1 = strings.intern_wf [OF assms(1) s(1)]
  show ?thesis
    using s(3) strings.intern_wf [OF W1 s(2)] strings.intern_names [OF assms(1) s(1)]
      strings.intern_names [OF W1 s(2)] strings.intern_keeps [OF assms(1) s(1)]
      strings.intern_keeps [OF W1 s(2)] by blast
qed

lemma pyspy_profile_type_ok:
  assumes "st_wf st" "pyspy_profile_type rate p st = Some (p', st')"
  obtains a b where "rate \<noteq> 0" "st_wf st'"
    "p' = p\<lparr>p_sample_type := [a], period := 1000000000 div int rate, period_type := Some b\<rparr>"
    "\<exists>i j. a = \<lparr>vt_type = string_pprof i, vt_unit = string_pprof j\<rparr> \<and>
      st_string st' i = Some ''cpu'' \<and> st_string st' j = Some ''nanoseconds''"
proof -
  obtain a st1 b where s: "add_value_type ''cpu'' ''nanoseconds'' st = Some (a, st1)"
    "add_value_type ''cpu'' ''nanoseconds'' st1 = Some (b, st')" "rate \<noteq> 0"
    "p' = p\<lparr>p_sample_type := [a], period := 1000000000 div int rate, period_type := Some b\<rparr>"
    using assms(2) by (auto simp: pyspy_profile_type_def split: Option.bind_splits if_splits)
  note A = add_value_type_ok [OF assms(1) s(1)]
  note B = add_value_type_ok [OF conjunct1 [OF A] s(2)]
  show thesis
    by (rule that [OF s(3) _ s(4)]) (use A B in blast)+
qed

lemma encode_ok:
  assumes "encode reports rate tr = Some p"
  shows "rate \<noteq> 0 \<and>
    pprof_samples p = Some (List.map (expected_sample (1000000000 div int rate))
      (concat (List.map report_data reports))) \<and>
    pprof_sample_types p = Some [(''cpu'', ''nanoseconds'')] \<and>
    period p = 1000000000 div int rate \<and> p_string_table p ! 0 = '''' \<and>
    time_nanos p = as_i64 (int (as_u64 (int (fst tr)))) \<and>
    duration_nanos p = as_i64 (int (as_u64 (int (snd tr))))"
proof -
  let ?b0 = "set_time_range tr builder_new"
  let ?ts = "concat (List.map report_data reports)"
  obtain st0 p1 st1 st2 b v where s: "st_new = Some st0"
    "pyspy_profile_type rate (b_profile ?b0) st0 = Some (p1, st1)"
    "add_stacktraces ?ts (st1, ?b0\<lparr>b_profile := p1\<rparr>) = Some (st2, b)"
    "into_pprof_table st2 = Some v" "p = (b_profile b)\<lparr>p_string_table := v\<rparr>"
    using assms by (auto simp: encode_def Let_def split: Option.bind_splits)
  obtain a c where t: "rate \<noteq> 0" "st_wf st1"
    "p1 = (b_profile ?b0)\<lparr>p_sample_type := [a], period := 1000000000 div int rate, period_type := Some c\<rparr>"
    "\<exists>i j. a = \<lparr>vt_type = string_pprof i, vt_unit = string_pprof j\<rparr> \<and>
      st_string st1 i = Some ''cpu'' \<and> st_string st1 j = Some ''nanoseconds''"
    using pyspy_profile_type_ok [OF st_new_wf [OF s(1)] s(2)] .
  let ?e1 = "(st1, ?b0\<lparr>b_profile := p1\<rparr>)"
  have wf: "enc_wf ?e1" "enc_samples ?e1 []"
    using t(2,3) by (simp_all add: enc_wf_def enc_samples_def builder_wf_def set_time_range_def
        builder_new_def profile_default_def)
  note O = add_stacktraces_ok [OF wf s(3)]
  have W: "enc_wf (st2, b)" "st_wf st2" "builder_wf b" using O by (simp_all add: enc_wf_def)
  note R = read_final [OF W(1) s(4), folded s(5)]
  obtain i j where a: "a = \<lparr>vt_type = string_pprof i, vt_unit = string_pprof j\<rparr>"
    "st_string st1 i = Some ''cpu''" "st_string st1 j = Some ''nanoseconds''" using t(4) by blast
  have "st_string st2 i = Some ''cpu''" "st_string st2 j = Some ''nanoseconds''" using O a by simp_all
  then have "pprof_sample_types p = Some [(''cpu'', ''nanoseconds'')]"
    using R(1) O t(3) by (simp add: pprof_sample_types_def s(5) same_header_def a(1))
  moreover have "p_string_table p ! 0 = ''''"
    using pprof_table_spec [OF W(2)] s(4,5) by (metis option.inject profile.select_convs(6) profile.surjective profile.update_convs(6))
  moreover have "pprof_samples p = Some (List.map (expected_sample (1000000000 div int rate)) ?ts)"
    using read_final_samples [OF W(1) s(4)] O t(3) unfolding s(5) by simp
  ultimately show ?thesis
    using O t(1,3) by (simp add: s(5) same_header_def set_time_range_def)
qed

subsection \<open>Encoding does not panic while the string table has room\<close>

definition strings_needed :: "stack_trace \<Rightarrow> nat" where
  "strings_needed t = 2 * length (frames t) + 2 * length (tags (metadata t))"

lemma st_add2_total:
  assumes "length st + 2 \<le> u32_max"
  shows "\<exists>i st1 j st2. st_add s st = Some (i, st1) \<and> st_add s' st1 = Some (j, st2) \<and>
    length st2 \<le> length st + 2"
proof -
  obtain i st1 where 1: "st_add s st = Some (i, st1)" "length st1 \<le> Suc (length st)"
    using st_add_total [of st s] assms by auto
  obtain j st2 where "st_add s' st1 = Some (j, st2)" "length st2 \<le> Suc (length st1)"
    using st_add_total [of st1 s'] assms 1(2) by auto
  with 1 show ?thesis by auto
qed

lemma intern_stack_frames_total:
  assumes "enc_wf (st, b)" "length st + 2 * length frs \<le> u32_max"
  shows "\<exists>is st' b'. intern_all add_stack_frame frs (st, b) = Some (is, st', b') \<and>
    length st' \<le> length st + 2 * length frs"
  using assms
proof (induction frs arbitrary: st b)
  case (Cons sf frs)
  have "length st + 2 \<le> u32_max" using Cons.prems(2) by simp
  then obtain nm st1 fl st2 where s: "st_add (name sf) st = Some (nm, st1)"
    "st_add (filename sf) st1 = Some (fl, st2)" "length st2 \<le> length st + 2"
    using st_add2_total by metis
  obtain i b' where "add_ffi_frame \<lparr>function_name = nm, file_name = fl, ffi_line = int (line sf)\<rparr> b = Some (i, b')"
    using add_ffi_frame_ok Cons.prems(1) unfolding enc_wf_def by (metis snd_conv)
  then have a: "add_stack_frame sf (st, b) = Some (i, (st2, b'))" by (simp add: add_stack_frame_alt s)
  then have "enc_wf (st2, b')" using add_stack_frame_ok [OF Cons.prems(1) a] by simp
  then obtain "is" st' b2 where "intern_all add_stack_frame frs (st2, b') = Some (is, st', b2)"
    "length st' \<le> length st2 + 2 * length frs"
    using Cons.IH [of st2 b'] Cons.prems(2) s(3) by auto
  then show ?case using a s(3) by auto
qed simp

lemma add_labels_total:
  assumes "length st + 2 * length ts \<le> u32_max"
  shows "\<exists>ls st'. add_labels ts st = Some (ls, st') \<and> length st' \<le> length st + 2 * length ts"
  using assms
proof (induction ts arbitrary: st)
  case (Cons t ts)
  have "length st + 2 \<le> u32_max" using Cons.prems by simp
  then obtain i st1 j st2 where s: "st_add (key t) st = Some (i, st1)"
    "st_add (tag_value t) st1 = Some (j, st2)" "length st2 \<le> length st + 2"
    using st_add2_total by metis
  then obtain ls st' where "add_labels ts st2 = Some (ls, st')" "length st' \<le> length st2 + 2 * length ts"
    using Cons.IH [of st2] Cons.prems by auto
  then show ?case using s by auto
qed simp

lemma add_stacktrace_total:
  assumes "enc_wf (st, b)" "length st + strings_needed t \<le> u32_max"
  shows "\<exists>st' b'. add_stacktrace t n (st, b) = Some (st', b') \<and> length st' \<le> length st + strings_needed t"
proof -
  obtain "is" st1 b1 where 1: "intern_all add_stack_frame (frames t) (st, b) = Some (is, st1, b1)"
    "length st1 \<le> length st + 2 * length (frames t)"
    using intern_stack_frames_total [OF assms(1), of "frames t"] assms(2)
    by (auto simp: strings_needed_def)
  obtain ls st2 where "add_labels (tags (metadata t)) st1 = Some (ls, st2)"
    "length st2 \<le> length st1 + 2 * length (tags (metadata t))"
    using add_labels_total [of st1 "tags (metadata t)"] assms(2) 1(2) by (auto simp: strings_needed_def)
  then show ?thesis using 1 by (simp add: add_stacktrace_def strings_needed_def)
qed

lemma add_stacktraces_total:
  assumes "enc_wf (st, b)" "enc_samples (st, b) rs"
    "length st + (\<Sum>tn\<leftarrow>ts. strings_needed (fst tn)) \<le> u32_max"
  shows "\<exists>e'. add_stacktraces ts (st, b) = Some e'"
  using assms
proof (induction ts arbitrary: st b rs)
  case (Cons x ts)
  obtain t n where x: "x = (t, n)" by (cases x)
  obtain st1 b1 where a: "add_stacktrace t n (st, b) = Some (st1, b1)"
    "length st1 \<le> length st + strings_needed t"
    using add_stacktrace_total [OF Cons.prems(1), of t n] Cons.prems(3) by (auto simp: x)
  note O = add_stacktrace_ok [OF Cons.prems(1,2) a(1)]
  show ?case
    using Cons.IH [OF conjunct1 [OF O] conjunct1 [OF conjunct2 [OF O]]] Cons.prems(3) a
    by (simp add: x)
qed simp

lemma encode_total:
  assumes "rate \<noteq> 0"
    and "5 + (\<Sum>tn\<leftarrow>concat (List.map report_data reports). strings_needed (fst tn)) \<le> u32_max"
  shows "\<exists>p. encode reports rate tr = Some p"
proof -
  let ?b0 = "set_time_range tr builder_new"
  let ?ts = "concat (List.map report_data reports)"
  obtain i st1 j st2 where 1: "st_add ''cpu'' [('''', 0)] = Some (i, st1)"
    "st_add ''nanoseconds'' st1 = Some (j, st2)" "length st2 \<le> 3"
    using st_add2_total [of "[('''', 0)]" "''cpu''" "''nanoseconds''"] assms(2) by auto
  obtain k st3 l st4 where 2: "st_add ''cpu'' st2 = Some (k, st3)"
    "st_add ''nanoseconds'' st3 = Some (l, st4)" "length st4 \<le> 5"
    using st_add2_total [of st2 "''cpu''" "''nanoseconds''"] assms(2) 1(3) by auto
  obtain p1 where p: "pyspy_profile_type rate (b_profile ?b0) [('''', 0)] = Some (p1, st4)"
    "p_sample p1 = []" "p_function p1 = []" "p_location p1 = []"
    using assms(1) 1 2
    by (simp add: pyspy_profile_type_def add_value_type_def set_time_range_def builder_new_def
        profile_default_def)
  have W4: "st_wf st4"
    using strings.intern_wf st_new_wf [OF st_new_eq] 1(1,2) 2(1,2) by metis
  have wf: "enc_wf (st4, ?b0\<lparr>b_profile := p1\<rparr>)" "enc_samples (st4, ?b0\<lparr>b_profile := p1\<rparr>) []"
    using W4 p by (simp_all add: enc_wf_def enc_samples_def builder_wf_def set_time_range_def builder_new_def)
  obtain e' where e: "add_stacktraces ?ts (st4, ?b0\<lparr>b_profile := p1\<rparr>) = Some e'"
    using add_stacktraces_total [OF wf, of ?ts] assms(2) 2(3) by auto
  have "st_wf (fst e')" using add_stacktraces_ok [OF wf e] by (simp add: enc_wf_def)
  then obtain v where "into_pprof_table (fst e') = Some v" using pprof_table_spec by metis
  then show ?thesis
    using e by (cases e') (simp add: encode_def st_new_eq p(1) Let_def)
qed

lemma sum_sample_ne [simp]: "sum_sample s m \<noteq> []"
  using map_keys_update [of "fst s" _ m] by (force simp: sum_sample_def map_keys_def)

lemma sum_samples_ne:
  "ss \<noteq> [] \<or> m \<noteq> [] \<Longrightarrow> fold (\<lambda>(frs, v). sum_sample (frs, slots v)) ss m \<noteq> []"
  by (induction ss arbitrary: m) (auto simp: case_prod_beta)

lemma list_all2_map_eq:
  assumes "list_all2 P xs ys" "\<And>x y. P x y \<Longrightarrow> f x = g y"
  shows "List.map f xs = List.map g ys"
  using assms by (induction rule: list_all2_induct) auto

text \<open>
  What a builder yields at the end of a window: nothing, or one sample per accumulated stack, with
  the header that was set before and the strings of the table; and how it is left.
\<close>

lemma take_profile_ok:
  assumes I: "ffi_inv b m" "p_sample (b_profile b) = []" and st: "st_wf st"
  shows "case take_profile_and_reset st tr b of
      None \<Rightarrow> False
    | Some (None, b') \<Rightarrow> m = [] \<and> b' = builder_reset b
    | Some (Some p, b') \<Rightarrow> m \<noteq> [] \<and> b' = builder_new \<and>
        into_pprof_table st = Some (p_string_table p) \<and>
        p_sample_type p = p_sample_type (b_profile b) \<and> period p = period (b_profile b) \<and>
        period_type p = period_type (b_profile b) \<and>
        List.map (\<lambda>s. (List.map (read_location p) (location_id s), sample_value s)) (p_sample p) =
        List.map (\<lambda>(frs, v). (List.map (\<lambda>f. Some (string_pprof (function_name f),
                                string_pprof (file_name f), ffi_line f)) frs, v)) m"
proof -
  have wf: "builder_wf b" and L: "list_all2 (\<lambda>(is, v) (frs, w). stack_ids b frs is \<and> v = w) (ffi_samples b) m"
    using I by (simp_all add: ffi_inv_def)
  obtain v where v: "clone_pprof_table st dst = Some v" "into_pprof_table st = Some v" for dst
    using pprof_table_spec [OF st] by metis
  let ?s = "List.map (\<lambda>(ids, v). \<lparr>location_id = ids, sample_value = v, sample_label = []\<rparr>) (ffi_samples b)"
  show ?thesis
  proof (cases "m = []")
    case True
    then have e: "ffi_samples b = []" using L by simp
    then have "take_profile_and_reset st tr b = Some (None, builder_reset b)"
      using I(2) by (cases b; cases "b_profile b")
        (simp add: take_profile_and_reset_def flush_ffi_samples_def Let_def builder_reset_def)
    then show ?thesis using True by simp
  next
    case False
    then have ne: "?s \<noteq> []" using L by auto
    define p where "p = (b_profile b)\<lparr>p_sample := ?s,
        time_nanos := as_i64 (int (as_u64 (int (fst tr)))),
        duration_nanos := as_i64 (int (as_u64 (int (snd tr)))), p_string_table := v\<rparr>"
    have r: "take_profile_and_reset st tr b = Some (Some p, builder_new)"
      using ne I(2) v
      by (simp add: take_profile_and_reset_def flush_ffi_samples_def set_time_range_def p_def
          builder_reset_def builder_new_def profile_default_def Let_def)
    have loc: "List.map (read_location p) is = List.map (\<lambda>f. Some (string_pprof (function_name f),
        string_pprof (file_name f), ffi_line f)) frs" if "stack_ids b frs is" for frs "is"
      using that read_location_builder [OF wf, of _ _ p]
      by (auto simp: stack_ids_def list_eq_iff_nth_eq p_def)
    have "List.map (\<lambda>(is, v). (List.map (read_location p) is, v)) (ffi_samples b) =
        List.map (\<lambda>(frs, v). (List.map (\<lambda>f. Some (string_pprof (function_name f),
          string_pprof (file_name f), ffi_line f)) frs, v)) m"
      by (rule list_all2_map_eq [OF L]) (use loc in auto)
    moreover have "List.map (\<lambda>s. (List.map (read_location p) (location_id s), sample_value s)) (p_sample p) =
        List.map (\<lambda>(is, v). (List.map (read_location p) is, v)) (ffi_samples b)"
      by (simp add: p_def comp_def case_prod_beta)
    ultimately show ?thesis using r False v(2) by (simp add: p_def)
  qed
qed

subsection \<open>Properties\<close>

text \<open>
  C9: Encoding loses nothing: whatever reports are encoded, a reader that resolves locations,
  functions and string indices in the profile gets back, in order, every stack trace with its
  frames (innermost first), its tags as labels, and its count times the period; the sample type
  is \<open>cpu\<close> in nanoseconds. It does not panic for a positive rate while the strings fit a table.
\<close>

theorem encode_roundtrip:
  assumes "0 < rate"
    and "5 + (\<Sum>tn\<leftarrow>concat (List.map report_data reports). strings_needed (fst tn)) \<le> u32_max"
  shows "\<exists>p. encode reports rate tr = Some p \<and>
    pprof_samples p = Some (List.map
      (\<lambda>(t, n). (frames t, tags (metadata t), [sample_total n (1000000000 div int rate)]))
      (concat (List.map report_data reports))) \<and>
    pprof_sample_types p = Some [(''cpu'', ''nanoseconds'')] \<and> p_string_table p ! 0 = ''''"
proof -
  obtain p where p: "encode reports rate tr = Some p"
    using encode_total [of rate reports tr] assms by auto
  have "(\<lambda>(t, n). (frames t, tags (metadata t), [sample_total n (1000000000 div int rate)])) =
      expected_sample (1000000000 div int rate)"
    by (simp add: fun_eq_iff expected_sample_def)
  then show ?thesis using encode_ok [OF p] p by simp
qed

text \<open>With a sample rate of zero, encoding panics, whatever there is to encode.\<close>

theorem encode_zero_rate_panics: "encode reports 0 tr = None"
  using encode_ok [of reports 0 tr] by (cases "encode reports 0 tr") auto

text \<open>
  A window of native samples becomes exactly one profile: none when there were no samples;
  otherwise one sample per distinct stack, whose values are the saturating sums of that
  stack's values in order of arrival, and whose location identifiers
  resolve to that stack's frames. Afterwards the builder is as new.
\<close>

theorem native_window_profile:
  assumes "add_ffi_samples slots ss builder_new = Some b" and "st_wf st"
  shows "(case take_profile_and_reset st tr b of
      None \<Rightarrow> False
    | Some (None, b') \<Rightarrow> ss = [] \<and> b' = builder_new
    | Some (Some p, b') \<Rightarrow> ss \<noteq> [] \<and> b' = builder_new \<and>
        List.map (\<lambda>s. (List.map (read_location p) (location_id s), sample_value s)) (p_sample p) =
        List.map (\<lambda>(frs, v). (List.map (\<lambda>f. Some (string_pprof (function_name f),
                                string_pprof (file_name f), ffi_line f)) frs, v))
          (fold (\<lambda>(frs, v). sum_sample (frs, slots v)) ss []))"
proof -
  define m where "m = fold (\<lambda>(frs, v). sum_sample (frs, slots v)) ss []"
  have I: "ffi_inv b m" "p_sample (b_profile b) = []"
    using add_ffi_samples_inv [OF ffi_inv_new, of slots ss] assms(1)
    by (auto simp: m_def builder_new_def profile_default_def)
  have "builder_reset builder_new = builder_new"
    by (simp add: builder_reset_def builder_new_def profile_default_def)
  moreover have "ss = [] \<Longrightarrow> b = builder_new" using assms(1) by simp
  moreover have "m = [] \<longleftrightarrow> ss = []"
    using sum_samples_ne [of ss "[]" slots] by (auto simp: m_def)
  ultimately show ?thesis
    using take_profile_ok [OF I assms(2), of tr] unfolding m_def [symmetric]
    by (auto split: option.splits)
qed

subsection \<open>Witnesses\<close>

definition example_stack :: stack_trace where
  "example_stack = \<lparr>pid = None, thread_id = None, thread_name = None,
     frames = [\<lparr>name = ''f'', filename = ''a.py'', line = 3\<rparr>, \<lparr>name = ''g'', filename = ''a.py'', line = 9\<rparr>],
     metadata = \<lparr>tags = [Tag ''k'' ''v'']\<rparr>\<rparr>"

theorem encode_roundtrip_witness:
  "\<exists>p. encode [\<lparr>report_data = [(example_stack, 3)], report_metadata = metadata_default\<rparr>] 100 (0, 0) = Some p \<and>
     pprof_samples p = Some [(frames example_stack, [Tag ''k'' ''v''], [30000000])]"
proof -
  let ?r = "[\<lparr>report_data = [(example_stack, 3)], report_metadata = metadata_default\<rparr>]"
  have "5 + (\<Sum>tn\<leftarrow>concat (List.map report_data ?r). strings_needed (fst tn)) \<le> u32_max"
    by (simp add: strings_needed_def example_stack_def u32_max_eq)
  then obtain p where "encode ?r 100 (0, 0) = Some p"
    "pprof_samples p = Some (List.map
      (\<lambda>(t, n). (frames t, tags (metadata t), [sample_total n (1000000000 div int 100)]))
      (concat (List.map report_data ?r)))"
    using encode_roundtrip [of 100 ?r "(0, 0)"] by auto
  then show ?thesis by (auto simp: sample_total_def as_i64_def example_stack_def)
qed

theorem native_window_profile_witness:
  "\<exists>b p b'. add_ffi_samples cpu_value_slots
       [([\<lparr>function_name = 1, file_name = 2, ffi_line = 7\<rparr>],
         \<lparr>cpu_time = 5, wall_time = 0, alloc_space = 0, alloc_count = 0, heap_space = 0, heap_count = 0\<rparr>),
        ([\<lparr>function_name = 1, file_name = 2, ffi_line = 7\<rparr>],
         \<lparr>cpu_time = i64_max, wall_time = 0, alloc_space = 0, alloc_count = 0, heap_space = 0, heap_count = 0\<rparr>)]
       builder_new = Some b \<and>
     take_profile_and_reset [('''', 0)] (0, 0) b = Some (Some p, b') \<and>
     List.map sample_value (p_sample p) = [[i64_max]]"
proof -
  let ?f = "[\<lparr>function_name = 1, file_name = 2, ffi_line = 7\<rparr>]"
  let ?v = "\<lambda>t. \<lparr>cpu_time = t, wall_time = 0, alloc_space = 0, alloc_count = 0, heap_space = 0, heap_count = 0\<rparr>"
  let ?ss = "[(?f, ?v 5), (?f, ?v i64_max)]"
  obtain b where b: "add_ffi_samples cpu_value_slots ?ss builder_new = Some b"
    using add_ffi_samples_inv [OF ffi_inv_new] by metis
  note T = native_window_profile [OF b st_new_wf [OF st_new_eq], of "(0, 0)"]
  have sum: "fold (\<lambda>(frs, v). sum_sample (frs, cpu_value_slots v)) ?ss [] = [(?f, [i64_max])]"
    by (simp add: sum_sample_pair cpu_value_slots_def accumulate_def sat_add_i64_def sat_i64_def
        i64_max_def i64_min_def)
  obtain p b' where p: "take_profile_and_reset [('''', 0)] (0, 0) b = Some (Some p, b')"
    "List.map (\<lambda>s. (List.map (read_location p) (location_id s), sample_value s)) (p_sample p) =
     List.map (\<lambda>(frs, v). (List.map (\<lambda>f. Some (string_pprof (function_name f),
         string_pprof (file_name f), ffi_line f)) frs, v)) [(?f, [i64_max])]"
    using T unfolding sum by (auto split: option.splits)
  from arg_cong [OF p(2), of "List.map snd"] have "List.map sample_value (p_sample p) = [[i64_max]]"
    by (simp add: comp_def)
  then show ?thesis by (intro exI [of _ b] exI [of _ p] exI [of _ b'] conjI b p(1))
qed

end
