(* ===== verification/Time_Range.thy ===== *)
theory Time_Range
  imports Errors
begin

text \<open>
  \<open>rust/src/utils.rs\<close>: \<open>TimeRange\<close>; and the \<open>StopWatch\<close> of \<open>rust/src/pyroscope.rs\<close> that cuts
  time into ranges. A \<open>SystemTime\<close> is its distance from the Unix epoch in nanoseconds, which is
  negative before the epoch; the clock may be set back. A reading of the clock is an argument.
\<close>

type_synonym system_time = int
type_synonym time_range = "nat \<times> nat"  \<comment> \<open>start since the epoch and duration, in nanoseconds\<close>

definition time_range_new :: "system_time \<Rightarrow> system_time \<Rightarrow> pyroscope_error + time_range" where
  "time_range_new from_time until =
     (if from_time < 0 then Inl TimeSource
      else Inr (nat from_time, if until < from_time then 0 else nat (until - from_time)))"

definition start_time_unix :: "time_range \<Rightarrow> nat" where "start_time_unix tr = fst tr"

definition duration :: "time_range \<Rightarrow> nat" where "duration tr = snd tr"

record stop_watch =
  sw_start :: system_time

definition stop_watch_new :: "system_time \<Rightarrow> stop_watch" where
  "stop_watch_new now = \<lparr>sw_start = now\<rparr>"

definition lap :: "system_time \<Rightarrow> stop_watch \<Rightarrow> (pyroscope_error + time_range) \<times> stop_watch" where
  "lap now sw =
     (let until = now
      in case time_range_new (sw_start sw) until of
           Inl e \<Rightarrow> (Inl e, sw)
         | Inr res \<Rightarrow> (Inr res, sw\<lparr>sw_start := until\<rparr>))"

fun laps :: "system_time list \<Rightarrow> stop_watch \<Rightarrow> (pyroscope_error + time_range) list \<times> stop_watch" where
  "laps [] sw = ([], sw)"
| "laps (now # ts) sw =
     (let (r, sw) = lap now sw; (rs, sw) = laps ts sw in (r # rs, sw))"

text \<open>The ranges between consecutive readings.\<close>

fun ranges :: "system_time \<Rightarrow> system_time list \<Rightarrow> time_range list" where
  "ranges s [] = []"
| "ranges s (t # ts) = (nat s, nat (t - s)) # ranges t ts"

lemma laps_ranges:
  assumes "0 \<le> sw_start sw" "\<forall>t\<in>set ts. 0 \<le> t"
  shows "laps ts sw = (List.map Inr (ranges (sw_start sw) ts), sw\<lparr>sw_start := last (sw_start sw # ts)\<rparr>)"
  using assms
proof (induction ts arbitrary: sw)
  case (Cons t ts)
  have "lap t sw = (Inr (nat (sw_start sw), nat (t - sw_start sw)), sw\<lparr>sw_start := t\<rparr>)"
    using Cons.prems by (simp add: lap_def time_range_new_def)
  then show ?case using Cons.IH [of "sw\<lparr>sw_start := t\<rparr>"] Cons.prems by simp
qed simp

lemma ranges_tile:
  assumes "sorted (s # ts)" "0 \<le> s"
  shows "List.map fst (ranges s ts) = List.map nat (butlast (s # ts)) \<and>
    (\<Sum>r\<leftarrow>ranges s ts. snd r) = nat (last (s # ts) - s)"
  using assms
proof (induction ts arbitrary: s)
  case (Cons t ts)
  have "s \<le> t" "t \<le> last (t # ts)" using Cons.prems by (auto intro: order_trans)
  then show ?case using Cons.IH [of t] Cons.prems by (simp add: nat_diff_distrib)
qed simp

lemma ranges_contiguous:
  assumes "sorted (s # ts)" "0 \<le> s" "Suc i < length ts"
  shows "fst (ranges s ts ! Suc i) = fst (ranges s ts ! i) + snd (ranges s ts ! i)"
  using assms
proof (induction ts arbitrary: s i)
  case (Cons t ts)
  show ?case
  proof (cases i)
    case 0
    then show ?thesis using Cons.prems by (cases ts) (auto simp: nat_add_distrib [symmetric])
  next
    case (Suc j)
    then show ?thesis using Cons.IH [of t j] Cons.prems by simp
  qed
qed simp

lemma length_ranges [simp]: "length (ranges s ts) = length ts"
  by (induction ts arbitrary: s) simp_all

text \<open>
  The laps of the stop watch cut time without gaps. While the clock does not run backwards,
  each lap starts where the previous one ended, and the durations add up to the time between the
  start and the last reading.
\<close>

lemma laps_tile_time:
  assumes "sorted (start # ts)" and "0 \<le> start"
  shows "\<exists>rs. laps ts (stop_watch_new start) = (List.map Inr rs, stop_watch_new (last (start # ts))) \<and>
    length rs = length ts \<and> (\<forall>i. Suc i < length ts \<longrightarrow> fst (rs ! Suc i) = fst (rs ! i) + snd (rs ! i)) \<and>
    (\<Sum>r\<leftarrow>rs. snd r) = nat (last (start # ts) - start)"
proof -
  have "\<forall>t\<in>set ts. 0 \<le> t" using assms by (auto intro: order_trans)
  then have "laps ts (stop_watch_new start) =
      (List.map Inr (ranges start ts), stop_watch_new (last (start # ts)))"
    using laps_ranges [of "stop_watch_new start" ts] assms(2) by (simp add: stop_watch_new_def)
  then show ?thesis
    using ranges_tile [OF assms] ranges_contiguous [OF assms] by (intro exI [of _ "ranges start ts"]) simp
qed

end
