(* ===== verification/Native_Profile.thy ===== *)
theory Native_Profile
  imports Pprof Time_Range
begin

text \<open>
  What native code and the Rust profilers share: the interner and the three profile builders
  (\<open>PROFILE_BUILDER\<close> of \<open>rust/src/memory.rs\<close>, \<open>PROFILE_BUILDER\<close> and \<open>ONCPU_PROFILE_BUILDER\<close> of
  \<open>rust/src/stack/mod.rs\<close>), the entry point \<open>rust/src/ffi.rs\<close>, and the dump of a builder. The
  memory allocation hooks and the stack sampler are native code: what they do is a list of calls
  into Rust. A panic of a function called from native code ends the process: \<open>None\<close>.
\<close>

subsection \<open>Shared state and the native entry points\<close>

record native =
  nt_interner :: interner
  nt_memory :: "builder mutex"
  nt_cpu_wall :: "builder mutex"
  nt_oncpu :: "builder mutex"

definition native_new :: "native" where
  "native_new = \<lparr>nt_interner = \<lparr>interned = [('''', 0)], table_poisoned = False\<rparr>,
     nt_memory = mutex_new builder_new, nt_cpu_wall = mutex_new builder_new,
     nt_oncpu = mutex_new builder_new\<rparr>"

datatype builder_type = Memory | CpuWall | OnCpu

text \<open>\<open>push_sample\<close> of the three builders: a poisoned lock drops the sample.\<close>

definition push_into ::
    "(ffi_values \<Rightarrow> int list) \<Rightarrow> ffi_frame list \<Rightarrow> ffi_values \<Rightarrow> builder mutex \<Rightarrow> builder mutex option" where
  "push_into slots frs values m =
     (if mutex_poisoned m then Some m
      else do { b \<leftarrow> add_ffi_sample slots frs values (mutex_value m); Some (m\<lparr>mutex_value := b\<rparr>) })"

definition memory_push_sample :: "ffi_frame list \<Rightarrow> ffi_values \<Rightarrow> native \<Rightarrow> native option" where
  "memory_push_sample frs values n =
     do { m \<leftarrow> push_into memory_value_slots frs values (nt_memory n); Some (n\<lparr>nt_memory := m\<rparr>) }"

definition stack_push_sample :: "ffi_frame list \<Rightarrow> ffi_values \<Rightarrow> native \<Rightarrow> native option" where
  "stack_push_sample frs values n =
     do { m \<leftarrow> push_into cpu_wall_value_slots frs values (nt_cpu_wall n); Some (n\<lparr>nt_cpu_wall := m\<rparr>) }"

definition push_oncpu_sample :: "ffi_frame list \<Rightarrow> ffi_values \<Rightarrow> native \<Rightarrow> native option" where
  "push_oncpu_sample frs values n =
     do { m \<leftarrow> push_into cpu_value_slots frs values (nt_oncpu n); Some (n\<lparr>nt_oncpu := m\<rparr>) }"

text \<open>\<open>pyroscope_push_sample\<close>; a null pointer is \<open>None\<close>.\<close>

definition pyroscope_push_sample ::
    "builder_type \<Rightarrow> ffi_frame list option \<Rightarrow> ffi_values option \<Rightarrow> native \<Rightarrow> native option" where
  "pyroscope_push_sample bt frs values n =
     (case (frs, values) of
        (Some frs, Some values) \<Rightarrow>
          if frs = [] then Some n
          else (case bt of
                  Memory \<Rightarrow> memory_push_sample frs values n
                | CpuWall \<Rightarrow> stack_push_sample frs values n
                | OnCpu \<Rightarrow> push_oncpu_sample frs values n)
      | _ \<Rightarrow> Some n)"

datatype native_call =
    Intern_Utf8 "string option"
  | Intern_Ascii "string option"
  | Push builder_type "ffi_frame list option" "ffi_values option"

fun native_call_run :: "native_call \<Rightarrow> native \<Rightarrow> native option" where
  "native_call_run (Intern_Utf8 s) n =
     do { (_, w) \<leftarrow> intern_utf8 s (nt_interner n); Some (n\<lparr>nt_interner := w\<rparr>) }"
| "native_call_run (Intern_Ascii s) n =
     do { (_, w) \<leftarrow> intern_ascii s (nt_interner n); Some (n\<lparr>nt_interner := w\<rparr>) }"
| "native_call_run (Push bt frs values) n = pyroscope_push_sample bt frs values n"

fun native_calls_run :: "native_call list \<Rightarrow> native \<Rightarrow> native option" where
  "native_calls_run [] n = Some n"
| "native_calls_run (c # cs) n = do { n \<leftarrow> native_call_run c n; native_calls_run cs n }"

subsection \<open>Dumping and clearing a builder\<close>

text \<open>\<open>dump_from\<close>, and the locked part of \<open>memory::dump_pprof\<close>; \<open>set_type\<close> is \<open>set_profile_type\<close>.\<close>

definition dump_from ::
    "(profile \<Rightarrow> string_table \<Rightarrow> (profile \<times> string_table) option) \<Rightarrow> time_range \<Rightarrow>
     interner \<times> builder mutex \<Rightarrow> (profile option \<times> interner \<times> builder mutex) option" where
  "dump_from set_type tr x =
     (let (w, m) = x in
      if table_poisoned w \<or> mutex_poisoned m then Some (None, w, m)
      else
        do { (p, st) \<leftarrow> set_type (b_profile (mutex_value m)) (interned w);
             (r, b) \<leftarrow> take_profile_and_reset st tr ((mutex_value m)\<lparr>b_profile := p\<rparr>);
             Some (r, w\<lparr>interned := st\<rparr>, m\<lparr>mutex_value := b\<rparr>) })"

text \<open>\<open>lock().unwrap_or_else(into_inner).reset()\<close>\<close>

definition clear_builder :: "builder mutex \<Rightarrow> builder mutex" where
  "clear_builder m = m\<lparr>mutex_value := builder_reset (mutex_value m)\<rparr>"

subsection \<open>What a profiler promises\<close>

text \<open>
  The contract of the two native profilers towards the agent: from being off, a successful start
  switches it on exactly if the configuration enables it; a stop switches it off whatever happened
  before, also after a start that failed half way.
\<close>

locale profiler =
  fixes start :: "'c \<Rightarrow> 's \<Rightarrow> (string + unit) \<times> 's"
    and stop :: "'s \<Rightarrow> 's"
    and ok :: "'s \<Rightarrow> bool"
    and on :: "'s \<Rightarrow> bool"
    and enabled :: "'c \<Rightarrow> bool"
  assumes start_on: "ok s \<Longrightarrow> \<not> on s \<Longrightarrow> start c s = (r, s') \<Longrightarrow> ok s' \<and> (r = Inr () \<longrightarrow> on s' = enabled c)"
    and stop_off: "ok s \<Longrightarrow> ok (stop s) \<and> \<not> on (stop s)"
begin

lemma start_or_stop:
  assumes "ok s" "\<not> on s" "start c s = (r, s')"
  shows "on (if r = Inr () then s' else stop s') \<longleftrightarrow> r = Inr () \<and> enabled c"
  using start_on [OF assms] stop_off [of s'] by auto

lemma restart:
  assumes "ok s" "start c (stop s) = (r, s')"
  shows "ok s' \<and> (r = Inr () \<longrightarrow> on s' = enabled c) \<and> \<not> on (stop s')"
  using start_on [of "stop s" c r s'] stop_off [of s'] stop_off [of s] assms by blast

end

subsection \<open>What a window holds\<close>

text \<open>The builder of one kind with the samples pushed since the last dump, summed per stack.\<close>

definition window :: "builder mutex \<Rightarrow> (ffi_frame list \<times> int list) list \<Rightarrow> bool" where
  "window m w \<longleftrightarrow> \<not> mutex_poisoned m \<and> ffi_inv (mutex_value m) w \<and>
     p_sample (b_profile (mutex_value m)) = []"

lemma window_new: "window (mutex_new builder_new) []"
  using ffi_inv_new by (simp add: window_def mutex_new_def builder_new_def profile_default_def)

lemma window_clear: "\<not> mutex_poisoned m \<Longrightarrow> window (clear_builder m) []"
  unfolding window_def ffi_inv_def builder_wf_def
  by (simp add: clear_builder_def builder_reset_def num_wf_def)

lemma push_into_window:
  assumes "window m w"
  shows "\<exists>m'. push_into slots frs v m = Some m' \<and> window m' (sum_sample (frs, slots v) w)"
proof -
  obtain b where "add_ffi_sample slots frs v (mutex_value m) = Some b"
    "ffi_inv b (sum_sample (frs, slots v) w)" "p_sample (b_profile b) = []"
    using add_ffi_sample_inv [of "mutex_value m" w slots frs v] assms by (auto simp: window_def)
  then show ?thesis using assms by (simp add: push_into_def window_def)
qed

text \<open>Setting the sample types keeps the samples.\<close>

definition vt_named :: "string_table \<Rightarrow> value_type \<Rightarrow> string \<times> string \<Rightarrow> bool" where
  "vt_named st v tu \<longleftrightarrow>
     (\<exists>i j. v = \<lparr>vt_type = string_pprof i, vt_unit = string_pprof j\<rparr> \<and>
        st_string st i = Some (fst tu) \<and> st_string st j = Some (snd tu))"

definition sets_types ::
    "(profile \<Rightarrow> string_table \<Rightarrow> (profile \<times> string_table) option) \<Rightarrow> (string \<times> string) list \<Rightarrow> int \<Rightarrow> bool" where
  "sets_types set_type tys per \<longleftrightarrow>
     (\<forall>p st p' st'. st_wf st \<longrightarrow> set_type p st = Some (p', st') \<longrightarrow>
        st_wf st' \<and> (\<forall>j s. st_string st j = Some s \<longrightarrow> st_string st' j = Some s) \<and>
        p' = p\<lparr>p_sample_type := p_sample_type p', period := per, period_type := period_type p'\<rparr> \<and>
        list_all2 (vt_named st') (p_sample_type p') tys)"

lemma add_value_typeE:
  assumes "add_value_type ty un st = Some (vt, st')" "st_wf st"
  obtains "st_wf st'" "vt_named st' vt (ty, un)"
    "\<And>j s. st_string st j = Some s \<Longrightarrow> st_string st' j = Some s"
    "\<And>v tu. vt_named st v tu \<Longrightarrow> vt_named st' v tu"
  using add_value_type_ok [OF assms(2,1)] unfolding vt_named_def by (auto; metis)

lemma cpu_sets_types: "sets_types (cpu_profile_type per) [(''cpu'', ''nanoseconds'')] per"
  unfolding sets_types_def cpu_profile_type_def
  by (auto split: Option.bind_splits elim!: add_value_typeE)

lemma cpu_wall_sets_types:
  "sets_types (cpu_wall_profile_type per) [(''cpu'', ''nanoseconds''), (''wall'', ''nanoseconds'')] per"
  unfolding sets_types_def cpu_wall_profile_type_def
  by (auto split: Option.bind_splits elim!: add_value_typeE)

lemma memory_sets_types:
  "sets_types (memory_profile_type heap) [(''alloc_objects'', ''count''), (''alloc_space'', ''bytes''),
     (''inuse_objects'', ''count''), (''inuse_space'', ''bytes'')] (as_i64 (int heap))"
  unfolding sets_types_def memory_profile_type_def
  by (auto split: Option.bind_splits elim!: add_value_typeE)

subsection \<open>Reading native samples\<close>

text \<open>The texts of a native frame in the interner, and as a reader of a profile resolves them.\<close>

definition native_frame_text :: "string_table \<Rightarrow> ffi_frame \<Rightarrow> (string \<times> string \<times> int) option" where
  "native_frame_text st f =
     do { nm \<leftarrow> st_string st (function_name f);
          fl \<leftarrow> st_string st (file_name f);
          Some (nm, fl, ffi_line f) }"

definition read_native_frame :: "profile \<Rightarrow> nat \<Rightarrow> (string \<times> string \<times> int) option" where
  "read_native_frame p i =
     do { (n, f, l) \<leftarrow> read_location p i;
          nm \<leftarrow> read_string p n;
          fl \<leftarrow> read_string p f;
          Some (nm, fl, l) }"

definition native_samples :: "profile \<Rightarrow> ((string \<times> string \<times> int) option list \<times> int list) list" where
  "native_samples p =
     List.map (\<lambda>s. (List.map (read_native_frame p) (location_id s), sample_value s)) (p_sample p)"

definition named :: "string_table \<Rightarrow> (ffi_frame list \<times> int list) list \<Rightarrow> bool" where
  "named st w \<longleftrightarrow> (\<forall>frs\<in>fst ` set w. \<forall>f\<in>set frs. native_frame_text st f \<noteq> None)"

definition window_text ::
    "string_table \<Rightarrow> (ffi_frame list \<times> int list) list \<Rightarrow>
     ((string \<times> string \<times> int) option list \<times> int list) list" where
  "window_text st w = List.map (\<lambda>(frs, v). (List.map (native_frame_text st) frs, v)) w"

lemma native_frame_text_mono:
  assumes "\<And>j s. st_string st j = Some s \<Longrightarrow> st_string st' j = Some s" "native_frame_text st f \<noteq> None"
  shows "native_frame_text st' f = native_frame_text st f"
  using assms by (auto simp: native_frame_text_def split: Option.bind_splits)

lemma named_mono:
  assumes "\<And>j s. st_string st j = Some s \<Longrightarrow> st_string st' j = Some s" "named st w"
  shows "named st' w" "window_text st' w = window_text st w"
  using assms(2) native_frame_text_mono [OF assms(1)]
  by (fastforce simp: named_def window_text_def)+

lemma read_string_table:
  assumes "st_wf st" "into_pprof_table st = Some (p_string_table p)" "st_string st i = Some s"
  shows "read_string p (string_pprof i) = Some s"
proof -
  have m: "map_of st s = Some i" using assms(1,3) by (simp add: st_string_iff)
  obtain v where "into_pprof_table st = Some v" "length v = length st" "v ! i = s"
    using pprof_table_spec [OF assms(1)] m by metis
  then show ?thesis using st_index_lt [OF assms(1) m] assms(2) by (simp add: read_string_def string_pprof_def)
qed

lemma native_samples_window:
  assumes st: "st_wf st" "into_pprof_table st = Some (p_string_table p)" and n: "named st w"
    and s: "List.map (\<lambda>s. (List.map (read_location p) (location_id s), sample_value s)) (p_sample p) =
      List.map (\<lambda>(frs, v). (List.map (\<lambda>f. Some (string_pprof (function_name f),
                              string_pprof (file_name f), ffi_line f)) frs, v)) w"
  shows "native_samples p = window_text st w"
proof -
  let ?read = "\<lambda>x. do { (n, f, l) \<leftarrow> x; nm \<leftarrow> read_string p n; fl \<leftarrow> read_string p f; Some (nm, fl, l) }"
  have r: "read_native_frame p = ?read \<circ> read_location p"
    by (simp add: fun_eq_iff read_native_frame_def)
  have t: "?read (Some (string_pprof (function_name f), string_pprof (file_name f), ffi_line f)) = native_frame_text st f"
    if "native_frame_text st f \<noteq> None" for f
    using that read_string_table [OF st]
    by (auto simp: native_frame_text_def split: Option.bind_splits)
  have "native_samples p = List.map (\<lambda>(ls, v). (List.map ?read ls, v))
      (List.map (\<lambda>s. (List.map (read_location p) (location_id s), sample_value s)) (p_sample p))"
    by (simp add: native_samples_def r comp_def)
  also have "\<dots> = window_text st w"
    unfolding s window_text_def using n t by (auto simp: named_def comp_def)
  finally show ?thesis .
qed

lemma vt_named_types:
  assumes "st_wf st" "into_pprof_table st = Some (p_string_table p)"
    "list_all2 (vt_named st) (p_sample_type p) tys"
  shows "pprof_sample_types p = Some tys"
proof -
  have "(\<lambda>v. do { a \<leftarrow> read_string p (vt_type v); b \<leftarrow> read_string p (vt_unit v); Some (a, b) }) v = Some tu"
    if "vt_named st v tu" for v tu
    using that read_string_table [OF assms(1,2)] by (auto simp: vt_named_def)
  then have "List.map (\<lambda>v. do { a \<leftarrow> read_string p (vt_type v); b \<leftarrow> read_string p (vt_unit v); Some (a, b) })
      (p_sample_type p) = List.map Some tys"
    by (intro list_all2_map_eq [OF assms(3)])
  then show ?thesis by (simp only: pprof_sample_types_def those_map_Some)
qed

text \<open>What a dump yields from a window, and how it leaves the builder.\<close>

lemma dump_from_ok:
  assumes w: "window m w" and i: "st_wf (interned i)" "\<not> table_poisoned i" and n: "named (interned i) w"
    and ty: "sets_types set_type tys per" and d: "dump_from set_type tr (i, m) = Some (r, i', m')"
  shows "window m' [] \<and> st_wf (interned i') \<and> \<not> table_poisoned i' \<and>
    (\<forall>j s. st_string (interned i) j = Some s \<longrightarrow> st_string (interned i') j = Some s) \<and>
    (case r of None \<Rightarrow> w = []
     | Some p \<Rightarrow> w \<noteq> [] \<and> pprof_sample_types p = Some tys \<and> period p = per \<and>
         native_samples p = window_text (interned i) w)"
proof -
  have m: "\<not> mutex_poisoned m" "ffi_inv (mutex_value m) w" "p_sample (b_profile (mutex_value m)) = []"
    using w by (simp_all add: window_def)
  obtain p st b where p: "set_type (b_profile (mutex_value m)) (interned i) = Some (p, st)"
    and t: "take_profile_and_reset st tr ((mutex_value m)\<lparr>b_profile := p\<rparr>) = Some (r, b)"
    and res: "i' = i\<lparr>interned := st\<rparr>" "m' = m\<lparr>mutex_value := b\<rparr>"
    using d i(2) m(1) by (auto simp: dump_from_def split: Option.bind_splits)
  note T = ty [unfolded sets_types_def, rule_format, OF i(1) p]
  have keep: "\<And>j s. st_string (interned i) j = Some s \<Longrightarrow> st_string st j = Some s" using T by blast
  let ?b = "(mutex_value m)\<lparr>b_profile := p\<rparr>"
  have p': "p = (b_profile (mutex_value m))\<lparr>p_sample_type := p_sample_type p, period := per, period_type := period_type p\<rparr>"
    using T by blast
  have "p_sample p = []" "period p = per" "p_function p = p_function (b_profile (mutex_value m))"
    "p_location p = p_location (b_profile (mutex_value m))"
    using m(3) by (subst p', simp)+
  moreover from this have "ffi_inv ?b w"
    using m(2) unfolding ffi_inv_def builder_wf_def stack_ids_def ffi_frame_name_def by simp
  ultimately have B: "ffi_inv ?b w" "p_sample (b_profile ?b) = []" "period p = per" by simp_all
  have st: "st_wf st" using T by blast
  note K = take_profile_ok [OF B(1,2) st, of tr, unfolded t option.case prod.case]
  have nw: "window (m\<lparr>mutex_value := builder_new\<rparr>) []"
    using window_new m(1) by (simp add: window_def mutex_new_def)
  show ?thesis
  proof (cases r)
    case None
    then have "w = []" "b = builder_reset ?b" using K by simp_all
    moreover have "window (m\<lparr>mutex_value := builder_reset ?b\<rparr>) []"
      using window_clear [of "m\<lparr>mutex_value := ?b\<rparr>"] m(1) by (simp add: clear_builder_def)
    ultimately show ?thesis using None res T i by simp
  next
    case (Some q)
    then have q: "w \<noteq> []" "b = builder_new" "into_pprof_table st = Some (p_string_table q)"
      "p_sample_type q = p_sample_type p" "period q = per"
      "native_samples q = window_text st w"
      using K B(3) native_samples_window [OF st _ named_mono(1) [OF keep n]] by simp_all
    then have "pprof_sample_types q = Some tys" using vt_named_types [OF st] T by simp
    then show ?thesis
      using q Some res T i nw named_mono(2) [OF keep n] by simp
  qed
qed

subsection \<open>Runs of native code\<close>

definition builder_for :: "builder_type \<Rightarrow> native \<Rightarrow> builder mutex" where
  "builder_for bt n = (case bt of Memory \<Rightarrow> nt_memory n | CpuWall \<Rightarrow> nt_cpu_wall n | OnCpu \<Rightarrow> nt_oncpu n)"

definition slots_for :: "builder_type \<Rightarrow> ffi_values \<Rightarrow> int list" where
  "slots_for bt = (case bt of Memory \<Rightarrow> memory_value_slots | CpuWall \<Rightarrow> cpu_wall_value_slots
                   | OnCpu \<Rightarrow> cpu_value_slots)"

text \<open>The samples a call adds to a builder, and the sums per stack of a list of calls.\<close>

fun pushed :: "builder_type \<Rightarrow> native_call \<Rightarrow> (ffi_frame list \<times> int list) list" where
  "pushed bt (Push bt' (Some frs) (Some v)) = (if bt' = bt \<and> frs \<noteq> [] then [(frs, slots_for bt v)] else [])"
| "pushed bt _ = []"

definition stack_sums ::
    "builder_type \<Rightarrow> native_call list \<Rightarrow> (ffi_frame list \<times> int list) list \<Rightarrow> (ffi_frame list \<times> int list) list" where
  "stack_sums bt cs w = fold sum_sample (concat (List.map (pushed bt) cs)) w"

text \<open>Native code that passes only identifiers it was given: every pushed frame is interned.\<close>

fun call_named :: "string_table \<Rightarrow> native_call \<Rightarrow> bool" where
  "call_named st (Push _ (Some frs) (Some _)) = list_all (\<lambda>f. native_frame_text st f \<noteq> None) frs"
| "call_named st _ = True"

fun calls_named :: "native_call list \<Rightarrow> native \<Rightarrow> bool" where
  "calls_named [] n = True"
| "calls_named (c # cs) n =
     (call_named (interned (nt_interner n)) c \<and>
      (case native_call_run c n of None \<Rightarrow> True | Some n' \<Rightarrow> calls_named cs n'))"

definition native_inv :: "native \<Rightarrow> (builder_type \<Rightarrow> (ffi_frame list \<times> int list) list) \<Rightarrow> bool" where
  "native_inv n ws \<longleftrightarrow> st_wf (interned (nt_interner n)) \<and> \<not> table_poisoned (nt_interner n) \<and>
     (\<forall>bt. window (builder_for bt n) (ws bt) \<and> named (interned (nt_interner n)) (ws bt))"

lemma native_inv_window: "native_inv n ws \<Longrightarrow> window (builder_for bt n) (ws bt)"
  by (simp add: native_inv_def)

lemma native_inv_new: "native_inv native_new (\<lambda>_. [])"
  using window_new st_new_wf [OF st_new_eq]
  by (auto simp: native_inv_def native_new_def named_def builder_for_def split: builder_type.splits)

lemma intern_ascii_spec:
  assumes "st_wf (interned w)" "\<not> table_poisoned w" "intern_ascii view w = Some (i, w')"
  shows "st_wf (interned w') \<and> \<not> table_poisoned w' \<and>
    (\<forall>j s. st_string (interned w) j = Some s \<longrightarrow> st_string (interned w') j = Some s)"
proof (cases "view = None \<or> view = Some []")
  case True
  then show ?thesis using assms by (auto simp: intern_ascii_def)
next
  case False
  then obtain bytes where "view = Some bytes" "bytes \<noteq> []" by (cases view) auto
  then have "intern_text bytes w = Some (i, w')" using assms(3) by (simp add: intern_ascii_def)
  then obtain t' where "st_add bytes (interned w) = Some (i, t')" "w' = w\<lparr>interned := t'\<rparr>"
    using assms(2) unfolding intern_text_def by (auto split: Option.bind_splits)
  note T = this
  show ?thesis
    using strings.intern_wf [OF assms(1) T(1)] strings.intern_keeps [OF assms(1) T(1)] assms(2) T(2) by simp
qed

lemma native_inv_intern:
  assumes "native_inv n ws" "st_wf (interned w)" "\<not> table_poisoned w"
    and keep: "\<And>j s. st_string (interned (nt_interner n)) j = Some s \<Longrightarrow> st_string (interned w) j = Some s"
  shows "native_inv (n\<lparr>nt_interner := w\<rparr>) ws"
proof -
  have "builder_for bt (n\<lparr>nt_interner := w\<rparr>) = builder_for bt n" for bt
    by (simp add: builder_for_def split: builder_type.splits)
  then show ?thesis using assms named_mono(1) [OF keep] by (simp add: native_inv_def)
qed

lemma named_sum_sample:
  assumes "named st w" "list_all (\<lambda>f. native_frame_text st f \<noteq> None) frs"
  shows "named st (sum_sample (frs, v) w)"
proof -
  have "fst ` set (sum_sample (frs, v) w) = insert frs (fst ` set w)"
    unfolding sum_sample_pair dom_update by (simp only: insert_is_Un [symmetric])
  then show ?thesis using assms unfolding named_def list_all_iff by (simp only: ball_simps)
qed

lemma push_run:
  assumes "native_inv n ws" "frs \<noteq> []"
  shows "\<exists>n'. native_call_run (Push bt (Some frs) (Some v)) n = Some n' \<and> nt_interner n' = nt_interner n \<and>
    (\<forall>bt'. window (builder_for bt' n') (if bt' = bt then sum_sample (frs, slots_for bt v) (ws bt) else ws bt'))"
proof -
  have "window (builder_for bt' n) (ws bt')" for bt' using assms(1) by (simp add: native_inv_def)
  note W = this [of Memory] this [of CpuWall] this [of OnCpu]
  show ?thesis
    using W assms(2) push_into_window [of "builder_for bt n" "ws bt" "slots_for bt" frs v]
    by (cases bt)
       (auto simp: builder_for_def slots_for_def pyroscope_push_sample_def memory_push_sample_def
          stack_push_sample_def push_oncpu_sample_def split: builder_type.splits)
qed

lemma native_call_inv:
  assumes I: "native_inv n ws" and c: "call_named (interned (nt_interner n)) c"
    and r: "native_call_run c n = Some n'"
  shows "native_inv n' (\<lambda>bt. stack_sums bt [c] (ws bt))"
proof (cases c)
  case (Intern_Utf8 s)
  then obtain i w where "intern_utf8 s (nt_interner n) = Some (i, w)" "n' = n\<lparr>nt_interner := w\<rparr>"
    using r by (auto split: Option.bind_splits)
  note w = this
  have "stack_sums bt [c] ws' = ws'" for bt ws' by (simp add: stack_sums_def Intern_Utf8)
  then show ?thesis
    using native_inv_intern [OF I, of w] intern_utf8_spec [OF _ _ w(1)] I w(2)
    by (simp add: native_inv_def)
next
  case (Intern_Ascii s)
  then obtain i w where "intern_ascii s (nt_interner n) = Some (i, w)" "n' = n\<lparr>nt_interner := w\<rparr>"
    using r by (auto split: Option.bind_splits)
  note w = this
  have "stack_sums bt [c] ws' = ws'" for bt ws' by (simp add: stack_sums_def Intern_Ascii)
  then show ?thesis
    using native_inv_intern [OF I, of w] intern_ascii_spec [OF _ _ w(1)] I w(2)
    by (simp add: native_inv_def)
next
  case (Push bt frs v)
  show ?thesis
  proof (cases "frs = None \<or> v = None \<or> frs = Some []")
    case True
    then have "pushed bt' c = []" for bt' unfolding Push by (cases frs; cases v) auto
    then have "stack_sums bt' [c] = (\<lambda>w. w)" for bt' by (auto simp: stack_sums_def fun_eq_iff)
    moreover have "n' = n" using True r by (auto simp: Push pyroscope_push_sample_def split: option.splits)
    ultimately show ?thesis using I by simp
  next
    case False
    then obtain fs vs where f: "frs = Some fs" "v = Some vs" "fs \<noteq> []" by auto
    obtain n2 where "native_call_run (Push bt (Some fs) (Some vs)) n = Some n2" "nt_interner n2 = nt_interner n"
      "\<forall>bt'. window (builder_for bt' n2) (if bt' = bt then sum_sample (fs, slots_for bt vs) (ws bt) else ws bt')"
      using push_run [OF I f(3), of bt vs] by blast
    note P = this
    have "n2 = n'" using P(1) r by (simp add: Push f)
    have "stack_sums bt' [c] (ws bt') = (if bt' = bt then sum_sample (fs, slots_for bt vs) (ws bt) else ws bt')" for bt'
      by (simp add: Push f stack_sums_def)
    then show ?thesis
      using P(2,3) I c named_sum_sample \<open>n2 = n'\<close> by (auto simp: native_inv_def Push f)
  qed
qed

lemma native_calls_inv:
  "native_inv n ws \<Longrightarrow> calls_named cs n \<Longrightarrow> native_calls_run cs n = Some n' \<Longrightarrow>
   native_inv n' (\<lambda>bt. stack_sums bt cs (ws bt))"
proof (induction cs arbitrary: n ws)
  case Nil
  then show ?case by (simp add: stack_sums_def)
next
  case (Cons c cs)
  obtain n1 where n1: "native_call_run c n = Some n1" "native_calls_run cs n1 = Some n'"
    using Cons.prems(3) by (auto split: Option.bind_splits)
  have "native_inv n1 (\<lambda>bt. stack_sums bt [c] (ws bt))"
    using native_call_inv [OF Cons.prems(1) _ n1(1)] Cons.prems(2) by simp
  from Cons.IH [OF this _ n1(2)] show ?case using Cons.prems(2) n1(1) by (simp add: stack_sums_def)
qed

subsection \<open>Native calls and dumps do not panic while the string table has room\<close>

lemma intern_text_total:
  assumes "length (interned w) < u32_max"
  shows "\<exists>i w'. intern_text s w = Some (i, w') \<and> length (interned w') \<le> Suc (length (interned w))"
proof -
  obtain i t where "st_add s (interned w) = Some (i, t)" "length t \<le> Suc (length (interned w))"
    using st_add_total [of "interned w" s] assms by auto
  then show ?thesis by (simp add: intern_text_def)
qed

lemma native_call_total:
  assumes "native_inv n ws" "length (interned (nt_interner n)) < u32_max"
  shows "\<exists>n'. native_call_run c n = Some n' \<and>
    length (interned (nt_interner n')) \<le> Suc (length (interned (nt_interner n)))"
proof (cases c)
  case (Intern_Utf8 s)
  obtain i w' where "intern_utf8 s (nt_interner n) = Some (i, w')"
    "length (interned w') \<le> Suc (length (interned (nt_interner n)))"
    using intern_text_total [OF assms(2)] unfolding intern_utf8_def
    by (cases s; cases "s = Some []") (auto; metis)+
  then show ?thesis by (simp add: Intern_Utf8)
next
  case (Intern_Ascii s)
  obtain i w' where "intern_ascii s (nt_interner n) = Some (i, w')"
    "length (interned w') \<le> Suc (length (interned (nt_interner n)))"
    using intern_text_total [OF assms(2)] unfolding intern_ascii_def
    by (cases s; cases "s = Some []") (auto; metis)+
  then show ?thesis by (simp add: Intern_Ascii)
next
  case (Push bt frs v)
  show ?thesis
  proof (cases "frs = None \<or> v = None \<or> frs = Some []")
    case True
    then show ?thesis by (auto simp: Push pyroscope_push_sample_def split: option.splits)
  next
    case False
    then obtain fs vs where f: "frs = Some fs" "v = Some vs" "fs \<noteq> []" by auto
    then show ?thesis using push_run [OF assms(1) f(3), of bt vs] by (auto simp: Push)
  qed
qed

lemma native_calls_total:
  assumes "native_inv n ws" "calls_named cs n" "length (interned (nt_interner n)) + length cs \<le> u32_max"
  shows "\<exists>n'. native_calls_run cs n = Some n' \<and>
    length (interned (nt_interner n')) \<le> length (interned (nt_interner n)) + length cs"
  using assms
proof (induction cs arbitrary: n ws)
  case (Cons c cs)
  obtain n1 where 1: "native_call_run c n = Some n1"
    "length (interned (nt_interner n1)) \<le> Suc (length (interned (nt_interner n)))"
    using native_call_total [OF Cons.prems(1), of c] Cons.prems(3) by auto
  have "native_inv n1 (\<lambda>bt. stack_sums bt [c] (ws bt))" "calls_named cs n1"
    using native_call_inv [OF Cons.prems(1) _ 1(1)] Cons.prems(2) 1(1) by simp_all
  from Cons.IH [OF this] 1 Cons.prems(3) show ?case by auto
qed simp

definition type_strings_fit ::
    "(profile \<Rightarrow> string_table \<Rightarrow> (profile \<times> string_table) option) \<Rightarrow> nat \<Rightarrow> bool" where
  "type_strings_fit set_type k \<longleftrightarrow> (\<forall>p st. length st + k \<le> u32_max \<longrightarrow> set_type p st \<noteq> None)"

lemma add_value_type_total:
  assumes "length st + 2 \<le> u32_max"
  shows "\<exists>vt st'. add_value_type ty un st = Some (vt, st') \<and> length st' \<le> length st + 2"
proof -
  obtain i st1 j st2 where "st_add ty st = Some (i, st1)" "st_add un st1 = Some (j, st2)"
    "length st2 \<le> length st + 2"
    using st_add2_total [OF assms] by metis
  then show ?thesis by (simp add: add_value_type_def)
qed

lemma cpu_types_fit: "type_strings_fit (cpu_profile_type per) 4"
  unfolding type_strings_fit_def
proof (intro allI impI)
  fix p :: profile and st :: string_table assume l: "length st + 4 \<le> u32_max"
  obtain a st1 where 1: "add_value_type ''cpu'' ''nanoseconds'' st = Some (a, st1)" "length st1 \<le> length st + 2"
    using add_value_type_total [of st] l by fastforce
  obtain b st2 where "add_value_type ''cpu'' ''nanoseconds'' st1 = Some (b, st2)"
    using add_value_type_total [of st1] l 1(2) by fastforce
  then show "cpu_profile_type per p st \<noteq> None" by (simp add: cpu_profile_type_def 1)
qed

lemma cpu_wall_types_fit: "type_strings_fit (cpu_wall_profile_type per) 6"
  unfolding type_strings_fit_def
proof (intro allI impI)
  fix p :: profile and st :: string_table assume l: "length st + 6 \<le> u32_max"
  obtain a st1 where 1: "add_value_type ''cpu'' ''nanoseconds'' st = Some (a, st1)" "length st1 \<le> length st + 2"
    using add_value_type_total [of st] l by fastforce
  obtain b st2 where 2: "add_value_type ''wall'' ''nanoseconds'' st1 = Some (b, st2)" "length st2 \<le> length st1 + 2"
    using add_value_type_total [of st1] l 1(2) by fastforce
  obtain c st3 where "add_value_type ''cpu'' ''nanoseconds'' st2 = Some (c, st3)"
    using add_value_type_total [of st2] l 1(2) 2(2) by fastforce
  then show "cpu_wall_profile_type per p st \<noteq> None" by (simp add: cpu_wall_profile_type_def 1 2)
qed

lemma memory_types_fit: "type_strings_fit (memory_profile_type heap) 10"
  unfolding type_strings_fit_def
proof (intro allI impI)
  fix p :: profile and st :: string_table assume l: "length st + 10 \<le> u32_max"
  obtain a st1 where 1: "add_value_type ''alloc_objects'' ''count'' st = Some (a, st1)" "length st1 \<le> length st + 2"
    using add_value_type_total [of st] l by fastforce
  obtain b st2 where 2: "add_value_type ''alloc_space'' ''bytes'' st1 = Some (b, st2)" "length st2 \<le> length st1 + 2"
    using add_value_type_total [of st1] l 1(2) by fastforce
  obtain c st3 where 3: "add_value_type ''inuse_objects'' ''count'' st2 = Some (c, st3)" "length st3 \<le> length st2 + 2"
    using add_value_type_total [of st2] l 1(2) 2(2) by fastforce
  obtain d st4 where 4: "add_value_type ''inuse_space'' ''bytes'' st3 = Some (d, st4)" "length st4 \<le> length st3 + 2"
    using add_value_type_total [of st3] l 1(2) 2(2) 3(2) by fastforce
  obtain e st5 where "add_value_type ''space'' ''bytes'' st4 = Some (e, st5)"
    using add_value_type_total [of st4] l 1(2) 2(2) 3(2) 4(2) by fastforce
  then show "memory_profile_type heap p st \<noteq> None" by (simp add: memory_profile_type_def 1 2 3 4)
qed

lemma dump_from_total:
  assumes w: "window m w" and st: "st_wf (interned i)" "length (interned i) + k \<le> u32_max"
    and ty: "sets_types set_type tys per" "type_strings_fit set_type k"
  shows "dump_from set_type tr (i, m) \<noteq> None"
proof (cases "table_poisoned i \<or> mutex_poisoned m")
  case True
  then show ?thesis by (auto simp: dump_from_def)
next
  case False
  obtain p t where p: "set_type (b_profile (mutex_value m)) (interned i) = Some (p, t)"
    using ty(2) st(2) unfolding type_strings_fit_def by fastforce
  have "st_wf t" using ty(1) st(1) p unfolding sets_types_def by blast
  from pprof_table_spec [OF this] obtain v where "clone_pprof_table t dst = Some v" for dst by metis
  then have "take_profile_and_reset t tr b \<noteq> None" for b
    by (simp add: take_profile_and_reset_def Let_def)
  then show ?thesis
    using False p by (auto simp: dump_from_def split: Option.bind_splits)
qed

end
