(* ===== verification/Memory.thy ===== *)
theory Memory
  imports Native_Profile
begin

text \<open>
  \<open>rust/src/memory.rs\<close>: the memory profiler. The allocation hooks are native code behind
  \<open>memalloc_calls\<close>, over a state \<open>'w\<close> of theirs; \<open>memalloc_heap_py\<close> is the list of calls into Rust
  that flush the live allocations. \<open>pyerr_take\<close> is \<open>PyErr::take\<close>, and \<open>can_attach\<close> says whether
  \<open>Python::try_attach\<close> succeeds. \<open>wire\<close> is the encoding of a profile to bytes (prost).
\<close>

record memory_config =
  mem_enabled :: bool
  enable_mem_domain :: bool
  max_nframe :: nat
  heap_sample_size :: nat

record 'w memalloc_calls =
  pyerr_take :: "'w \<Rightarrow> string option \<times> 'w"
  memalloc_start :: "nat \<Rightarrow> nat \<Rightarrow> bool \<Rightarrow> 'w \<Rightarrow> int \<times> 'w"
  memalloc_stop :: "'w \<Rightarrow> 'w"
  memalloc_heap_py :: "'w \<Rightarrow> native_call list \<times> 'w"
  memalloc_heap_postfork_child :: "'w \<Rightarrow> 'w"
  can_attach :: "'w \<Rightarrow> bool"

definition memory_clear_samples :: "native \<Rightarrow> native" where
  "memory_clear_samples n = n\<lparr>nt_memory := clear_builder (nt_memory n)\<rparr>"

definition memory_start ::
    "'w memalloc_calls \<Rightarrow> memory_config \<Rightarrow> 'w \<times> native \<Rightarrow> (string + unit) \<times> 'w \<times> native" where
  "memory_start M config wn =
     (let (w, n) = wn in
      if \<not> mem_enabled config then (Inr (), w, n)
      else
        (case pyerr_take M w of
           (Some err, w) \<Rightarrow> (Inl err, w, n)
         | (None, w) \<Rightarrow>
             (let (status, w) = memalloc_start M (max_nframe config) (heap_sample_size config)
                                  (enable_mem_domain config) w;
                  (err, w) = pyerr_take M w
              in case err of
                   None \<Rightarrow>
                     if status = 0 then (Inr (), w, n)
                     else (Inl ''memory profiler failed to start without setting a Python exception'', w, n)
                 | Some err \<Rightarrow>
                     if status = 0 then (Inl err, memalloc_stop M w, memory_clear_samples n)
                     else (Inl err, w, n))))"

definition memory_stop :: "'w memalloc_calls \<Rightarrow> 'w \<times> native \<Rightarrow> 'w \<times> native" where
  "memory_stop M wn = (let (w, n) = wn in (memalloc_stop M w, memory_clear_samples n))"

definition memory_postfork_child :: "'w memalloc_calls \<Rightarrow> 'w \<times> native \<Rightarrow> 'w \<times> native" where
  "memory_postfork_child M wn =
     (let (w, n) = wn
      in (memalloc_heap_postfork_child M w, n\<lparr>nt_memory := mutex_new builder_new\<rparr>))"

definition memory_dump_pprof ::
    "'w memalloc_calls \<Rightarrow> (profile \<Rightarrow> nat list) \<Rightarrow> nat \<Rightarrow> time_range \<Rightarrow> 'w \<times> native \<Rightarrow>
     (nat list option \<times> 'w \<times> native) option" where
  "memory_dump_pprof M wire heap_size tr wn =
     (let (w, n) = wn in
      if \<not> can_attach M w then Some (None, w, n)
      else
        (let (calls, w) = memalloc_heap_py M w in
         do { n \<leftarrow> native_calls_run calls n;
              (r, i, m) \<leftarrow> dump_from (memory_profile_type heap_size) tr (nt_interner n, nt_memory n);
              Some (map_option wire r, w, n\<lparr>nt_interner := i, nt_memory := m\<rparr>) }))"

subsection \<open>Starting and stopping\<close>

text \<open>
  \<open>running\<close> says whether the hooks are installed: stopping removes them, and a start that does not
  return zero has installed nothing.
\<close>

definition memalloc_hooks :: "'w memalloc_calls \<Rightarrow> ('w \<Rightarrow> bool) \<Rightarrow> bool" where
  "memalloc_hooks M running \<longleftrightarrow>
     (\<forall>w. \<not> running (memalloc_stop M w)) \<and>
     (\<forall>w. running (snd (pyerr_take M w)) = running w) \<and>
     (\<forall>a b c w. fst (memalloc_start M a b c w) \<noteq> 0 \<longrightarrow>
        running (snd (memalloc_start M a b c w)) = running w) \<and>
     (\<forall>a b c w. fst (memalloc_start M a b c w) = 0 \<longrightarrow> running (snd (memalloc_start M a b c w))) \<and>
     (\<forall>w. running (snd (memalloc_heap_py M w)) = running w)"

lemma memory_start_hooks:
  assumes M: "memalloc_hooks M running" and r: "\<not> running w"
    and s: "memory_start M config (w, n) = (res, w', n')"
  shows "running w' \<longleftrightarrow> res = Inr () \<and> mem_enabled config"
proof (cases "mem_enabled config")
  case False
  then show ?thesis using s r by (simp add: memory_start_def)
next
  case True
  obtain e1 w1 where 1: "pyerr_take M w = (e1, w1)" by (cases "pyerr_take M w")
  obtain st w2 where 2: "memalloc_start M (max_nframe config) (heap_sample_size config)
      (enable_mem_domain config) w1 = (st, w2)" by fastforce
  obtain e2 w3 where 3: "pyerr_take M w2 = (e2, w3)" by (cases "pyerr_take M w2")
  have R: "running w1 = running w" "st \<noteq> 0 \<Longrightarrow> running w2 = running w1" "st = 0 \<Longrightarrow> running w2"
    "running w3 = running w2" "\<not> running (memalloc_stop M w3)"
    using M 1 2 3 unfolding memalloc_hooks_def by (metis fst_conv snd_conv)+
  show ?thesis
    using s True r R by (auto simp: memory_start_def 1 2 3 Let_def split: option.splits if_splits)
qed

lemma memory_stop_hooks: "memalloc_hooks M running \<Longrightarrow> \<not> running (fst (memory_stop M (w, n)))"
  by (simp add: memory_stop_def memalloc_hooks_def)

interpretation memory_profiler: profiler "memory_start M" "memory_stop M" "\<lambda>_. memalloc_hooks M running"
    "\<lambda>wn. running (fst wn)" mem_enabled for M running
proof unfold_locales
  fix s :: "'a \<times> native" and c r s'
  assume "memalloc_hooks M running" "\<not> running (fst s)" "memory_start M c s = (r, s')"
  then show "memalloc_hooks M running \<and> (r = Inr () \<longrightarrow> running (fst s') = mem_enabled c)"
    using memory_start_hooks [of M running "fst s" c "snd s" r "fst s'" "snd s'"] by simp
next
  fix s :: "'a \<times> native"
  assume "memalloc_hooks M running"
  then show "memalloc_hooks M running \<and> \<not> running (fst (memory_stop M s))"
    using memory_stop_hooks [of M running "fst s" "snd s"] by simp
qed

lemma memory_clear_inv:
  assumes "native_inv n ws"
  shows "native_inv (memory_clear_samples n) (ws(Memory := []))"
proof -
  have w: "window (nt_memory n) (ws Memory)" "window (nt_cpu_wall n) (ws CpuWall)" "window (nt_oncpu n) (ws OnCpu)"
    using assms unfolding native_inv_def builder_for_def
    by (metis (no_types, lifting) builder_type.case)+
  have "\<not> mutex_poisoned (nt_memory n)" using w(1) by (simp add: window_def)
  from window_clear [OF this] w assms show ?thesis
    by (auto simp: native_inv_def memory_clear_samples_def builder_for_def named_def split: builder_type.splits)
qed

subsection \<open>Properties\<close>

lemma native_inv_dump:
  assumes I: "native_inv n ws" and ty: "sets_types set_type tys per"
    and d: "dump_from set_type tr (nt_interner n, builder_for bt n) = Some (r, i, m)"
    and n': "nt_interner n' = i" "builder_for bt n' = m" "\<And>b. b \<noteq> bt \<Longrightarrow> builder_for b n' = builder_for b n"
  shows "native_inv n' (ws(bt := [])) \<and>
    (case r of None \<Rightarrow> ws bt = []
     | Some p \<Rightarrow> ws bt \<noteq> [] \<and> pprof_sample_types p = Some tys \<and> period p = per \<and>
         native_samples p = window_text (interned (nt_interner n)) (ws bt))"
proof -
  have w: "window (builder_for bt n) (ws bt)" "st_wf (interned (nt_interner n))"
    "\<not> table_poisoned (nt_interner n)" "named (interned (nt_interner n)) (ws bt)"
    using I by (simp_all add: native_inv_def)
  note D = dump_from_ok [OF w ty d]
  have keep: "\<And>j s. st_string (interned (nt_interner n)) j = Some s \<Longrightarrow> st_string (interned i) j = Some s"
    using D by blast
  have "native_inv n' (ws(bt := []))"
    using D I n' named_mono(1) [OF keep] by (auto simp: native_inv_def named_def [of _ "[]"])
  then show ?thesis using D by (simp split: option.splits)
qed

lemma memory_dump_inv:
  assumes I: "native_inv n ws" and h: "memalloc_heap_py M w = (calls, w')" "calls_named calls n"
    and at: "can_attach M w" and d: "memory_dump_pprof M wire heap tr (w, n) = Some (r, w2, n')"
  shows "w2 = w' \<and> native_inv n' ((\<lambda>bt. stack_sums bt calls (ws bt))(Memory := [])) \<and>
    (case r of None \<Rightarrow> stack_sums Memory calls (ws Memory) = []
     | Some bytes \<Rightarrow> \<exists>p n1. bytes = wire p \<and> native_calls_run calls n = Some n1 \<and>
         stack_sums Memory calls (ws Memory) \<noteq> [] \<and> period p = as_i64 (int heap) \<and>
         pprof_sample_types p = Some [(''alloc_objects'', ''count''), (''alloc_space'', ''bytes''),
           (''inuse_objects'', ''count''), (''inuse_space'', ''bytes'')] \<and>
         native_samples p = window_text (interned (nt_interner n1)) (stack_sums Memory calls (ws Memory)))"
proof -
  obtain n1 q i m where 1: "native_calls_run calls n = Some n1"
    "dump_from (memory_profile_type heap) tr (nt_interner n1, nt_memory n1) = Some (q, i, m)"
    "r = map_option wire q" "w2 = w'" "n' = n1\<lparr>nt_interner := i, nt_memory := m\<rparr>"
    using d at by (auto simp: memory_dump_pprof_def h(1) split: Option.bind_splits)
  note C = native_calls_inv [OF I h(2) 1(1)]
  have d': "dump_from (memory_profile_type heap) tr (nt_interner n1, builder_for Memory n1) = Some (q, i, m)"
    using 1(2) by (simp add: builder_for_def)
  have f: "nt_interner n' = i" "builder_for Memory n' = m" "\<And>b. b \<noteq> Memory \<Longrightarrow> builder_for b n' = builder_for b n1"
    by (simp_all add: 1(5) builder_for_def split: builder_type.splits)
  note D = native_inv_dump [OF C memory_sets_types d' f]
  show ?thesis
    using D 1 by (auto split: option.splits)
qed

lemma native_calls_run_append:
  "native_calls_run (xs @ ys) n = do { n \<leftarrow> native_calls_run xs n; native_calls_run ys n }"
  by (induction xs arbitrary: n) (auto split: Option.bind_splits)

lemma stack_sums_append: "stack_sums bt (xs @ ys) w = stack_sums bt ys (stack_sums bt xs w)"
  by (simp add: stack_sums_def)

text \<open>
  C10: the memory profile is complete and names what was allocated. After any native calls that
  pass identifiers they were given, a dump does not panic while the string table has room; with
  the samples its flush adds it yields exactly the samples pushed since the start, summed per
  stack, each frame resolving through the profile's own string table to the texts it was interned
  with, or nothing if there were none. The builder is then empty, and the other builders keep
  their samples.
\<close>

theorem memory_profile_complete:
  assumes "calls_named cs native_new" and "native_calls_run cs native_new = Some n"
    and "memalloc_heap_py M w = (calls, w')" and "calls_named calls n" and "can_attach M w"
    and "length (interned (nt_interner n)) + length calls + 10 \<le> u32_max"
  shows "case memory_dump_pprof M wire heap tr (w, n) of
      None \<Rightarrow> False
    | Some (r, w2, n') \<Rightarrow>
        window (nt_memory n') [] \<and> window (nt_cpu_wall n') (stack_sums CpuWall (cs @ calls) []) \<and>
        window (nt_oncpu n') (stack_sums OnCpu (cs @ calls) []) \<and>
        (case r of None \<Rightarrow> stack_sums Memory (cs @ calls) [] = []
         | Some bytes \<Rightarrow> \<exists>p n1. bytes = wire p \<and> native_calls_run (cs @ calls) native_new = Some n1 \<and>
             stack_sums Memory (cs @ calls) [] \<noteq> [] \<and>
             native_samples p = window_text (interned (nt_interner n1)) (stack_sums Memory (cs @ calls) []) \<and>
             pprof_sample_types p = Some [(''alloc_objects'', ''count''), (''alloc_space'', ''bytes''),
               (''inuse_objects'', ''count''), (''inuse_space'', ''bytes'')])"
proof -
  note I = native_calls_inv [OF native_inv_new assms(1,2)]
  obtain n1 where 1: "native_calls_run calls n = Some n1"
    "length (interned (nt_interner n1)) \<le> length (interned (nt_interner n)) + length calls"
    using native_calls_total [OF I assms(4)] assms(6) by auto
  note I1 = native_calls_inv [OF I assms(4) 1(1)]
  have "dump_from (memory_profile_type heap) tr (nt_interner n1, builder_for Memory n1) \<noteq> None"
    by (rule dump_from_total [OF _ _ _ memory_sets_types memory_types_fit])
       (use I1 1(2) assms(6) in \<open>auto simp: native_inv_def\<close>)
  then obtain r n' where d: "memory_dump_pprof M wire heap tr (w, n) = Some (r, w', n')"
    using assms(3,5) 1(1) by (auto simp: memory_dump_pprof_def builder_for_def)
  have S: "stack_sums bt calls (stack_sums bt cs []) = stack_sums bt (cs @ calls) []" for bt by (simp only: stack_sums_append)
  note D = memory_dump_inv [OF I assms(3,4,5) d, unfolded S]
  have w: "window (builder_for bt n') (if bt = Memory then [] else stack_sums bt (cs @ calls) [])" for bt
    using D by (simp add: native_inv_def)
  have "native_calls_run (cs @ calls) native_new = Some n1"
    using 1(1) assms(2) by (simp add: native_calls_run_append)
  then show ?thesis
    using D w [of Memory] w [of CpuWall] w [of OnCpu] d 1(1)
    by (auto simp: builder_for_def split: option.splits)
qed

subsection \<open>Witnesses\<close>

definition example_memalloc :: "bool memalloc_calls" where
  "example_memalloc = \<lparr>pyerr_take = (\<lambda>w. (None, w)), memalloc_start = (\<lambda>_ _ _ _. (0, True)),
     memalloc_stop = (\<lambda>_. False), memalloc_heap_py = (\<lambda>w. ([], w)),
     memalloc_heap_postfork_child = (\<lambda>_. False), can_attach = (\<lambda>_. True)\<rparr>"

definition example_values :: "ffi_values" where
  "example_values = \<lparr>cpu_time = 5, wall_time = 6, alloc_space = 7, alloc_count = 1, heap_space = 0,
     heap_count = 0\<rparr>"

definition example_calls :: "builder_type \<Rightarrow> native_call list" where
  "example_calls bt = [Intern_Ascii (Some ''f''),
     Push bt (Some [\<lparr>function_name = 1, file_name = 0, ffi_line = 3\<rparr>]) (Some example_values)]"

lemma example_calls_run:
  "calls_named (example_calls bt) native_new"
  "\<exists>n. native_calls_run (example_calls bt) native_new = Some n \<and>
     interned (nt_interner n) = [('''', 0), (''f'', 1)]"
proof -
  let ?f = "\<lparr>function_name = 1, file_name = 0, ffi_line = 3\<rparr>"
  let ?n = "native_new\<lparr>nt_interner := \<lparr>interned = [('''', 0), (''f'', 1)], table_poisoned = False\<rparr>\<rparr>"
  have i: "native_call_run (Intern_Ascii (Some ''f'')) native_new = Some ?n"
    by (simp add: intern_ascii_def intern_text_def native_new_def st_add_def string_id_new_def u32_max_eq)
  show c: "calls_named (example_calls bt) native_new"
    unfolding example_calls_def calls_named.simps i option.case
    by (simp add: native_frame_text_def st_string_def split: option.splits)
  have "native_inv ?n (\<lambda>bt. stack_sums bt [Intern_Ascii (Some ''f'')] [])"
    using native_call_inv [OF native_inv_new _ i] by simp
  from push_run [OF this, of "[?f]" bt example_values] obtain n' where
    "native_call_run (Push bt (Some [?f]) (Some example_values)) ?n = Some n'" "nt_interner n' = nt_interner ?n"
    by auto
  then show "\<exists>n. native_calls_run (example_calls bt) native_new = Some n \<and>
     interned (nt_interner n) = [('''', 0), (''f'', 1)]"
    by (simp only: example_calls_def native_calls_run.simps i Option.bind.simps) simp
qed

theorem memory_profile_complete_witness:
  "\<exists>n p n'. native_calls_run (example_calls Memory) native_new = Some n \<and>
     memory_dump_pprof example_memalloc (\<lambda>p. [length (p_sample p)]) 512 (0, 0) (True, n) =
       Some (Some [length (p_sample p)], True, n') \<and>
     native_samples p = [([Some (''f'', '''', 3)], [1, 7, 0, 0])]"
proof -
  let ?f = "\<lparr>function_name = 1, file_name = 0, ffi_line = 3\<rparr>"
  obtain n where n: "native_calls_run (example_calls Memory) native_new = Some n"
    "interned (nt_interner n) = [('''', 0), (''f'', 1)]" using example_calls_run(2) by blast
  have s: "stack_sums Memory (example_calls Memory @ []) [] = [([?f], [1, 7, 0, 0])]"
    by (simp add: stack_sums_def example_calls_def slots_for_def memory_value_slots_def example_values_def
        as_i64_def sum_sample_def)
  have "memalloc_heap_py example_memalloc True = ([], True)" "calls_named [] n" "can_attach example_memalloc True"
    "length (interned (nt_interner n)) + length ([] :: native_call list) + 10 \<le> u32_max"
    by (simp_all add: example_memalloc_def n(2) u32_max_eq)
  note C = memory_profile_complete [OF example_calls_run(1) n(1) this,
      where wire = "\<lambda>p. [length (p_sample p)]" and heap = 512 and tr = "(0, 0)"]
  obtain r w2 n' where r: "memory_dump_pprof example_memalloc (\<lambda>p. [length (p_sample p)]) 512 (0, 0) (True, n) =
      Some (r, w2, n')"
    using C by (auto split: option.splits)
  obtain bytes where b: "r = Some bytes" using C unfolding r s by (cases r) simp_all
  obtain p n1 where d: "bytes = [length (p_sample p)]" "native_calls_run (example_calls Memory @ []) native_new = Some n1"
    "native_samples p = window_text (interned (nt_interner n1)) [([?f], [1, 7, 0, 0])]"
    using C unfolding r s b by auto
  have "n1 = n" using d(2) n(1) by simp
  moreover have "w2 = True"
    using r by (auto simp: memory_dump_pprof_def example_memalloc_def split: Option.bind_splits)
  moreover have "native_samples p = [([Some (''f'', '''', 3)], [1, 7, 0, 0])]"
    using d(3) n(2) \<open>n1 = n\<close> by (simp add: window_text_def native_frame_text_def st_string_def)
  ultimately show ?thesis using r b d(1) n(1) by blast
qed

end
