(* ===== verification/Stack.thy ===== *)
theory Stack
  imports Memory Complex_Main
begin

text \<open>
  \<open>rust/src/stack\<close>: the options, the life cycle and the profile of the CPU stack sampler. The
  sampler is native code behind \<open>engine_calls\<close>, over a state \<open>'s\<close> of its own. A float is a finite
  value or one of the three others; \<open>round_f64\<close> is the rounding of an exact quotient and
  \<open>show_f64\<close> the text of a float.
\<close>

subsection \<open>Options\<close>

datatype f64 = NaN | Pos_Inf | Neg_Inf | Finite real

definition f64_is_finite :: "f64 \<Rightarrow> bool" where
  "f64_is_finite x = (case x of Finite _ \<Rightarrow> True | _ \<Rightarrow> False)"

fun f64_le :: "f64 \<Rightarrow> f64 \<Rightarrow> bool" where
  "f64_le (Finite a) (Finite b) = (a \<le> b)"
| "f64_le NaN _ = False"
| "f64_le _ NaN = False"
| "f64_le Neg_Inf _ = True"
| "f64_le _ Pos_Inf = True"
| "f64_le _ _ = False"

definition f64_lt :: "f64 \<Rightarrow> f64 \<Rightarrow> bool" where
  "f64_lt x y \<longleftrightarrow> f64_le x y \<and> \<not> f64_le y x"

record stack_config =
  st_enabled :: bool
  st_oncpu :: bool

record stack_options =
  opt_max_nframe :: nat
  opt_max_threads :: nat
  opt_max_tasks :: nat
  adaptive_sampling :: bool
  adaptive_target_overhead :: f64
  adaptive_max_interval_us :: nat
  adaptive_baseline :: f64
  adaptive_p_stable_window_s :: nat
  adaptive_p_stable_percentile :: f64
  cpu_timer_enabled :: bool
  cpu_timer_interval_ms :: nat

definition options_default :: stack_options where
  "options_default = \<lparr>opt_max_nframe = 128, opt_max_threads = 25, opt_max_tasks = 50,
     adaptive_sampling = True, adaptive_target_overhead = Finite 0.01,
     adaptive_max_interval_us = 100000, adaptive_baseline = Finite 0,
     adaptive_p_stable_window_s = 600, adaptive_p_stable_percentile = Finite 95,
     cpu_timer_enabled = True, cpu_timer_interval_ms = 10\<rparr>"

definition options_validate :: "(f64 \<Rightarrow> string) \<Rightarrow> stack_options \<Rightarrow> string + unit" where
  "options_validate show_f64 opts =
     (let over = adaptive_target_overhead opts; b = adaptive_baseline opts;
          p = adaptive_p_stable_percentile opts
      in if \<not> (f64_is_finite over \<and> f64_lt (Finite 0) over \<and> f64_le over (Finite 1))
         then Inl (''adaptive_target_overhead must be a fraction in (0, 1], got '' @ show_f64 over)
         else if adaptive_max_interval_us opts = 0
         then Inl ''adaptive_max_interval_us must be positive''
         else if \<not> (f64_is_finite b \<and> f64_le (Finite 0) b)
         then Inl (''adaptive_baseline must be a finite, non-negative number of core-percent units, got '' @ show_f64 b)
         else if adaptive_p_stable_window_s opts = 0
         then Inl ''adaptive_p_stable_window_s must be positive''
         else if \<not> (f64_le (Finite 0) p \<and> f64_le p (Finite 100))
         then Inl (''adaptive_p_stable_percentile must be a percentage between 0 and 100, got '' @ show_f64 p)
         else Inr ())"

text \<open>\<open>OnceLock<Options>\<close>: empty or set once.\<close>

definition set_options_in ::
    "(f64 \<Rightarrow> string) \<Rightarrow> stack_options \<Rightarrow> stack_options option \<Rightarrow> bool \<times> stack_options option" where
  "set_options_in show_f64 opts lock =
     (case options_validate show_f64 opts of
        Inl _ \<Rightarrow> (False, lock)
      | Inr _ \<Rightarrow> (case lock of Some _ \<Rightarrow> (False, lock) | None \<Rightarrow> (True, Some opts)))"

definition get_options :: "stack_options option \<Rightarrow> stack_options \<times> stack_options option" where
  "get_options lock = (case lock of Some opts \<Rightarrow> (opts, lock) | None \<Rightarrow> (options_default, Some options_default))"

subsection \<open>The sampler\<close>

record configure_args =
  ca_interval_s :: f64
  ca_options :: stack_options
  ca_oncpu :: bool

text \<open>\<open>eng_moves\<close> relates the states between which the sampler's own threads take it.\<close>

record 's engine_calls =
  eng_configure :: "configure_args \<Rightarrow> 's \<Rightarrow> 's"
  eng_interval_us :: "'s \<Rightarrow> nat"
  eng_is_safe_copy_failed :: "'s \<Rightarrow> bool"
  eng_start :: "'s \<Rightarrow> bool \<times> 's"
  eng_stop :: "'s \<Rightarrow> 's"
  eng_take_sampling_thread_error :: "'s \<Rightarrow> bool \<times> 's"
  eng_register_thread :: "nat \<Rightarrow> nat \<Rightarrow> 's \<Rightarrow> 's"
  eng_unregister_thread :: "nat \<Rightarrow> 's \<Rightarrow> 's"
  eng_moves :: "'s \<Rightarrow> 's \<Rightarrow> bool"

record 's stack_state =
  sk_engine :: 's
  OPTIONS :: "stack_options option"
  STARTED :: bool
  STOPPED_ONCE :: bool
  STACK_HOOKS :: bool

definition stack_state_new :: "'s \<Rightarrow> 's stack_state" where
  "stack_state_new eng = \<lparr>sk_engine = eng, OPTIONS = None, STARTED = False, STOPPED_ONCE = False,
     STACK_HOOKS = False\<rparr>"

definition set_options :: "(f64 \<Rightarrow> string) \<Rightarrow> stack_options \<Rightarrow> 's stack_state \<Rightarrow> bool \<times> 's stack_state" where
  "set_options show_f64 opts s =
     (let (ok, lock) = set_options_in show_f64 opts (OPTIONS s) in (ok, s\<lparr>OPTIONS := lock\<rparr>))"

definition stack_register_thread :: "'s engine_calls \<Rightarrow> nat \<Rightarrow> nat \<Rightarrow> 's stack_state \<Rightarrow> 's stack_state" where
  "stack_register_thread E i native_id s = s\<lparr>sk_engine := eng_register_thread E i native_id (sk_engine s)\<rparr>"

definition stack_unregister_thread :: "'s engine_calls \<Rightarrow> nat \<Rightarrow> 's stack_state \<Rightarrow> 's stack_state" where
  "stack_unregister_thread E i s = s\<lparr>sk_engine := eng_unregister_thread E i (sk_engine s)\<rparr>"

text \<open>\<open>calls\<close>: the threads the call into Python registers, and whether it returns or raises.\<close>

definition stack_install ::
    "'s engine_calls \<Rightarrow> (nat \<times> nat) list \<times> bool \<Rightarrow> 's stack_state \<Rightarrow> (string + unit) \<times> 's stack_state" where
  "stack_install E calls s =
     (if STACK_HOOKS s then (Inr (), s)
      else
        let (ts, returns) = calls;
            s = fold (\<lambda>(i, native_id). stack_register_thread E i native_id) ts s
        in if returns then (Inr (), s\<lparr>STACK_HOOKS := True\<rparr>)
           else (Inl ''exception in _install_stack_threads'', s))"

definition stack_start ::
    "'s engine_calls \<Rightarrow> (real \<Rightarrow> f64) \<Rightarrow> (nat \<times> nat) list \<times> bool \<Rightarrow> stack_config \<Rightarrow> nat \<Rightarrow>
     's stack_state \<Rightarrow> (string + unit) \<times> 's stack_state" where
  "stack_start E round_f64 calls config sample_rate s =
     (if \<not> st_enabled config then (Inr (), s)
      else
        let (opts, lock) = get_options (OPTIONS s);
            args = \<lparr>ca_interval_s = round_f64 (1 / real (max sample_rate 1)), ca_options = opts,
                    ca_oncpu = st_oncpu config\<rparr>;
            s = s\<lparr>OPTIONS := lock, sk_engine := eng_configure E args (sk_engine s)\<rparr>
        in if eng_is_safe_copy_failed E (sk_engine s)
           then (Inl ''failed to install the CPU stack sampler's SIGSEGV/SIGBUS handlers'', s)
           else
             let (started, eng) = eng_start E (sk_engine s);
                 s = s\<lparr>sk_engine := eng\<rparr>
             in if \<not> started then
                  (if STOPPED_ONCE s
                   then (Inl (''the CPU timer stack profiler cannot be restarted in this process: it was stopped ''
                              @ ''by an earlier shutdown() or by fork(), and the CPU timer engine does not support ''
                              @ ''restarting''), s)
                   else (Inl ''failed to start the CPU stack sampler's sampling thread or CPU timer'', s))
                else stack_install E calls (s\<lparr>STARTED := True\<rparr>))"

definition stack_clear_samples :: "native \<Rightarrow> native" where
  "stack_clear_samples n =
     n\<lparr>nt_cpu_wall := clear_builder (nt_cpu_wall n), nt_oncpu := clear_builder (nt_oncpu n)\<rparr>"

definition stack_stop :: "'s engine_calls \<Rightarrow> 's stack_state \<times> native \<Rightarrow> 's stack_state \<times> native" where
  "stack_stop E sn =
     (let (s, n) = sn;
          s = (if STARTED s
               then s\<lparr>STARTED := False, sk_engine := eng_stop E (sk_engine s), STOPPED_ONCE := True\<rparr>
               else s)
      in (s, stack_clear_samples n))"

definition stack_postfork_child :: "native \<Rightarrow> native" where
  "stack_postfork_child n = n\<lparr>nt_cpu_wall := mutex_new builder_new, nt_oncpu := mutex_new builder_new\<rparr>"

definition period_ns :: "nat \<Rightarrow> nat \<Rightarrow> int" where
  "period_ns interval_us sample_rate =
     (if interval_us = 0 then 1000000000 div int (max sample_rate 1)
      else sat_mul_i64 (min (int interval_us) i64_max) 1000)"

definition stack_dump_pprof ::
    "'s engine_calls \<Rightarrow> (profile \<Rightarrow> nat list) \<Rightarrow> nat \<Rightarrow> bool \<Rightarrow> time_range \<Rightarrow> 's stack_state \<Rightarrow> native \<Rightarrow>
     (nat list option \<times> native) option" where
  "stack_dump_pprof E wire sample_rate oncpu tr s n =
     (let per = period_ns (eng_interval_us E (sk_engine s)) sample_rate in
      if oncpu then
        do { (r, i, m) \<leftarrow> dump_from (cpu_profile_type per) tr (nt_interner n, nt_oncpu n);
             Some (map_option wire r, n\<lparr>nt_interner := i, nt_oncpu := m\<rparr>) }
      else
        do { (r, i, m) \<leftarrow> dump_from (cpu_wall_profile_type per) tr (nt_interner n, nt_cpu_wall n);
             Some (map_option wire r, n\<lparr>nt_interner := i, nt_cpu_wall := m\<rparr>) })"

text \<open>Whether the error is logged; the native flag is cleared by reading it.\<close>

definition report_sampling_thread_error :: "'s engine_calls \<Rightarrow> 's stack_state \<Rightarrow> bool \<times> 's stack_state" where
  "report_sampling_thread_error E s =
     (if STARTED s
      then (let (failed, eng) = eng_take_sampling_thread_error E (sk_engine s) in (failed, s\<lparr>sk_engine := eng\<rparr>))
      else (False, s))"

subsection \<open>Options are validated and fixed once\<close>

definition valid_options :: "stack_options \<Rightarrow> bool" where
  "valid_options opts \<longleftrightarrow>
     (\<exists>over b p. adaptive_target_overhead opts = Finite over \<and> 0 < over \<and> over \<le> 1 \<and>
        adaptive_baseline opts = Finite b \<and> 0 \<le> b \<and>
        adaptive_p_stable_percentile opts = Finite p \<and> 0 \<le> p \<and> p \<le> 100) \<and>
     0 < adaptive_max_interval_us opts \<and> 0 < adaptive_p_stable_window_s opts"

lemma validate_iff: "options_validate show_f64 opts = Inr () \<longleftrightarrow> valid_options opts"
proof -
  have "f64_is_finite x \<and> f64_lt (Finite 0) x \<and> f64_le x (Finite 1) \<longleftrightarrow> (\<exists>r. x = Finite r \<and> 0 < r \<and> r \<le> 1)" for x
    by (cases x) (auto simp: f64_is_finite_def f64_lt_def)
  moreover have "f64_is_finite x \<and> f64_le (Finite 0) x \<longleftrightarrow> (\<exists>r. x = Finite r \<and> 0 \<le> r)" for x
    by (cases x) (auto simp: f64_is_finite_def)
  moreover have "f64_le (Finite 0) x \<and> f64_le x (Finite 100) \<longleftrightarrow> (\<exists>r. x = Finite r \<and> 0 \<le> r \<and> r \<le> 100)" for x
    by (cases x) auto
  ultimately show ?thesis
    unfolding options_validate_def valid_options_def Let_def by (simp split: if_split) blast
qed

lemma options_default_valid: "valid_options options_default"
  unfolding valid_options_def options_default_def
  by (intro conjI exI [of _ "0.01"] exI [of _ 0] exI [of _ 95]) simp_all

text \<open>Calls of \<open>set_options\<close> and starts of the sampler, in any order.\<close>

datatype option_event = Set_Options stack_options | Use_Options

fun option_step :: "(f64 \<Rightarrow> string) \<Rightarrow> option_event \<Rightarrow> stack_options option \<Rightarrow> stack_options option" where
  "option_step show_f64 (Set_Options opts) lock = snd (set_options_in show_f64 opts lock)"
| "option_step show_f64 Use_Options lock = snd (get_options lock)"

lemma option_step_some: "option_step show_f64 e (Some opts) = Some opts"
  by (cases e) (auto simp: set_options_in_def get_options_def split: sum.splits)

lemma option_steps_some: "fold (option_step show_f64) es (Some opts) = Some opts"
  by (induction es) (simp_all add: option_step_some)

lemma set_options_in_cases:
  "set_options_in show_f64 opts lock =
     (if valid_options opts \<and> lock = None then (True, Some opts) else (False, lock))"
  using validate_iff [of show_f64 opts]
  by (cases "options_validate show_f64 opts") (auto simp: set_options_in_def split: option.splits)

lemma option_steps_valid:
  "pred_option valid_options lock \<Longrightarrow> pred_option valid_options (fold (option_step show_f64) es lock)"
proof (induction es arbitrary: lock)
  case (Cons e es)
  have "pred_option valid_options (option_step show_f64 e lock)"
    using Cons.prems options_default_valid
    by (cases e; cases lock) (auto simp: set_options_in_cases get_options_def)
  then show ?case using Cons.IH by simp
qed simp

subsection \<open>The life of the sampler\<close>

text \<open>
  \<open>running\<close> says whether the sampler is at work: it was started, has not been told to stop since,
  and its thread has not given up. A start that reports success started it and no other call starts
  it; stopping tells it to stop. On its own the sampler can stop working, as it does when its
  \<open>SIGSEGV\<close> handler is replaced (\<open>stack.md\<close>), but never start again. Whether \<open>Sampler::stop\<close> times
  out is not said: a thread that was told to stop may still be in its last cycle.
\<close>

definition engine_runs :: "'s engine_calls \<Rightarrow> ('s \<Rightarrow> bool) \<Rightarrow> bool" where
  "engine_runs E running \<longleftrightarrow>
     (\<forall>s. \<not> running (eng_stop E s)) \<and>
     (\<forall>s. fst (eng_start E s) \<longrightarrow> running (snd (eng_start E s))) \<and>
     (\<forall>s. \<not> fst (eng_start E s) \<longrightarrow> running (snd (eng_start E s)) = running s) \<and>
     (\<forall>a s. running (eng_configure E a s) = running s) \<and>
     (\<forall>a b s. running (eng_register_thread E a b s) = running s) \<and>
     (\<forall>a s. running (eng_unregister_thread E a s) = running s) \<and>
     (\<forall>s. running (snd (eng_take_sampling_thread_error E s)) = running s) \<and>
     (\<forall>s s'. eng_moves E s s' \<longrightarrow> running s' \<longrightarrow> running s)"

text \<open>A sampler at work is one that the code will stop; the converse fails once it has died.\<close>

definition stack_inv :: "('s \<Rightarrow> bool) \<Rightarrow> 's stack_state \<Rightarrow> bool" where
  "stack_inv running s \<longleftrightarrow> (running (sk_engine s) \<longrightarrow> STARTED s) \<and> pred_option valid_options (OPTIONS s)"

lemma stack_moves_inv:
  assumes "engine_runs E running" "stack_inv running s" "eng_moves E (sk_engine s) eng"
  shows "stack_inv running (s\<lparr>sk_engine := eng\<rparr>)"
  using assms unfolding stack_inv_def engine_runs_def by simp

lemma stack_register_frame:
  "OPTIONS (stack_register_thread E i n s) = OPTIONS s" "STARTED (stack_register_thread E i n s) = STARTED s"
  "STOPPED_ONCE (stack_register_thread E i n s) = STOPPED_ONCE s"
  "STACK_HOOKS (stack_register_thread E i n s) = STACK_HOOKS s"
  "sk_engine (stack_register_thread E i n s) = eng_register_thread E i n (sk_engine s)"
  by (simp_all add: stack_register_thread_def)

lemma stack_registers_inv:
  assumes "engine_runs E running" "stack_inv running s"
  shows "stack_inv running (fold (\<lambda>(i, n). stack_register_thread E i n) ts s) \<and>
    STARTED (fold (\<lambda>(i, n). stack_register_thread E i n) ts s) = STARTED s \<and>
    running (sk_engine (fold (\<lambda>(i, n). stack_register_thread E i n) ts s)) = running (sk_engine s)"
  using assms(2)
proof (induction ts arbitrary: s)
  case (Cons t ts)
  obtain i n where t: "t = (i, n)" by (cases t)
  have "stack_inv running (stack_register_thread E i n s)"
    using Cons.prems assms(1) by (simp add: stack_inv_def stack_register_frame engine_runs_def)
  moreover have "running (sk_engine (stack_register_thread E i n s)) = running (sk_engine s)"
    using assms(1) by (simp add: stack_register_frame engine_runs_def)
  ultimately show ?case using Cons.IH by (simp add: t stack_register_frame)
qed simp

lemma stack_install_inv:
  assumes "engine_runs E running" "stack_inv running s" "stack_install E calls s = (r, s')"
  shows "stack_inv running s' \<and> STARTED s' = STARTED s \<and> running (sk_engine s') = running (sk_engine s)"
proof (cases "STACK_HOOKS s")
  case True
  then show ?thesis using assms by (simp add: stack_install_def)
next
  case False
  obtain ts ret where c: "calls = (ts, ret)" by (cases calls)
  have "STARTED s' = STARTED (fold (\<lambda>(i, n). stack_register_thread E i n) ts s)"
    "OPTIONS s' = OPTIONS (fold (\<lambda>(i, n). stack_register_thread E i n) ts s)"
    "sk_engine s' = sk_engine (fold (\<lambda>(i, n). stack_register_thread E i n) ts s)"
    using assms(3) False by (auto simp: stack_install_def c Let_def split: if_splits)
  then show ?thesis using stack_registers_inv [OF assms(1,2), of ts] unfolding stack_inv_def by metis
qed

lemma stack_start_inv:
  assumes E: "engine_runs E running" and I: "stack_inv running s" and n: "\<not> STARTED s"
    and st: "stack_start E round_f64 calls config rate s = (r, s')"
  shows "stack_inv running s' \<and>
    (r = Inr () \<longrightarrow> STARTED s' = st_enabled config \<and> running (sk_engine s') = st_enabled config)"
proof (cases "st_enabled config")
  case False
  then show ?thesis using assms by (auto simp: stack_start_def stack_inv_def)
next
  case True
  obtain opts lock where o: "get_options (OPTIONS s) = (opts, lock)" by (cases "get_options (OPTIONS s)")
  have v: "pred_option valid_options lock"
    using I o options_default_valid by (cases "OPTIONS s") (auto simp: get_options_def stack_inv_def)
  define a where "a = \<lparr>ca_interval_s = round_f64 (1 / real (max rate 1)), ca_options = opts,
                    ca_oncpu = st_oncpu config\<rparr>"
  define s1 where "s1 = s\<lparr>OPTIONS := lock, sk_engine := eng_configure E a (sk_engine s)\<rparr>"
  have I1: "stack_inv running s1" "\<not> STARTED s1"
    using I E v n by (simp_all add: s1_def stack_inv_def engine_runs_def)
  obtain ok eng where e: "eng_start E (sk_engine s1) = (ok, eng)" by (cases "eng_start E (sk_engine s1)")
  have R: "ok \<Longrightarrow> running eng" "\<not> ok \<Longrightarrow> running eng = running (sk_engine s1)"
    using E e unfolding engine_runs_def by (metis fst_conv snd_conv)+
  note st' = st [unfolded stack_start_def o Let_def prod.case, folded a_def, folded s1_def,
      unfolded e prod.case]
  show ?thesis
  proof (cases "eng_is_safe_copy_failed E (sk_engine s1)")
    case True
    then have "s' = s1" "r \<noteq> Inr ()" using st' \<open>st_enabled config\<close> by auto
    then show ?thesis using I1 by simp
  next
    case False
    show ?thesis
    proof (cases ok)
      case True
      have "stack_install E calls (s1\<lparr>sk_engine := eng, STARTED := True\<rparr>) = (r, s')"
        using st' \<open>st_enabled config\<close> False True by simp
      moreover have "stack_inv running (s1\<lparr>sk_engine := eng, STARTED := True\<rparr>)"
        using I1 R(1) [OF True] by (simp add: stack_inv_def)
      ultimately show ?thesis
        using stack_install_inv [OF E] R(1) [OF True] \<open>st_enabled config\<close> by fastforce
    next
      case nok: False
      have "s' = s1\<lparr>sk_engine := eng\<rparr>" "r \<noteq> Inr ()"
        using st' \<open>st_enabled config\<close> False nok by (auto split: if_splits)
      then show ?thesis using I1 R(2) [OF nok] by (simp add: stack_inv_def)
    qed
  qed
qed

lemma stack_stop_inv:
  assumes "engine_runs E running" "stack_inv running s"
  shows "stack_inv running (fst (stack_stop E (s, n))) \<and> \<not> STARTED (fst (stack_stop E (s, n)))"
  using assms by (auto simp: stack_stop_def stack_inv_def engine_runs_def)

interpretation stack_sampler: profiler
    "\<lambda>(calls, config, rate) (s, n). let (r, s) = stack_start E round_f64 calls config rate s in (r, s, n)"
    "stack_stop E" "\<lambda>(s, n). engine_runs E running \<and> stack_inv running s" "\<lambda>(s, n). STARTED s"
    "\<lambda>(calls, config, rate). st_enabled config" for E round_f64 running
proof (unfold_locales, goal_cases)
  case (1 s c r s')
  obtain s0 n calls config rate where x: "s = (s0, n)" "c = (calls, config, rate)" by (metis surj_pair)
  obtain s1 where y: "stack_start E round_f64 calls config rate s0 = (r, s1)" "s' = (s1, n)"
    using 1(3) by (auto simp: x split: prod.splits)
  have "engine_runs E running" "stack_inv running s0" "\<not> STARTED s0" using 1(1,2) by (simp_all add: x)
  from stack_start_inv [OF this y(1)] show ?case using 1(1) by (simp add: x y(2))
next
  case (2 s)
  then show ?case using stack_stop_inv [of E running "fst s" "snd s"] by (simp add: case_prod_beta)
qed

lemma period_ns_bounds:
  assumes "rate \<le> u32_max" "interval_us < 2 ^ 64"
  shows "is_i64 (period_ns interval_us rate) \<and> 0 \<le> period_ns interval_us rate \<and>
    (0 < interval_us \<or> rate \<le> 1000000000 \<longrightarrow> 0 < period_ns interval_us rate)"
proof (cases "interval_us = 0")
  case True
  have "0 \<le> (1000000000 :: int) div int (max rate 1)" by (simp add: pos_imp_zdiv_nonneg_iff)
  moreover have "(1000000000 :: int) div int (max rate 1) \<le> 1000000000"
    by (rule order_trans [OF zdiv_mono2 [of 1000000000 1]]) simp_all
  moreover have "0 < (1000000000 :: int) div int (max rate 1)" if "rate \<le> 1000000000"
    using that by (simp add: pos_imp_zdiv_pos_iff)
  ultimately show ?thesis using True by (simp add: period_ns_def is_i64_def i64_min_def i64_max_def)
next
  case False
  then show ?thesis
    by (auto simp: period_ns_def sat_mul_i64_def sat_i64_def i64_min_def i64_max_def is_i64_def)
qed

subsection \<open>Properties\<close>

text \<open>
  C38: the sampler's options are valid and fixed once. Whatever calls of \<open>set_options\<close> and starts
  of the sampler there are, in any order, the options in effect satisfy every range that
  validation states (no NaN or infinity passes), a call succeeds exactly when its options are
  valid and none are fixed yet, and once fixed they never change.
\<close>

theorem stack_options_valid_and_fixed:
  fixes lock :: "stack_options option"
  assumes "lock = fold (option_step show_f64) es None"
  shows "pred_option valid_options lock \<and>
    set_options_in show_f64 opts lock =
      (if valid_options opts \<and> lock = None then (True, Some opts) else (False, lock)) \<and>
    (\<forall>o1. lock = Some o1 \<longrightarrow> fold (option_step show_f64) es' lock = Some o1)"
proof -
  have "pred_option valid_options lock"
    unfolding assms by (rule option_steps_valid) simp
  then show ?thesis using set_options_in_cases option_steps_some by blast
qed

text \<open>
  C11: the CPU profile is complete and has a sound period. After any native calls that pass
  identifiers they were given, a dump of either kind does not panic while the string table has
  room, and yields exactly the samples pushed for that kind, with the interned names, or nothing
  if there were none; the period is a positive 64-bit number for every rate up to one per
  nanosecond, also for a rate of zero.
\<close>

theorem stack_profile_complete:
  assumes "calls_named cs native_new" and "native_calls_run cs native_new = Some n"
    and "length (interned (nt_interner n)) + 6 \<le> u32_max"
    and "rate \<le> 1000000000" and "eng_interval_us E (sk_engine s) < 2 ^ 64"
  shows "case stack_dump_pprof E wire rate oncpu tr s n of
      None \<Rightarrow> False
    | Some (r, n') \<Rightarrow>
        nt_memory n' = nt_memory n \<and>
        window (builder_for (if oncpu then OnCpu else CpuWall) n') [] \<and>
        (let w = stack_sums (if oncpu then OnCpu else CpuWall) cs [] in
         case r of None \<Rightarrow> w = []
         | Some bytes \<Rightarrow> \<exists>p. bytes = wire p \<and> w \<noteq> [] \<and>
             native_samples p = window_text (interned (nt_interner n)) w \<and>
             pprof_sample_types p = Some (if oncpu then [(''cpu'', ''nanoseconds'')]
               else [(''cpu'', ''nanoseconds''), (''wall'', ''nanoseconds'')]) \<and>
             0 < period p \<and> is_i64 (period p))"
proof -
  let ?per = "period_ns (eng_interval_us E (sk_engine s)) rate"
  note I = native_calls_inv [OF native_inv_new assms(1,2)]
  have room: "length (interned (nt_interner n)) + 4 \<le> u32_max" using assms(3) by simp
  have W: "window (builder_for bt n) (stack_sums bt cs [])" "st_wf (interned (nt_interner n))" for bt
    using I by (simp_all add: native_inv_def)
  have "rate \<le> u32_max" using assms(4) by (simp add: u32_max_eq)
  then have per: "0 < ?per" "is_i64 ?per" using period_ns_bounds assms(4,5) by blast+
  show ?thesis
  proof (cases oncpu)
    case True
    obtain r i m where d: "dump_from (cpu_profile_type ?per) tr (nt_interner n, builder_for OnCpu n) = Some (r, i, m)"
      using dump_from_total [OF W(1) [of OnCpu] W(2) room cpu_sets_types [of ?per] cpu_types_fit, where tr = tr] by auto
    let ?n = "n\<lparr>nt_interner := i, nt_oncpu := m\<rparr>"
    have f: "nt_interner ?n = i" "builder_for OnCpu ?n = m" "\<And>b. b \<noteq> OnCpu \<Longrightarrow> builder_for b ?n = builder_for b n"
      by (simp_all add: builder_for_def split: builder_type.splits)
    note D = native_inv_dump [OF I cpu_sets_types d f]
    have "window (builder_for OnCpu ?n) []" using native_inv_window [OF conjunct1 [OF D], of OnCpu] by simp
    then show ?thesis
      using D d per True by (auto simp: stack_dump_pprof_def Let_def builder_for_def split: option.splits)
  next
    case False
    obtain r i m where d: "dump_from (cpu_wall_profile_type ?per) tr (nt_interner n, builder_for CpuWall n) = Some (r, i, m)"
      using dump_from_total [OF W(1) [of CpuWall] W(2) assms(3) cpu_wall_sets_types [of ?per] cpu_wall_types_fit, where tr = tr] by auto
    let ?n = "n\<lparr>nt_interner := i, nt_cpu_wall := m\<rparr>"
    have f: "nt_interner ?n = i" "builder_for CpuWall ?n = m" "\<And>b. b \<noteq> CpuWall \<Longrightarrow> builder_for b ?n = builder_for b n"
      by (simp_all add: builder_for_def split: builder_type.splits)
    note D = native_inv_dump [OF I cpu_wall_sets_types d f]
    have "window (builder_for CpuWall ?n) []" using native_inv_window [OF conjunct1 [OF D], of CpuWall] by simp
    then show ?thesis
      using D d per False by (auto simp: stack_dump_pprof_def Let_def builder_for_def split: option.splits)
  qed
qed

subsection \<open>Witnesses\<close>

definition example_engine :: "bool engine_calls" where
  "example_engine = \<lparr>eng_configure = (\<lambda>_ s. s), eng_interval_us = (\<lambda>_. 0),
     eng_is_safe_copy_failed = (\<lambda>_. False), eng_start = (\<lambda>_. (True, True)), eng_stop = (\<lambda>_. False),
     eng_take_sampling_thread_error = (\<lambda>s. (False, s)), eng_register_thread = (\<lambda>_ _ s. s),
     eng_unregister_thread = (\<lambda>_ s. s), eng_moves = (\<lambda>s s'. s' \<longrightarrow> s)\<rparr>"

lemma example_engine_runs: "engine_runs example_engine (\<lambda>s. s)"
  by (simp add: engine_runs_def example_engine_def)

theorem stack_options_valid_and_fixed_witness:
  "fold (option_step (\<lambda>_. '''')) [Set_Options (options_default\<lparr>adaptive_baseline := NaN\<rparr>), Use_Options,
       Set_Options (options_default\<lparr>opt_max_nframe := 7\<rparr>)] None = Some options_default \<and>
   \<not> fst (set_options_in (\<lambda>_. '''') (options_default\<lparr>opt_max_nframe := 7\<rparr>) (Some options_default))"
proof -
  have "\<not> valid_options (options_default\<lparr>adaptive_baseline := NaN\<rparr>)" by (simp add: valid_options_def)
  then have l: "Some options_default = fold (option_step (\<lambda>_. ''''))
      [Set_Options (options_default\<lparr>adaptive_baseline := NaN\<rparr>), Use_Options] None"
    by (simp add: set_options_in_cases get_options_def)
  have "fold (option_step (\<lambda>_. '''')) [Set_Options (options_default\<lparr>opt_max_nframe := 7\<rparr>)] (Some options_default) =
      Some options_default"
    using stack_options_valid_and_fixed [OF l] by blast
  moreover have "\<not> fst (set_options_in (\<lambda>_. '''') (options_default\<lparr>opt_max_nframe := 7\<rparr>) (Some options_default))"
    using stack_options_valid_and_fixed [OF l] by simp
  ultimately show ?thesis using l by simp
qed

theorem stack_profile_complete_witness:
  "\<exists>n p n'. native_calls_run (example_calls OnCpu) native_new = Some n \<and>
     stack_dump_pprof example_engine (\<lambda>p. [length (p_sample p)]) 0 True (0, 0) (stack_state_new True) n =
       Some (Some [length (p_sample p)], n') \<and>
     native_samples p = [([Some (''f'', '''', 3)], [5])] \<and> 0 < period p"
proof -
  let ?f = "\<lparr>function_name = 1, file_name = 0, ffi_line = 3\<rparr>"
  obtain n where n: "native_calls_run (example_calls OnCpu) native_new = Some n"
    "interned (nt_interner n) = [('''', 0), (''f'', 1)]" using example_calls_run(2) by blast
  have s: "stack_sums OnCpu (example_calls OnCpu) [] = [([?f], [5])]"
    by (simp add: stack_sums_def example_calls_def slots_for_def cpu_value_slots_def example_values_def sum_sample_def)
  have a: "length (interned (nt_interner n)) + 6 \<le> u32_max" "(0::nat) \<le> 1000000000"
    "eng_interval_us example_engine (sk_engine (stack_state_new True)) < 2 ^ 64"
    by (simp_all add: n(2) u32_max_eq example_engine_def)
  note C = stack_profile_complete [OF example_calls_run(1) n(1) a,
      where wire = "\<lambda>p. [length (p_sample p)]" and oncpu = True and tr = "(0, 0)",
      unfolded if_True s Let_def]
  obtain r n' where r: "stack_dump_pprof example_engine (\<lambda>p. [length (p_sample p)]) 0 True (0, 0)
      (stack_state_new True) n = Some (r, n')"
    using C by (auto split: option.splits)
  obtain bytes where b: "r = Some bytes" using C unfolding r by (cases r) simp_all
  obtain p where d: "bytes = [length (p_sample p)]" "0 < period p"
    "native_samples p = window_text (interned (nt_interner n)) [([?f], [5])]"
    using C unfolding r b by auto
  have "native_samples p = [([Some (''f'', '''', 3)], [5])]"
    using d(3) n(2) by (simp add: window_text_def native_frame_text_def st_string_def)
  then show ?thesis using r b d(1,2) n(1) by blast
qed

end
