(* ===== verification/Config.thy ===== *)
theory Config
  imports Stack
begin

text \<open>
  The configuration of the agent, \<open>PyroscopeConfig\<close> of \<open>rust/src/pyroscope.rs\<close>. A hash map is a
  list of pairs in the order it is iterated; \<open>upload_interval\<close> is in milliseconds.
\<close>

record basic_auth =
  username :: string
  password :: string

record pyroscope_config =
  cf_url :: string
  application_name :: string
  cf_tags :: "(string \<times> string) list"
  sample_rate :: nat
  spy_name :: string
  spy_version :: string
  runtime_name :: string
  runtime_version :: string
  cf_basic_auth :: "basic_auth option"
  tenant_id :: "string option"
  http_headers :: "(string \<times> string) list"
  upload_interval :: nat
  mem_config :: memory_config
  cf_stack_config :: stack_config

definition config_new ::
    "string \<Rightarrow> string \<Rightarrow> nat \<Rightarrow> string \<Rightarrow> string \<Rightarrow> memory_config \<Rightarrow> stack_config \<Rightarrow> pyroscope_config" where
  "config_new url app rate spy version mem stack =
     \<lparr>cf_url = url, application_name = app, cf_tags = [], sample_rate = rate, spy_name = spy,
      spy_version = version, runtime_name = '''', runtime_version = '''', cf_basic_auth = None,
      tenant_id = None, http_headers = [], upload_interval = 10000, mem_config = mem,
      cf_stack_config = stack\<rparr>"

definition with_url :: "string \<Rightarrow> pyroscope_config \<Rightarrow> pyroscope_config" where
  "with_url url c = c\<lparr>cf_url := url\<rparr>"

definition with_basic_auth :: "string \<Rightarrow> string \<Rightarrow> pyroscope_config \<Rightarrow> pyroscope_config" where
  "with_basic_auth user pass c = c\<lparr>cf_basic_auth := Some \<lparr>username = user, password = pass\<rparr>\<rparr>"

definition with_tags :: "(string \<times> string) list \<Rightarrow> pyroscope_config \<Rightarrow> pyroscope_config" where
  "with_tags ts c = c\<lparr>cf_tags := ts\<rparr>"

definition with_runtime :: "string \<Rightarrow> string \<Rightarrow> pyroscope_config \<Rightarrow> pyroscope_config" where
  "with_runtime nm version c = c\<lparr>runtime_name := nm, runtime_version := version\<rparr>"

definition with_tenant_id :: "string \<Rightarrow> pyroscope_config \<Rightarrow> pyroscope_config" where
  "with_tenant_id t c = c\<lparr>tenant_id := Some t\<rparr>"

definition with_http_headers :: "(string \<times> string) list \<Rightarrow> pyroscope_config \<Rightarrow> pyroscope_config" where
  "with_http_headers hs c = c\<lparr>http_headers := hs\<rparr>"

definition with_upload_interval :: "nat \<Rightarrow> pyroscope_config \<Rightarrow> pyroscope_config" where
  "with_upload_interval ms c = c\<lparr>upload_interval := ms\<rparr>"

end
