(* ===== verification/Session.thy ===== *)
theory Session
  imports Config
begin

text \<open>
  \<open>rust/src/session.rs\<close> with the request types of \<open>rust/src/encode/gen\<close>: the labels of a series,
  the upload of a session, and the thread that uploads sessions one after the other. The HTTP
  client, the URL parser, gzip, the UUIDs and the byte encodings are parameters. A panic is
  \<open>None\<close>.
\<close>

subsection \<open>Labels\<close>

record label_pair =
  lp_name :: string
  lp_value :: string

record raw_sample =
  raw_profile :: "nat list"
  rs_id :: string

record raw_profile_series =
  rp_labels :: "label_pair list"
  rp_samples :: "raw_sample list"

record push_request =
  pr_series :: "raw_profile_series list"

definition LABEL_SCOPE_NAME :: string where "LABEL_SCOPE_NAME = ''otel.scope.name''"
definition LABEL_SCOPE_VERSION :: string where "LABEL_SCOPE_VERSION = ''otel.scope.version''"
definition LABEL_PROCESS_RUNTIME_NAME :: string where
  "LABEL_PROCESS_RUNTIME_NAME = ''process.runtime.name''"
definition LABEL_PROCESS_RUNTIME_VERSION :: string where
  "LABEL_PROCESS_RUNTIME_VERSION = ''process.runtime.version''"
definition LABEL_SERVICE_NAME :: string where "LABEL_SERVICE_NAME = ''service_name''"
definition LABEL_PROFILE_NAME :: string where "LABEL_PROFILE_NAME = ''__name__''"
definition SCOPE_NAME :: string where "SCOPE_NAME = ''com.grafana.pyroscope/python''"

definition push_label_if_absent :: "string \<Rightarrow> string \<Rightarrow> label_pair list \<Rightarrow> label_pair list" where
  "push_label_if_absent nm v ls =
     (if list_ex (\<lambda>l. lp_name l = nm) ls then ls else ls @ [\<lparr>lp_name = nm, lp_value = v\<rparr>])"

fun push_tags :: "(string \<times> string) list \<Rightarrow> label_pair list \<Rightarrow> label_pair list" where
  "push_tags [] ls = ls"
| "push_tags ((k, v) # ts) ls =
     (if k = LABEL_PROFILE_NAME then push_tags ts ls
      else push_tags ts (ls @ [\<lparr>lp_name = k, lp_value = v\<rparr>]))"

definition labels_for_profile :: "pyroscope_config \<Rightarrow> string \<Rightarrow> label_pair list" where
  "labels_for_profile config ptype =
     (let labels = [\<lparr>lp_name = LABEL_PROFILE_NAME, lp_value = ptype\<rparr>];
          labels = push_tags (cf_tags config) labels;
          labels = push_label_if_absent LABEL_SERVICE_NAME (application_name config) labels;
          labels = push_label_if_absent LABEL_SCOPE_NAME SCOPE_NAME labels;
          labels = push_label_if_absent LABEL_SCOPE_VERSION (spy_version config) labels;
          labels = push_label_if_absent LABEL_PROCESS_RUNTIME_NAME (runtime_name config) labels;
          labels = push_label_if_absent LABEL_PROCESS_RUNTIME_VERSION (runtime_version config) labels
      in labels)"

subsection \<open>Uploading a session\<close>

record session_data =
  se_config :: pyroscope_config
  se_batch :: "report_batch list"
  se_time_range :: time_range

definition session_new :: "time_range \<Rightarrow> pyroscope_config \<Rightarrow> report_batch list \<Rightarrow> session_data" where
  "session_new tr config batch = \<lparr>se_config = config, se_batch = batch, se_time_range = tr\<rparr>"

record http_request =
  rq_url :: string
  rq_headers :: "(string \<times> string) list"
  rq_basic_auth :: "(string \<times> string) option"
  rq_body :: "nat list"
  rq_timeout_s :: nat

text \<open>
  The libraries, over a state \<open>'w\<close>. \<open>url_push\<close> is \<open>path_segments_mut().unwrap().push(..)\<close>, which
  panics on a URL that cannot be a base; \<open>send\<close> gives the status and the text of the response.
\<close>

record ('u, 'w) upload_env =
  ue_wire_profile :: "profile \<Rightarrow> nat list"
  ue_wire_request :: "push_request \<Rightarrow> nat list"
  ue_uuid :: "'w \<Rightarrow> string \<times> 'w"
  ue_gzip :: "nat list \<Rightarrow> string + nat list"
  ue_parse_url :: "string \<Rightarrow> string + 'u"
  ue_url_push :: "string \<Rightarrow> 'u \<Rightarrow> 'u option"
  ue_url_text :: "'u \<Rightarrow> string"
  ue_send :: "http_request \<Rightarrow> 'w \<Rightarrow> (string + nat \<times> string option) \<times> 'w"

definition raw_profile_of ::
    "('u, 'w) upload_env \<Rightarrow> session_data \<Rightarrow> report_data \<Rightarrow> nat list option" where
  "raw_profile_of U s d =
     (case d of
        RawPprof bytes \<Rightarrow> Some bytes
      | Reports reports \<Rightarrow>
          map_option (ue_wire_profile U) (encode reports (sample_rate (se_config s)) (se_time_range s)))"

fun push_series ::
    "('u, 'w) upload_env \<Rightarrow> session_data \<Rightarrow> report_batch list \<Rightarrow> 'w \<Rightarrow>
     (raw_profile_series list \<times> 'w) option" where
  "push_series U s [] w = Some ([], w)"
| "push_series U s (b # bs) w =
     do { raw \<leftarrow> raw_profile_of U s (batch_data b);
          let labels = labels_for_profile (se_config s) (profile_type b);
          let (i, w) = ue_uuid U w;
          (rest, w) \<leftarrow> push_series U s bs w;
          Some (\<lparr>rp_labels = labels, rp_samples = [\<lparr>raw_profile = raw, rs_id = i\<rparr>]\<rparr> # rest, w) }"

definition request_headers :: "pyroscope_config \<Rightarrow> (string \<times> string) list" where
  "request_headers c =
     [(''User-Agent'', ''pyroscope-rs/'' @ spy_name c @ ''/'' @ spy_version c @ '' reqwest''),
      (''Content-Type'', ''application/proto''), (''Content-Encoding'', ''gzip'')] @
     (case tenant_id c of Some t \<Rightarrow> [(''X-Scope-OrgID'', t)] | None \<Rightarrow> []) @ http_headers c"

definition session_push ::
    "('u, 'w) upload_env \<Rightarrow> session_data \<Rightarrow> 'w \<Rightarrow> ((pyroscope_error + unit) \<times> 'w) option" where
  "session_push U s w =
     do { (series, w) \<leftarrow> push_series U s (se_batch s) w;
          case ue_gzip U (ue_wire_request U \<lparr>pr_series = series\<rparr>) of
            Inl e \<Rightarrow> Some (Inl (Io e), w)
          | Inr body \<Rightarrow>
              (case ue_parse_url U (cf_url (se_config s)) of
                 Inl e \<Rightarrow> Some (Inl (ParseError e), w)
               | Inr url \<Rightarrow>
                   do { url \<leftarrow> ue_url_push U ''push.v1.PusherService'' url;
                        url \<leftarrow> ue_url_push U ''Push'' url;
                        let rq = \<lparr>rq_url = ue_url_text U url, rq_headers = request_headers (se_config s),
                                  rq_basic_auth = map_option (\<lambda>a. (username a, password a))
                                                    (cf_basic_auth (se_config s)),
                                  rq_body = body, rq_timeout_s = 10\<rparr>;
                        case ue_send U rq w of
                          (Inl e, w) \<Rightarrow> Some (Inl (Reqwest e), w)
                        | (Inr _, w) \<Rightarrow> Some (Inr (), w) }) }"

subsection \<open>What the labels are\<close>

definition mk_label :: "string \<times> string \<Rightarrow> label_pair" where
  "mk_label kv = \<lparr>lp_name = fst kv, lp_value = snd kv\<rparr>"

definition default_labels :: "pyroscope_config \<Rightarrow> (string \<times> string) list" where
  "default_labels c =
     [(LABEL_SERVICE_NAME, application_name c), (LABEL_SCOPE_NAME, SCOPE_NAME),
      (LABEL_SCOPE_VERSION, spy_version c), (LABEL_PROCESS_RUNTIME_NAME, runtime_name c),
      (LABEL_PROCESS_RUNTIME_VERSION, runtime_version c)]"

lemmas label_names = LABEL_SERVICE_NAME_def LABEL_SCOPE_NAME_def LABEL_SCOPE_VERSION_def
  LABEL_PROCESS_RUNTIME_NAME_def LABEL_PROCESS_RUNTIME_VERSION_def LABEL_PROFILE_NAME_def

lemma default_labels_distinct:
  "distinct (List.map fst (default_labels c))" "LABEL_PROFILE_NAME \<notin> fst ` set (default_labels c)"
  by (simp_all add: default_labels_def label_names)

lemma push_tags_eq:
  "push_tags ts ls = ls @ List.map mk_label (filter (\<lambda>kv. fst kv \<noteq> LABEL_PROFILE_NAME) ts)"
  by (induction ts arbitrary: ls) (auto simp: mk_label_def)

lemma push_defaults_eq:
  assumes "distinct (List.map fst ds)"
  shows "fold (\<lambda>kv. push_label_if_absent (fst kv) (snd kv)) ds ls =
    ls @ List.map mk_label (filter (\<lambda>kv. fst kv \<notin> lp_name ` set ls) ds)"
  using assms
proof (induction ds arbitrary: ls)
  case (Cons d ds)
  show ?case
  proof (cases "fst d \<in> lp_name ` set ls")
    case True
    then have "push_label_if_absent (fst d) (snd d) ls = ls"
      by (auto simp: push_label_if_absent_def list_ex_iff)
    then show ?thesis using Cons.IH [of ls] Cons.prems True by simp
  next
    case False
    then have "\<not> list_ex (\<lambda>l. lp_name l = fst d) ls" unfolding list_ex_iff by (metis imageI)
    then have p: "push_label_if_absent (fst d) (snd d) ls = ls @ [mk_label d]"
      by (simp add: push_label_if_absent_def mk_label_def)
    have "fst d \<notin> fst ` set ds" using Cons.prems by simp
    then have "fst x \<noteq> fst d" if "x \<in> set ds" for x using that by (metis imageI)
    then have "filter (\<lambda>kv. fst kv \<notin> lp_name ` set (ls @ [mk_label d])) ds =
        filter (\<lambda>kv. fst kv \<notin> lp_name ` set ls) ds"
      by (intro filter_cong refl) (simp add: mk_label_def)
    then show ?thesis using Cons.IH [of "ls @ [mk_label d]"] Cons.prems p False by simp
  qed
qed simp

lemma labels_for_profile_eq:
  "labels_for_profile c ptype =
     mk_label (LABEL_PROFILE_NAME, ptype) #
     List.map mk_label (filter (\<lambda>kv. fst kv \<noteq> LABEL_PROFILE_NAME) (cf_tags c)) @
     List.map mk_label (filter (\<lambda>kv. fst kv \<notin> fst ` set (cf_tags c)) (default_labels c))"
proof -
  let ?user = "mk_label (LABEL_PROFILE_NAME, ptype) #
     List.map mk_label (filter (\<lambda>kv. fst kv \<noteq> LABEL_PROFILE_NAME) (cf_tags c))"
  have "labels_for_profile c ptype =
      fold (\<lambda>kv. push_label_if_absent (fst kv) (snd kv)) (default_labels c) ?user"
    by (simp add: labels_for_profile_def push_tags_eq default_labels_def mk_label_def)
  also have "\<dots> = ?user @ List.map mk_label (filter (\<lambda>kv. fst kv \<notin> lp_name ` set ?user) (default_labels c))"
    by (rule push_defaults_eq [OF default_labels_distinct(1)])
  also have "filter (\<lambda>kv. fst kv \<notin> lp_name ` set ?user) (default_labels c) =
      filter (\<lambda>kv. fst kv \<notin> fst ` set (cf_tags c)) (default_labels c)"
    using default_labels_distinct(2) [of c]
    by (intro filter_cong refl) (force simp: mk_label_def image_iff)
  finally show ?thesis by simp
qed

lemma series_of_batches:
  "push_series U s bs w = Some (series, w') \<Longrightarrow>
   List.map rp_labels series = List.map (\<lambda>b. labels_for_profile (se_config s) (profile_type b)) bs \<and>
   List.map (\<lambda>x. List.map raw_profile (rp_samples x)) series =
     List.map (\<lambda>b. case raw_profile_of U s (batch_data b) of None \<Rightarrow> [] | Some raw \<Rightarrow> [raw]) bs"
  by (induction bs arbitrary: w series) (auto simp: Let_def split: Option.bind_splits prod.splits)

subsection \<open>The session manager\<close>

text \<open>
  The channel holds at most ten signals: \<open>send\<close> waits while it is full. The manager's thread takes
  one signal per turn. It ends on \<open>Kill\<close>, on a panic, or when all senders are gone and the channel
  is empty; a send after that fails. \<open>mg_sent\<close> and \<open>mg_taken\<close> record what was sent and what the
  thread has taken.
\<close>

datatype session_signal = Upload session_data | Kill

record 'w manager =
  mg_queue :: "session_signal list"
  mg_done :: bool
  mg_world :: 'w
  mg_sent :: "session_signal list"
  mg_taken :: "session_signal list"

definition CHANNEL_SIZE :: nat where "CHANNEL_SIZE = 10"

definition manager_new :: "'w \<Rightarrow> 'w manager" where
  "manager_new w = \<lparr>mg_queue = [], mg_done = False, mg_world = w, mg_sent = [], mg_taken = []\<rparr>"

text \<open>\<open>tx.send(session)?\<close>: \<open>None\<close> while the send has to wait.\<close>

definition manager_send :: "session_signal \<Rightarrow> 'w manager \<Rightarrow> ((pyroscope_error + unit) \<times> 'w manager) option" where
  "manager_send sig m =
     (if mg_done m then Some (Inl (send_error ''sending on a closed channel''), m)
      else if length (mg_queue m) < CHANNEL_SIZE
      then Some (Inr (), m\<lparr>mg_queue := mg_queue m @ [sig], mg_sent := mg_sent m @ [sig]\<rparr>)
      else None)"

text \<open>One turn of \<open>while let Ok(signal) = rx.recv()\<close>; the error of an upload is only logged.\<close>

definition manager_turn :: "('u, 'w) upload_env \<Rightarrow> 'w manager \<Rightarrow> 'w manager" where
  "manager_turn U m =
     (if mg_done m then m
      else case mg_queue m of
             [] \<Rightarrow> m
           | sig # q \<Rightarrow>
               (let m = m\<lparr>mg_queue := q, mg_taken := mg_taken m @ [sig]\<rparr>
                in case sig of
                     Kill \<Rightarrow> m\<lparr>mg_done := True\<rparr>
                   | Upload s \<Rightarrow>
                       (case session_push U s (mg_world m) of
                          None \<Rightarrow> m\<lparr>mg_done := True\<rparr>
                        | Some (_, w) \<Rightarrow> m\<lparr>mg_world := w\<rparr>)))"

definition manager_disconnected :: "'w manager \<Rightarrow> 'w manager" where
  "manager_disconnected m = (if mg_queue m = [] then m\<lparr>mg_done := True\<rparr> else m)"

inductive manager_step :: "('u, 'w) upload_env \<Rightarrow> 'w manager \<Rightarrow> 'w manager \<Rightarrow> bool" for U where
  Send: "manager_send sig m = Some (r, m') \<Longrightarrow> manager_step U m m'"
| Turn: "manager_step U m (manager_turn U m)"
| Disconnect: "manager_step U m (manager_disconnected m)"

inductive manager_reachable :: "('u, 'w) upload_env \<Rightarrow> 'w manager \<Rightarrow> bool" for U where
  Init: "manager_reachable U (manager_new w)"
| Step: "manager_reachable U m \<Longrightarrow> manager_step U m m' \<Longrightarrow> manager_reachable U m'"

definition manager_inv :: "'w manager \<Rightarrow> bool" where
  "manager_inv m \<longleftrightarrow> length (mg_queue m) \<le> CHANNEL_SIZE \<and> mg_sent m = mg_taken m @ mg_queue m \<and>
     Kill \<notin> set (butlast (mg_taken m)) \<and> (\<not> mg_done m \<longrightarrow> Kill \<notin> set (mg_taken m))"

lemma manager_turn_inv: "manager_inv m \<Longrightarrow> manager_inv (manager_turn U m)"
  by (auto simp: manager_turn_def manager_inv_def Let_def butlast_append
      split: list.splits session_signal.splits option.splits dest: in_set_butlastD)

lemma manager_step_inv: "manager_step U m m' \<Longrightarrow> manager_inv m \<Longrightarrow> manager_inv m'"
proof (induction rule: manager_step.induct)
  case (Send sig m r m')
  then show ?case by (auto simp: manager_send_def manager_inv_def split: if_splits)
next
  case (Turn m)
  then show ?case by (rule manager_turn_inv)
next
  case (Disconnect m)
  then show ?case by (auto simp: manager_disconnected_def manager_inv_def)
qed

lemma manager_reachable_inv: "manager_reachable U m \<Longrightarrow> manager_inv m"
proof (induction rule: manager_reachable.induct)
  case (Init w)
  then show ?case by (simp add: manager_inv_def manager_new_def)
next
  case (Step m m')
  then show ?case using manager_step_inv by blast
qed

text \<open>
  The manager ends within as many turns as there are signals up to one that ends it: the \<open>Kill\<close>, or
  a session whose upload panics.
\<close>

definition ends_manager :: "('u, 'w) upload_env \<Rightarrow> session_signal \<Rightarrow> bool" where
  "ends_manager U sig \<longleftrightarrow> (case sig of Kill \<Rightarrow> True | Upload s \<Rightarrow> (\<forall>w. session_push U s w = None))"

lemma manager_turn_progress:
  assumes "\<not> mg_done m" "mg_queue m = sig # q"
  shows "mg_queue (manager_turn U m) = q \<and> (mg_done (manager_turn U m) \<or> \<not> ends_manager U sig)"
  using assms by (auto simp: manager_turn_def ends_manager_def Let_def split: session_signal.splits option.splits)

lemma manager_done_turns: "mg_done m \<Longrightarrow> (manager_turn U ^^ k) m = m"
  by (induction k) (simp_all add: manager_turn_def)

lemma manager_ends:
  "sig \<in> set (mg_queue m) \<Longrightarrow> ends_manager U sig \<Longrightarrow> length (mg_queue m) \<le> n \<Longrightarrow>
   mg_done ((manager_turn U ^^ n) m)"
proof (induction n arbitrary: m)
  case (Suc n)
  show ?case
  proof (cases "mg_done m")
    case True
    then show ?thesis by (simp only: manager_done_turns)
  next
    case False
    obtain x q where q: "mg_queue m = x # q" using Suc.prems(1) by (cases "mg_queue m") auto
    note P = manager_turn_progress [OF False q, of U]
    have "mg_done ((manager_turn U ^^ n) (manager_turn U m))"
    proof (cases "mg_done (manager_turn U m)")
      case True
      then show ?thesis by (simp add: manager_done_turns)
    next
      case False
      then have "sig \<in> set (mg_queue (manager_turn U m))" "length (mg_queue (manager_turn U m)) \<le> n"
        using P Suc.prems q by auto
      then show ?thesis using Suc.IH Suc.prems(2) by blast
    qed
    then show ?thesis by (simp add: funpow_swap1)
  qed
qed simp

lemma manager_drains:
  "Kill \<in> set (mg_queue m) \<Longrightarrow> length (mg_queue m) \<le> n \<Longrightarrow> mg_done ((manager_turn U ^^ n) m)"
  by (erule manager_ends) (simp_all add: ends_manager_def)

subsection \<open>Properties\<close>

text \<open>
  C18: the labels of a series. They start with the profile type under the reserved name, which a
  user tag cannot override; every other user tag follows with its own value; and each of the five
  standard labels is added with its default unless a user tag has its name. No name occurs twice.
\<close>

theorem session_labels:
  assumes "distinct (List.map fst (cf_tags c))"
  shows "labels_for_profile c ptype =
      mk_label (LABEL_PROFILE_NAME, ptype) #
      List.map mk_label (filter (\<lambda>kv. fst kv \<noteq> LABEL_PROFILE_NAME) (cf_tags c)) @
      List.map mk_label (filter (\<lambda>kv. fst kv \<notin> fst ` set (cf_tags c)) (default_labels c)) \<and>
    distinct (List.map lp_name (labels_for_profile c ptype))"
proof -
  have n: "lp_name \<circ> mk_label = fst" by (simp add: fun_eq_iff mk_label_def)
  have u: "distinct (List.map fst (filter P (cf_tags c)))" for P
    using assms by (simp add: distinct_map_filter)
  have d: "distinct (List.map fst (filter P (default_labels c)))" for P
    using default_labels_distinct(1) by (simp add: distinct_map_filter)
  have "distinct (List.map lp_name (labels_for_profile c ptype))"
    using u d default_labels_distinct(2) [of c] unfolding labels_for_profile_eq
    by (auto simp: n mk_label_def) (metis fst_conv imageI)
  then show ?thesis using labels_for_profile_eq by blast
qed

text \<open>
  C17: sessions are uploaded in order, without loss, and the manager can be stopped. In every
  reachable state the signals sent are those taken, in the same order, followed by those waiting,
  of which there are at most ten; nothing is taken after a \<open>Kill\<close>; a send fails exactly when the
  manager has ended and waits exactly when the channel is full; and once a \<open>Kill\<close> waits, ten
  turns end the manager, whatever the uploads do.
\<close>

theorem session_manager_fifo_and_stops:
  assumes "manager_reachable U m"
  shows "mg_sent m = mg_taken m @ mg_queue m \<and> length (mg_queue m) \<le> CHANNEL_SIZE \<and>
    Kill \<notin> set (butlast (mg_taken m)) \<and>
    (case manager_send sig m of
       None \<Rightarrow> \<not> mg_done m \<and> length (mg_queue m) = CHANNEL_SIZE
     | Some (Inl _, m') \<Rightarrow> mg_done m \<and> m' = m
     | Some (Inr _, m') \<Rightarrow> \<not> mg_done m \<and> mg_sent m' = mg_sent m @ [sig]) \<and>
    (Kill \<in> set (mg_queue m) \<longrightarrow> mg_done ((manager_turn U ^^ CHANNEL_SIZE) m))"
  using manager_reachable_inv [OF assms] manager_drains [of m CHANNEL_SIZE U]
  by (auto simp: manager_inv_def manager_send_def split: if_splits)

subsection \<open>Witnesses\<close>

definition example_config :: pyroscope_config where
  "example_config = config_new ''http://x'' ''app'' 100 ''pyspy'' ''1.0''
     \<lparr>mem_enabled = False, enable_mem_domain = False, max_nframe = 0, heap_sample_size = 0\<rparr>
     \<lparr>st_enabled = False, st_oncpu = True\<rparr>"

theorem session_labels_witness:
  "List.map lp_value (labels_for_profile (with_tags [(''service_name'', ''mine''), (''__name__'', ''no'')] example_config) ''cpu'') =
     [''cpu'', ''mine'', ''com.grafana.pyroscope/python'', ''1.0'', '''', '''']"
proof -
  let ?c = "with_tags [(''service_name'', ''mine''), (''__name__'', ''no'')] example_config"
  have "distinct (List.map fst (cf_tags ?c))" by (simp add: with_tags_def)
  from conjunct1 [OF session_labels [OF this, of "''cpu''"]] show ?thesis
    by (simp only:) (simp add: with_tags_def example_config_def config_new_def default_labels_def label_names
        mk_label_def SCOPE_NAME_def)
qed

definition example_upload :: "(string, nat) upload_env" where
  "example_upload = \<lparr>ue_wire_profile = (\<lambda>_. [1]), ue_wire_request = (\<lambda>_. [2]), ue_uuid = (\<lambda>w. (''u'', w)),
     ue_gzip = Inr, ue_parse_url = Inr, ue_url_push = (\<lambda>s u. Some (u @ ''/'' @ s)), ue_url_text = (\<lambda>u. u),
     ue_send = (\<lambda>_ w. (Inr (200, None), Suc w))\<rparr>"

theorem session_manager_fifo_and_stops_witness:
  "\<exists>m. manager_reachable example_upload m \<and> mg_queue m = [Kill] \<and>
     mg_done ((manager_turn example_upload ^^ CHANNEL_SIZE) m)"
proof -
  let ?m = "(manager_new 0)\<lparr>mg_queue := [Kill], mg_sent := [Kill]\<rparr>"
  have "manager_send Kill (manager_new 0) = Some (Inr (), ?m)"
    by (simp add: manager_send_def manager_new_def CHANNEL_SIZE_def)
  then have "manager_reachable example_upload ?m"
    by (blast intro: manager_reachable.intros manager_step.intros)
  from this session_manager_fifo_and_stops [OF this, of Kill] show ?thesis by (intro exI [of _ ?m]) simp
qed

end
