(* ===== verification/Layouts.thy ===== *)
theory Layouts
  imports Prelude
begin

text \<open>
  The checked-in CPython layouts of \<open>rust/crates/python-offsets/src/v3_10.rs\<close> to \<open>v3_15.rs\<close>.
  A constant that only some versions define is an \<open>option\<close>: it is \<open>None\<close> exactly where the
  crate compiled for that version has no such constant, and code under the matching
  \<open>cfg\<close> is guarded by it.
\<close>

type_synonym py_version = "nat \<times> nat"

record layout =
  PY_VERSION :: py_version
  OB_TYPE :: usize
  THREAD_FRAME :: usize
  CFRAME_FRAME :: "usize option"
  EXECUTABLE :: usize
  EXECUTABLE_TAG_BITS :: "usize option"
  PREVIOUS :: usize
  INSTR :: usize
  OWNER :: "usize option"
  FRAME_OWNED_BY_CSTACK :: "nat option"
  FRAME_OWNED_BY_INTERPRETER :: "nat option"
  CO_FILENAME :: usize
  CO_QUALNAME :: usize
  CO_FIRSTLINENO :: usize
  CO_LINETABLE :: usize
  CO_CODE_ADAPTIVE :: "usize option"
  UNICODE_LENGTH :: usize
  UNICODE_STATE :: usize
  ASCII_SIZE :: usize
  COMPACT_SIZE :: usize
  BYTES_SIZE :: usize
  BYTES_DATA :: usize
  STATE_KIND_MASK :: u64
  STATE_KIND_SHIFT :: u64
  STATE_COMPACT :: u64
  STATE_ASCII :: u64
  STATE_READY :: "u64 option"

definition v3_10 :: layout where
  "v3_10 = \<lparr>PY_VERSION = (3, 10), OB_TYPE = 8, THREAD_FRAME = 24, CFRAME_FRAME = None,
     EXECUTABLE = 32, EXECUTABLE_TAG_BITS = None, PREVIOUS = 24, INSTR = 96, OWNER = None,
     FRAME_OWNED_BY_CSTACK = None, FRAME_OWNED_BY_INTERPRETER = None,
     CO_FILENAME = 104, CO_QUALNAME = 112, CO_FIRSTLINENO = 40, CO_LINETABLE = 120,
     CO_CODE_ADAPTIVE = None, UNICODE_LENGTH = 16, UNICODE_STATE = 32, ASCII_SIZE = 48,
     COMPACT_SIZE = 72, BYTES_SIZE = 16, BYTES_DATA = 32, STATE_KIND_MASK = 0x1c,
     STATE_KIND_SHIFT = 0x2, STATE_COMPACT = 0x20, STATE_ASCII = 0x40,
     STATE_READY = Some 0x80\<rparr>"

definition v3_11 :: layout where
  "v3_11 = \<lparr>PY_VERSION = (3, 11), OB_TYPE = 8, THREAD_FRAME = 56, CFRAME_FRAME = Some 8,
     EXECUTABLE = 32, EXECUTABLE_TAG_BITS = None, PREVIOUS = 48, INSTR = 56, OWNER = None,
     FRAME_OWNED_BY_CSTACK = None, FRAME_OWNED_BY_INTERPRETER = None,
     CO_FILENAME = 112, CO_QUALNAME = 128, CO_FIRSTLINENO = 72, CO_LINETABLE = 136,
     CO_CODE_ADAPTIVE = Some 184, UNICODE_LENGTH = 16, UNICODE_STATE = 32, ASCII_SIZE = 48,
     COMPACT_SIZE = 72, BYTES_SIZE = 16, BYTES_DATA = 32, STATE_KIND_MASK = 0x1c,
     STATE_KIND_SHIFT = 0x2, STATE_COMPACT = 0x20, STATE_ASCII = 0x40, STATE_READY = None\<rparr>"

definition v3_12 :: layout where
  "v3_12 = \<lparr>PY_VERSION = (3, 12), OB_TYPE = 8, THREAD_FRAME = 56, CFRAME_FRAME = Some 0,
     EXECUTABLE = 0, EXECUTABLE_TAG_BITS = None, PREVIOUS = 8, INSTR = 56, OWNER = Some 70,
     FRAME_OWNED_BY_CSTACK = Some 3, FRAME_OWNED_BY_INTERPRETER = None,
     CO_FILENAME = 112, CO_QUALNAME = 128, CO_FIRSTLINENO = 68, CO_LINETABLE = 136,
     CO_CODE_ADAPTIVE = Some 192, UNICODE_LENGTH = 16, UNICODE_STATE = 32, ASCII_SIZE = 40,
     COMPACT_SIZE = 56, BYTES_SIZE = 16, BYTES_DATA = 32, STATE_KIND_MASK = 0x1c,
     STATE_KIND_SHIFT = 0x2, STATE_COMPACT = 0x20, STATE_ASCII = 0x40, STATE_READY = None\<rparr>"

definition v3_13 :: layout where
  "v3_13 = \<lparr>PY_VERSION = (3, 13), OB_TYPE = 8, THREAD_FRAME = 72, CFRAME_FRAME = None,
     EXECUTABLE = 0, EXECUTABLE_TAG_BITS = None, PREVIOUS = 8, INSTR = 56, OWNER = Some 70,
     FRAME_OWNED_BY_CSTACK = Some 3, FRAME_OWNED_BY_INTERPRETER = None,
     CO_FILENAME = 112, CO_QUALNAME = 128, CO_FIRSTLINENO = 68, CO_LINETABLE = 136,
     CO_CODE_ADAPTIVE = Some 200, UNICODE_LENGTH = 16, UNICODE_STATE = 32, ASCII_SIZE = 40,
     COMPACT_SIZE = 56, BYTES_SIZE = 16, BYTES_DATA = 32, STATE_KIND_MASK = 0x1c,
     STATE_KIND_SHIFT = 0x2, STATE_COMPACT = 0x20, STATE_ASCII = 0x40, STATE_READY = None\<rparr>"

definition v3_14 :: layout where
  "v3_14 = \<lparr>PY_VERSION = (3, 14), OB_TYPE = 8, THREAD_FRAME = 72, CFRAME_FRAME = None,
     EXECUTABLE = 0, EXECUTABLE_TAG_BITS = Some 3, PREVIOUS = 8, INSTR = 56, OWNER = Some 74,
     FRAME_OWNED_BY_CSTACK = Some 4, FRAME_OWNED_BY_INTERPRETER = Some 3,
     CO_FILENAME = 112, CO_QUALNAME = 128, CO_FIRSTLINENO = 68, CO_LINETABLE = 136,
     CO_CODE_ADAPTIVE = Some 208, UNICODE_LENGTH = 16, UNICODE_STATE = 32, ASCII_SIZE = 40,
     COMPACT_SIZE = 56, BYTES_SIZE = 16, BYTES_DATA = 32, STATE_KIND_MASK = 0x1c,
     STATE_KIND_SHIFT = 0x2, STATE_COMPACT = 0x20, STATE_ASCII = 0x40, STATE_READY = None\<rparr>"

definition v3_15 :: layout where
  "v3_15 = \<lparr>PY_VERSION = (3, 15), OB_TYPE = 8, THREAD_FRAME = 72, CFRAME_FRAME = None,
     EXECUTABLE = 0, EXECUTABLE_TAG_BITS = Some 3, PREVIOUS = 8, INSTR = 56, OWNER = Some 74,
     FRAME_OWNED_BY_CSTACK = None, FRAME_OWNED_BY_INTERPRETER = Some 3,
     CO_FILENAME = 112, CO_QUALNAME = 128, CO_FIRSTLINENO = 68, CO_LINETABLE = 136,
     CO_CODE_ADAPTIVE = Some 208, UNICODE_LENGTH = 16, UNICODE_STATE = 32, ASCII_SIZE = 40,
     COMPACT_SIZE = 56, BYTES_SIZE = 16, BYTES_DATA = 32, STATE_KIND_MASK = 0x1c,
     STATE_KIND_SHIFT = 0x2, STATE_COMPACT = 0x20, STATE_ASCII = 0x40, STATE_READY = None\<rparr>"

lemmas layout_defs = v3_10_def v3_11_def v3_12_def v3_13_def v3_14_def v3_15_def

text \<open>The version cfgs of the crates, and the layout each version selects.\<close>

definition py_at_least :: "py_version \<Rightarrow> nat \<Rightarrow> bool" where
  "py_at_least v minor \<longleftrightarrow> fst v = 3 \<and> minor \<le> snd v"

definition layouts :: "layout list" where
  "layouts = [v3_10, v3_11, v3_12, v3_13, v3_14, v3_15]"

definition layout_for :: "py_version \<Rightarrow> layout option" where
  "layout_for v = find (\<lambda>L. PY_VERSION L = v) layouts"

lemma layout_for_cases:
  assumes "layout_for v = Some L"
  shows "PY_VERSION L = v" "L \<in> set layouts"
  using assms unfolding layout_for_def by (auto simp: find_Some_iff)

text \<open>The optional constants exist exactly under the cfgs the unwinder tests.\<close>

lemma layout_cfgs:
  assumes "L \<in> set layouts"
  shows "CFRAME_FRAME L \<noteq> None \<longleftrightarrow> py_at_least (PY_VERSION L) 11 \<and> \<not> py_at_least (PY_VERSION L) 13"
    "OWNER L \<noteq> None \<longleftrightarrow> py_at_least (PY_VERSION L) 12"
    "EXECUTABLE_TAG_BITS L \<noteq> None \<longleftrightarrow> py_at_least (PY_VERSION L) 14"
    "CO_CODE_ADAPTIVE L \<noteq> None \<longleftrightarrow> py_at_least (PY_VERSION L) 11"
  using assms by (auto simp: layouts_def layout_defs py_at_least_def)

end
