(* ===== verification/Unwind.thy ===== *)
theory Unwind
  imports Layouts Ringbuffer
begin

text \<open>
  The crate \<open>rust/crates/python-unwind\<close>: the signal handler that walks the frame chain of the
  interrupted thread and publishes the code addresses as one record of the ring buffer.

  Memory is a parameter: \<open>kindasafe::u64\<close> and \<open>kindasafe::slice\<close> are the two fields of
  \<open>memory\<close>, functions of the address, so the chain is assumed not to change during one walk
  (the crate documents that the interrupted thread is paused and nobody else mutates it).
  The address of \<open>PyCode_Type\<close> and the thread state pointer are arguments. Bytes are little
  endian, as on every 64-bit target the package is built for.
\<close>

subsection \<open>Constants\<close>

definition MAX_FRAMES :: nat where "MAX_FRAMES = 256"

definition SLOTS :: nat where "SLOTS = 2 ^ 16"

definition EXECUTABLE_MASK :: "layout \<Rightarrow> usize" where
  "EXECUTABLE_MASK L = NOT (case EXECUTABLE_TAG_BITS L of None \<Rightarrow> 0 | Some bits \<Rightarrow> bits)"

definition owner_bit :: "nat option \<Rightarrow> u8" where
  "owner_bit n = (case n of None \<Rightarrow> 0 | Some k \<Rightarrow> push_bit k 1)"

definition SKIP_OWNERS :: "layout \<Rightarrow> u8" where
  "SKIP_OWNERS L =
     owner_bit (FRAME_OWNED_BY_CSTACK L) OR owner_bit (FRAME_OWNED_BY_INTERPRETER L)"

subsection \<open>Data\<close>

datatype unwind_error = NoThreadState | Read | InvalidCodeType | Truncated | Invalid

record frame =
  code :: usize
  instr :: usize

definition default_frame :: frame where
  "default_frame = \<lparr>code = 0, instr = 0\<rparr>"

record memory =
  ks_u64 :: "u64 \<Rightarrow> u64 option"
  ks_slice :: "u64 \<Rightarrow> nat \<Rightarrow> (nat \<Rightarrow> u8) option"

record metrics =
  contentions :: usize
  buffer_dropped :: usize
  truncated :: usize
  invalid :: usize
  no_thread_state :: usize
  invalid_code_type :: usize
  read_errors :: usize
  resolve_error :: usize

definition metrics_zero :: metrics where
  "metrics_zero = \<lparr>contentions = 0, buffer_dropped = 0, truncated = 0, invalid = 0,
     no_thread_state = 0, invalid_code_type = 0, read_errors = 0, resolve_error = 0\<rparr>"

subsection \<open>Reading\<close>

definition checked_add :: "usize \<Rightarrow> usize \<Rightarrow> usize option" where
  "checked_add a b = (if unat a + unat b < 2 ^ 64 then Some (a + b) else None)"

definition field_addr :: "usize \<Rightarrow> usize \<Rightarrow> usize \<Rightarrow> unwind_error + usize" where
  "field_addr base offset width =
     (case checked_add base offset of
        None \<Rightarrow> Inl Invalid
      | Some addr \<Rightarrow> (case checked_add addr width of None \<Rightarrow> Inl Invalid | Some _ \<Rightarrow> Inr addr))"

definition read_usize :: "memory \<Rightarrow> usize \<Rightarrow> usize \<Rightarrow> unwind_error + usize" where
  "read_usize M base offset =
     res_bind (field_addr base offset 8)
       (\<lambda>addr. case ks_u64 M addr of None \<Rightarrow> Inl Read | Some w \<Rightarrow> Inr w)"

definition read_bytes :: "memory \<Rightarrow> nat \<Rightarrow> usize \<Rightarrow> usize \<Rightarrow> unwind_error + u8 list" where
  "read_bytes M n base offset =
     res_bind (field_addr base offset (of_nat n))
       (\<lambda>addr. case ks_slice M addr n of
                 None \<Rightarrow> Inl Read | Some bytes \<Rightarrow> Inr (List.map bytes [0..<n]))"

definition read_u8 :: "memory \<Rightarrow> usize \<Rightarrow> usize \<Rightarrow> unwind_error + u8" where
  "read_u8 M base offset = res_bind (read_bytes M 1 base offset) (\<lambda>bs. Inr (bs ! 0))"

text \<open>\<open>i32::from_ne_bytes\<close>, then \<open>as isize as usize\<close>: sign extension.\<close>

definition i32_from_bytes :: "u8 list \<Rightarrow> 32 word" where
  "i32_from_bytes bs = foldr (\<lambda>b w. push_bit 8 w OR ucast b) bs 0"

definition read_i32 :: "memory \<Rightarrow> usize \<Rightarrow> usize \<Rightarrow> unwind_error + usize" where
  "read_i32 M base offset =
     res_bind (read_bytes M 4 base offset) (\<lambda>bs. Inr (scast (i32_from_bytes bs)))"

subsection \<open>The walk\<close>

definition current_frame :: "layout \<Rightarrow> memory \<Rightarrow> usize \<Rightarrow> unwind_error + usize" where
  "current_frame L M tstate =
     res_bind (read_usize M tstate (THREAD_FRAME L))
       (\<lambda>frame. case CFRAME_FRAME L of
                  Some off \<Rightarrow> read_usize M frame off
                | None \<Rightarrow> Inr frame)"

text \<open>
  The shift \<open>1 << owner\<close> of a \<open>u8\<close>: in a release build the shift amount is reduced modulo 8.
\<close>

definition is_skipped :: "layout \<Rightarrow> memory \<Rightarrow> usize \<Rightarrow> unwind_error + bool" where
  "is_skipped L M fr =
     (case OWNER L of
        None \<Rightarrow> Inr False
      | Some off \<Rightarrow>
          res_bind (read_u8 M fr off)
            (\<lambda>owner. Inr (SKIP_OWNERS L AND push_bit (unat owner mod 8) 1 \<noteq> 0)))"

definition read_instr :: "layout \<Rightarrow> memory \<Rightarrow> usize \<Rightarrow> unwind_error + usize" where
  "read_instr L M fr =
     (if py_at_least (PY_VERSION L) 11 then read_usize M fr (INSTR L)
      else read_i32 M fr (INSTR L))"

definition read_frame :: "layout \<Rightarrow> memory \<Rightarrow> usize \<Rightarrow> usize \<Rightarrow> unwind_error + frame" where
  "read_frame L M code_type fr =
     res_bind (read_usize M fr (EXECUTABLE L)) (\<lambda>raw.
       let executable = raw AND EXECUTABLE_MASK L in
       res_bind (read_instr L M fr) (\<lambda>ins.
         if executable = 0 then Inl InvalidCodeType
         else res_bind (read_usize M executable (OB_TYPE L)) (\<lambda>ty.
           if ty \<noteq> code_type then Inl InvalidCodeType
           else Inr \<lparr>code = executable, instr = ins\<rparr>)))"

text \<open>
  The loop of \<open>walk\<close>: \<open>left\<close> is \<open>MAX_FRAMES - visited\<close>, \<open>frames\<close> the caller's slice. The
  result is the initial part of the slice.
\<close>

fun walk_loop ::
    "layout \<Rightarrow> memory \<Rightarrow> usize \<Rightarrow> nat \<Rightarrow> usize \<Rightarrow> nat \<Rightarrow> frame list \<Rightarrow> unwind_error + frame list" where
  "walk_loop L M code_type 0 fr pushed frames =
     (if fr = 0 then Inr (take pushed frames) else Inl Truncated)"
| "walk_loop L M code_type (Suc left) fr pushed frames =
     (if fr = 0 then Inr (take pushed frames)
      else
        res_bind (read_usize M fr (PREVIOUS L)) (\<lambda>previous.
        res_bind (is_skipped L M fr) (\<lambda>skip.
          if skip then walk_loop L M code_type left previous pushed frames
          else
            res_bind (read_frame L M code_type fr) (\<lambda>f.
              if pushed < length frames
              then walk_loop L M code_type left previous (Suc pushed) (frames[pushed := f])
              else Inl Truncated))))"

definition walk ::
    "layout \<Rightarrow> memory \<Rightarrow> usize \<Rightarrow> usize \<Rightarrow> frame list \<Rightarrow> unwind_error + frame list" where
  "walk L M code_type tstate frames =
     res_bind (current_frame L M tstate)
       (\<lambda>fr. walk_loop L M code_type MAX_FRAMES fr 0 frames)"

fun count_error :: "unwind_error \<Rightarrow> metrics \<Rightarrow> metrics" where
  "count_error NoThreadState mt = mt\<lparr>no_thread_state := no_thread_state mt + 1\<rparr>"
| "count_error InvalidCodeType mt = mt\<lparr>invalid_code_type := invalid_code_type mt + 1\<rparr>"
| "count_error Read mt = mt\<lparr>read_errors := read_errors mt + 1\<rparr>"
| "count_error Truncated mt = mt\<lparr>truncated := truncated mt + 1\<rparr>"
| "count_error Invalid mt = mt\<lparr>invalid := invalid mt + 1\<rparr>"

definition unwind_thread ::
    "layout \<Rightarrow> memory \<Rightarrow> usize \<Rightarrow> usize \<Rightarrow> frame list \<Rightarrow> metrics \<Rightarrow>
     (unwind_error + frame list) \<times> metrics" where
  "unwind_thread L M code_type tstate frames mt =
     (let result = (if tstate = 0 then Inl NoThreadState else walk L M code_type tstate frames)
      in (result, case result of Inl e \<Rightarrow> count_error e mt | Inr _ \<Rightarrow> mt))"

subsection \<open>The handler\<close>

record unwinder =
  RECORDS :: "frame ring_buffer"
  METRICS :: metrics

definition handler :: "layout \<Rightarrow> memory \<Rightarrow> usize \<Rightarrow> usize \<Rightarrow> unwinder \<Rightarrow> unwinder" where
  "handler L M code_type tstate u =
     (let frames = replicate MAX_FRAMES default_frame;
          (result, mt) = unwind_thread L M code_type tstate frames (METRICS u)
      in case result of
           Inl _ \<Rightarrow> u\<lparr>METRICS := mt\<rparr>
         | Inr frames \<Rightarrow>
             (case acquire_producer (RECORDS u) of
                (None, rb) \<Rightarrow>
                  u\<lparr>RECORDS := rb, METRICS := mt\<lparr>contentions := contentions mt + 1\<rparr>\<rparr>
              | (Some p, rb) \<Rightarrow>
                  (let (pushed, _, rb) = push_slice p rb frames;
                       mt = (case pushed of
                               Inl Full \<Rightarrow> mt\<lparr>buffer_dropped := buffer_dropped mt + 1\<rparr>
                             | Inr _ \<Rightarrow> mt)
                   in u\<lparr>RECORDS := drop_producer rb, METRICS := mt\<rparr>)))"

definition take_drop_counts :: "metrics \<Rightarrow> (string \<times> usize) list \<times> metrics" where
  "take_drop_counts mt =
     ([(''contentions'', contentions mt),
       (''buffer_dropped'', buffer_dropped mt),
       (''no_thread_state'', no_thread_state mt),
       (''invalid_code_type'', invalid_code_type mt),
       (''read_errors'', read_errors mt),
       (''truncated'', truncated mt),
       (''invalid'', invalid mt),
       (''resolve_error'', resolve_error mt)], metrics_zero)"

subsection \<open>What a frame chain is\<close>

text \<open>
  One node of the chain as the walk reads it: the previous frame and, unless the owner is
  skipped, the recorded frame. \<open>chain fr ns fr'\<close> says that \<open>ns\<close> are the nodes met on the way
  from \<open>fr\<close> to \<open>fr'\<close>.
\<close>

definition node_at ::
    "layout \<Rightarrow> memory \<Rightarrow> usize \<Rightarrow> usize \<Rightarrow> unwind_error + (usize \<times> frame option)" where
  "node_at L M code_type fr =
     res_bind (read_usize M fr (PREVIOUS L)) (\<lambda>previous.
     res_bind (is_skipped L M fr) (\<lambda>skip.
       if skip then Inr (previous, None)
       else res_bind (read_frame L M code_type fr) (\<lambda>f. Inr (previous, Some f))))"

inductive chain ::
    "layout \<Rightarrow> memory \<Rightarrow> usize \<Rightarrow> usize \<Rightarrow> frame option list \<Rightarrow> usize \<Rightarrow> bool"
  for L M code_type where
  chain_Nil: "chain L M code_type fr [] fr"
| chain_Cons: "fr \<noteq> 0 \<Longrightarrow> node_at L M code_type fr = Inr (previous, n) \<Longrightarrow>
     chain L M code_type previous ns fr' \<Longrightarrow> chain L M code_type fr (n # ns) fr'"

inductive_simps chain_Nil_iff [simp]: "chain L M ct fr [] fr'"
inductive_simps chain_Cons_iff: "chain L M ct fr (n # ns) fr'"
inductive_simps chain_from_0: "chain L M ct 0 ns fr'"

definition shown :: "frame option list \<Rightarrow> frame list" where
  "shown ns = List.map_filter (\<lambda>n. n) ns"

lemma shown_simps [simp]:
  "shown [] = []" "shown (None # ns) = shown ns" "shown (Some f # ns) = f # shown ns"
  by (simp_all add: shown_def List.map_filter_simps)

lemma length_shown_le: "length (shown ns) \<le> length ns"
  by (induction ns) (auto simp: shown_def List.map_filter_simps split: option.splits)

lemma set_shown: "f \<in> set (shown ns) \<longleftrightarrow> Some f \<in> set ns"
  by (induction ns) (auto simp: shown_def List.map_filter_simps split: option.splits)

lemma chain_0_iff: "chain L M ct 0 ns fr' \<longleftrightarrow> ns = [] \<and> fr' = 0"
  unfolding chain_from_0 by auto

lemma walk_loop_0 [simp]: "walk_loop L M ct left 0 pushed frames = Inr (take pushed frames)"
  by (cases left) simp_all

lemma walk_loop_step:
  assumes "fr \<noteq> 0"
  shows "walk_loop L M ct (Suc left) fr pushed frames =
    (case node_at L M ct fr of
       Inl e \<Rightarrow> Inl e
     | Inr (previous, None) \<Rightarrow> walk_loop L M ct left previous pushed frames
     | Inr (previous, Some f) \<Rightarrow>
         if pushed < length frames
         then walk_loop L M ct left previous (Suc pushed) (frames[pushed := f])
         else Inl Truncated)"
  using assms
  by (cases "read_usize M fr (PREVIOUS L)"; cases "is_skipped L M fr";
      cases "read_frame L M ct fr") (simp_all add: node_at_def)

declare walk_loop.simps(2) [simp del]

lemma take_Suc_update:
  "n < length xs \<Longrightarrow> take (Suc n) (xs[n := x]) = take n xs @ [x]"
  by (simp add: take_Suc_conv_app_nth)

text \<open>The walk succeeds exactly on the chains that end within the budget and fit the slice.\<close>

lemma walk_loop_ok_iff:
  assumes "pushed \<le> length frames"
  shows "walk_loop L M ct left fr pushed frames = Inr fs \<longleftrightarrow>
    (\<exists>ns. chain L M ct fr ns 0 \<and> length ns \<le> left \<and>
          pushed + length (shown ns) \<le> length frames \<and> fs = take pushed frames @ shown ns)"
  using assms
proof (induction left arbitrary: fr pushed frames)
  case 0
  then show ?case by (auto simp: chain_0_iff)
next
  case (Suc left)
  show ?case
  proof (cases "fr = 0")
    case True
    then show ?thesis using Suc.prems by (auto simp: chain_0_iff)
  next
    case nz: False
    have split: "(\<exists>ns. chain L M ct fr ns 0 \<and> Q ns) \<longleftrightarrow>
        (\<exists>prev n ns. node_at L M ct fr = Inr (prev, n) \<and> chain L M ct prev ns 0 \<and> Q (n # ns))" for Q
      using nz by (subst (1) chain.simps) blast
    show ?thesis
    proof (cases "node_at L M ct fr")
      case (Inl e)
      then show ?thesis by (simp add: walk_loop_step [OF nz] split)
    next
      case (Inr pn)
      obtain prev n where pn: "pn = (prev, n)" by (cases pn)
      show ?thesis
      proof (cases n)
        case None
        then show ?thesis
          using Suc.IH [OF Suc.prems] Inr by (simp add: walk_loop_step [OF nz] split pn)
      next
        case (Some f)
        have "walk_loop L M ct left prev (Suc pushed) (frames[pushed := f]) = Inr fs \<longleftrightarrow>
            (\<exists>ns. chain L M ct prev ns 0 \<and> length ns \<le> left \<and>
              Suc pushed + length (shown ns) \<le> length frames \<and> fs = take pushed frames @ f # shown ns)"
          if "pushed < length frames"
          using Suc.IH [of "Suc pushed" "frames[pushed := f]" prev] that
          by (simp add: take_Suc_update)
        then show ?thesis
          using Inr Some Suc.prems by (auto simp: walk_loop_step [OF nz] split pn)
      qed
    qed
  qed
qed

lemma walk_loop_exhausted:
  "chain L M ct fr ns fr' \<Longrightarrow> length ns = left \<Longrightarrow> fr' \<noteq> 0 \<Longrightarrow>
   walk_loop L M ct left fr pushed frames = Inl Truncated"
proof (induction left arbitrary: fr ns pushed frames)
  case 0
  then show ?case by simp
next
  case (Suc left)
  then obtain n ms where ns: "ns = n # ms" by (cases ns) auto
  with Suc.prems obtain prev where "fr \<noteq> 0" "node_at L M ct fr = Inr (prev, n)"
    "chain L M ct prev ms fr'"
    by (auto simp: chain_Cons_iff)
  then show ?case
    using Suc.IH [of prev ms] Suc.prems ns by (simp add: walk_loop_step split: option.splits)
qed

text \<open>What a recorded frame says about memory.\<close>

lemma read_frame_typed:
  assumes "read_frame L M ct fr = Inr f"
  shows "code f \<noteq> 0" "read_usize M (code f) (OB_TYPE L) = Inr ct"
  using assms by (auto simp: read_frame_def res_bind_eq_Inr Let_def split: if_splits)

lemma node_at_typed:
  assumes "node_at L M ct fr = Inr (previous, Some f)"
  shows "code f \<noteq> 0" "read_usize M (code f) (OB_TYPE L) = Inr ct"
  using assms read_frame_typed
  by (auto simp: node_at_def res_bind_eq_Inr split: if_splits)

lemma chain_typed:
  "chain L M ct fr ns fr' \<Longrightarrow> Some f \<in> set ns \<Longrightarrow>
   code f \<noteq> 0 \<and> read_usize M (code f) (OB_TYPE L) = Inr ct"
  by (induction rule: chain.induct) (auto dest: node_at_typed)

lemma unwind_thread_ok_iff:
  "unwind_thread L M ct tstate frames mt = (Inr fs, mt') \<longleftrightarrow>
     tstate \<noteq> 0 \<and> mt' = mt \<and>
     (\<exists>fr ns. current_frame L M tstate = Inr fr \<and> chain L M ct fr ns 0 \<and>
        length ns \<le> MAX_FRAMES \<and> length (shown ns) \<le> length frames \<and> fs = shown ns)"
proof -
  have "unwind_thread L M ct tstate frames mt = (Inr fs, mt') \<longleftrightarrow>
      tstate \<noteq> 0 \<and> mt' = mt \<and>
      (\<exists>fr. current_frame L M tstate = Inr fr \<and> walk_loop L M ct MAX_FRAMES fr 0 frames = Inr fs)"
    by (auto simp: unwind_thread_def walk_def res_bind_eq_Inr Let_def split: sum.splits)
  then show ?thesis by (simp add: walk_loop_ok_iff)
qed

lemma unwind_thread_ok:
  assumes "unwind_thread L M ct tstate frames mt = (Inr fs, mt')"
  shows "mt' = mt" "length fs \<le> MAX_FRAMES" "length fs \<le> length frames"
    "\<And>f. f \<in> set fs \<Longrightarrow> code f \<noteq> 0 \<and> read_usize M (code f) (OB_TYPE L) = Inr ct"
  using assms length_shown_le chain_typed [of L M ct]
  by (fastforce simp: unwind_thread_ok_iff set_shown dest: le_trans [OF length_shown_le])+

lemma unwind_thread_err:
  "unwind_thread L M ct tstate frames mt = (Inl e, mt') \<Longrightarrow> mt' = count_error e mt"
  by (auto simp: unwind_thread_def Let_def split: sum.splits)

subsection \<open>Losses\<close>

text \<open>The ways a stack is lost, one per counter, and what each does to the counters.\<close>

datatype loss = Contention | BufferDropped | Unwinding unwind_error | Resolving

fun count_loss :: "loss \<Rightarrow> metrics \<Rightarrow> metrics" where
  "count_loss Contention mt = mt\<lparr>contentions := contentions mt + 1\<rparr>"
| "count_loss BufferDropped mt = mt\<lparr>buffer_dropped := buffer_dropped mt + 1\<rparr>"
| "count_loss (Unwinding e) mt = count_error e mt"
| "count_loss Resolving mt = mt\<lparr>resolve_error := resolve_error mt + 1\<rparr>"

fun error_reason :: "unwind_error \<Rightarrow> string" where
  "error_reason NoThreadState = ''no_thread_state''"
| "error_reason InvalidCodeType = ''invalid_code_type''"
| "error_reason Read = ''read_errors''"
| "error_reason Truncated = ''truncated''"
| "error_reason Invalid = ''invalid''"

fun loss_reason :: "loss \<Rightarrow> string" where
  "loss_reason Contention = ''contentions''"
| "loss_reason BufferDropped = ''buffer_dropped''"
| "loss_reason (Unwinding e) = error_reason e"
| "loss_reason Resolving = ''resolve_error''"

definition drop_count :: "metrics \<Rightarrow> string \<Rightarrow> usize" where
  "drop_count mt reason =
     (case map_of (fst (take_drop_counts mt)) reason of None \<Rightarrow> 0 | Some n \<Rightarrow> n)"

lemma drop_count_loss:
  "drop_count (count_loss l mt) reason =
     drop_count mt reason + (if reason = loss_reason l then 1 else 0)"
proof (cases l)
  case (Unwinding e)
  then show ?thesis by (cases e) (auto simp: drop_count_def take_drop_counts_def)
qed (auto simp: drop_count_def take_drop_counts_def)

lemma drop_count_zero [simp]: "drop_count metrics_zero reason = 0"
  by (auto simp: drop_count_def take_drop_counts_def metrics_zero_def)

lemma take_drop_counts_zero [simp]: "snd (take_drop_counts mt) = metrics_zero"
  by (simp add: take_drop_counts_def)

text \<open>Any interleaving of losses and of batches taken by the reporter.\<close>

datatype metric_event = Lose loss | Take

definition reported :: "(string \<times> usize) list \<Rightarrow> string \<Rightarrow> usize" where
  "reported counts reason = (case map_of counts reason of None \<Rightarrow> 0 | Some n \<Rightarrow> n)"

fun run_metrics :: "metric_event list \<Rightarrow> metrics \<Rightarrow> (string \<times> usize) list list \<times> metrics" where
  "run_metrics [] mt = ([], mt)"
| "run_metrics (Lose l # es) mt = run_metrics es (count_loss l mt)"
| "run_metrics (Take # es) mt =
     (let (counts, mt) = take_drop_counts mt; (batches, mt) = run_metrics es mt
      in (counts # batches, mt))"

definition losses_for :: "string \<Rightarrow> metric_event list \<Rightarrow> nat" where
  "losses_for reason es =
     length (filter (\<lambda>e. case e of Lose l \<Rightarrow> loss_reason l = reason | Take \<Rightarrow> False) es)"

lemma losses_for_simps [simp]:
  "losses_for reason [] = 0"
  "losses_for reason (Lose l # es) = (if loss_reason l = reason then 1 else 0) + losses_for reason es"
  "losses_for reason (Take # es) = losses_for reason es"
  by (simp_all add: losses_for_def)

lemma run_metrics_accounts:
  "(\<Sum>counts\<leftarrow>fst (run_metrics es mt). reported counts reason)
     + drop_count (snd (run_metrics es mt)) reason =
   drop_count mt reason + of_nat (losses_for reason es)"
proof (induction es mt rule: run_metrics.induct)
  case (3 es mt)
  have "reported (fst (take_drop_counts mt)) reason = drop_count mt reason"
    by (simp add: reported_def drop_count_def)
  then show ?case
    using 3 [OF refl prod.collapse] by (simp add: case_prod_beta algebra_simps)
qed (auto simp: drop_count_loss algebra_simps)

lemma handler_outcome:
  assumes "holds (RECORDS u) recs"
  shows "\<exists>recs'. holds (RECORDS (handler L M ct tstate u)) recs' \<and>
    producer_locked (RECORDS (handler L M ct tstate u)) = producer_locked (RECORDS u) \<and>
    ((\<exists>fs. recs' = recs @ [fs] \<and> length fs \<le> MAX_FRAMES \<and>
        METRICS (handler L M ct tstate u) = METRICS u \<and>
        fst (unwind_thread L M ct tstate (replicate MAX_FRAMES default_frame) (METRICS u)) = Inr fs) \<or>
     (\<exists>l. recs' = recs \<and> METRICS (handler L M ct tstate u) = count_loss l (METRICS u)))"
proof -
  obtain r mt where r:
    "unwind_thread L M ct tstate (replicate MAX_FRAMES default_frame) (METRICS u) = (r, mt)"
    by (cases "unwind_thread L M ct tstate (replicate MAX_FRAMES default_frame) (METRICS u)")
  show ?thesis
  proof (cases r)
    case (Inl e)
    then have "METRICS (handler L M ct tstate u) = count_loss (Unwinding e) (METRICS u)"
      "RECORDS (handler L M ct tstate u) = RECORDS u"
      using r unwind_thread_err [of L M ct tstate _ "METRICS u" e] by (simp_all add: handler_def Let_def)
    then show ?thesis using assms by metis
  next
    case (Inr fs)
    note U = unwind_thread_ok(1,2) [OF r [unfolded Inr]]
    then have "length fs < 2 ^ 64" by (simp add: MAX_FRAMES_def)
    from assms this show ?thesis
    proof (cases rule: ring_sink.cycle_outcomes)
      case contended
      then show ?thesis
        using assms r Inr U
        by (intro exI [of _ recs]) (auto simp: handler_def Let_def intro!: exI [of _ Contention])
    next
      case (published p q1 p' q2)
      then show ?thesis
        using r Inr U by (intro exI [of _ "recs @ [fs]"]) (simp add: handler_def Let_def)
    next
      case (dropped p q1 p')
      then show ?thesis
        using assms r Inr U
        by (intro exI [of _ recs]) (auto simp: handler_def Let_def intro!: exI [of _ BufferDropped])
    qed
  qed
qed

subsection \<open>Properties\<close>

text \<open>
  C14: Unwinding returns a stack exactly when the thread has a state, its frame chain ends at a
  null pointer within \<open>MAX_FRAMES\<close> nodes (skipped owners included) and the shown frames fit the
  slice; the stack is then the shown frames, innermost first, and no counter moves.
\<close>

theorem unwind_exact:
  "unwind_thread L M ct tstate frames mt = (Inr fs, mt') \<longleftrightarrow>
     tstate \<noteq> 0 \<and> mt' = mt \<and>
     (\<exists>fr ns. current_frame L M tstate = Inr fr \<and> chain L M ct fr ns 0 \<and>
        length ns \<le> MAX_FRAMES \<and> length (shown ns) \<le> length frames \<and> fs = shown ns)"
  by (rule unwind_thread_ok_iff)

text \<open>
  C26: A chain with more than \<open>MAX_FRAMES\<close> readable nodes, a cycle for instance, ends with
  \<open>Truncated\<close> after exactly that many nodes, whatever the size of the slice, and adds one to the
  \<open>truncated\<close> counter.
\<close>

theorem long_chain_truncated:
  assumes "tstate \<noteq> 0" and "current_frame L M tstate = Inr fr"
    and "chain L M ct fr ns fr'" and "length ns = MAX_FRAMES" and "fr' \<noteq> 0"
  shows "unwind_thread L M ct tstate frames mt = (Inl Truncated, mt\<lparr>truncated := truncated mt + 1\<rparr>)"
  using walk_loop_exhausted [OF assms(3-5)] assms(1,2)
  by (simp add: unwind_thread_def walk_def)

text \<open>
  C13: A run of the handler has one of two outcomes. Either the stack it unwound is appended to
  the buffer as one record of at most \<open>MAX_FRAMES\<close> frames and no counter moves, or the buffer
  contents stay as they were and exactly one loss counter grows by one. A stack is never
  published in part, and the producer lock is left as it was found.
\<close>

theorem handler_publishes_or_counts:
  assumes "holds (RECORDS u) recs"
  shows "\<exists>recs'. holds (RECORDS (handler L M ct tstate u)) recs' \<and>
    producer_locked (RECORDS (handler L M ct tstate u)) = producer_locked (RECORDS u) \<and>
    ((\<exists>fs. recs' = recs @ [fs] \<and> length fs \<le> MAX_FRAMES \<and>
        METRICS (handler L M ct tstate u) = METRICS u \<and>
        fst (unwind_thread L M ct tstate (replicate MAX_FRAMES default_frame) (METRICS u)) = Inr fs) \<or>
     (\<exists>l. recs' = recs \<and> METRICS (handler L M ct tstate u) = count_loss l (METRICS u)))"
  using assms by (rule handler_outcome)

text \<open>
  Over any interleaving of lost stacks and of batches taken for reporting, the counts
  reported for a reason plus the count still held equal the count at the start plus the number
  of stacks lost for that reason: none is lost between batches and none is reported twice.
\<close>

theorem drop_counts_conserved:
  "(\<Sum>counts\<leftarrow>fst (run_metrics es mt). reported counts reason)
     + drop_count (snd (run_metrics es mt)) reason =
   drop_count mt reason + of_nat (losses_for reason es)"
  by (rule run_metrics_accounts)

subsection \<open>Witnesses\<close>

text \<open>
  Two CPython 3.13 memories: thread state \<open>0x4000\<close>, a frame at \<open>0x1000\<close> running the code
  object \<open>0x2000\<close>, whose previous frame is itself or is null.
\<close>

definition example_memory :: "u64 \<Rightarrow> memory" where
  "example_memory previous =
     \<lparr>ks_u64 = map_of [(0x4048, 0x1000), (0x1008, previous), (0x1000, 0x2000),
                      (0x1038, 0x2010), (0x2008, 0x3000)],
      ks_slice = (\<lambda>addr n. Some (\<lambda>i. 0))\<rparr>"

lemma example_node:
  "node_at v3_13 (example_memory previous) 0x3000 0x1000 =
     Inr (previous, Some \<lparr>code = 0x2000, instr = 0x2010\<rparr>)"
  by (simp add: node_at_def read_usize_def field_addr_def checked_add_def example_memory_def
      v3_13_def is_skipped_def read_u8_def read_bytes_def SKIP_OWNERS_def owner_bit_def
      read_frame_def read_instr_def py_at_least_def EXECUTABLE_MASK_def)

lemma example_current_frame:
  "current_frame v3_13 (example_memory previous) 0x4000 = Inr 0x1000"
  by (simp add: current_frame_def read_usize_def field_addr_def checked_add_def
      example_memory_def v3_13_def)

lemma example_cycle:
  "chain v3_13 (example_memory 0x1000) 0x3000 0x1000
     (replicate n (Some \<lparr>code = 0x2000, instr = 0x2010\<rparr>)) 0x1000"
  by (induction n) (simp_all add: chain_Nil chain_Cons [OF _ example_node])

theorem long_chain_truncated_witness:
  "unwind_thread v3_13 (example_memory 0x1000) 0x3000 0x4000 [default_frame] metrics_zero =
     (Inl Truncated, metrics_zero\<lparr>truncated := truncated metrics_zero + 1\<rparr>)"
proof (rule long_chain_truncated [OF _ example_current_frame example_cycle])
  show "length (replicate MAX_FRAMES (Some \<lparr>code = 0x2000, instr = 0x2010\<rparr>)) = MAX_FRAMES"
    by simp
qed simp_all

definition fresh_unwinder :: unwinder where
  "fresh_unwinder =
     \<lparr>RECORDS = \<lparr>slots = replicate SLOTS None, head = 0, tail = 0,
                producer_locked = False, consumer_locked = False\<rparr>,
      METRICS = metrics_zero\<rparr>"

lemma rb_new_SLOTS: "rb_new SLOTS = Some (RECORDS fresh_unwinder)"
  unfolding rb_new_def is_power_of_two_def SLOTS_def fresh_unwinder_def
  by (simp only: unwinder.simps) (auto intro: exI [of _ 16])

lemma fresh_unwinder_holds: "holds (RECORDS fresh_unwinder) []"
  by (rule holds_new(1) [OF rb_new_SLOTS])

theorem handler_publishes_or_counts_witness:
  "\<exists>recs'. holds (RECORDS (handler v3_13 (example_memory 0) 0x3000 0x4000 fresh_unwinder)) recs' \<and>
     (recs' = [] \<or> length recs' = 1)"
  using handler_publishes_or_counts [OF fresh_unwinder_holds,
      where L = v3_13 and M = "example_memory 0" and ct = "0x3000" and tstate = "0x4000"]
  by auto

end
