(* ===== verification/Signal_Timer.thy ===== *)
theory Signal_Timer
  imports Prelude
begin

text \<open>
  The crate \<open>rust/crates/signal-timer\<close>: ownership of the \<open>SIGPROF\<close> action and the two timers,
  one for the process (\<open>itimer.rs\<close>) and one per thread (\<open>ctimer.rs\<close>).

  The kernel is a parameter: \<open>os_calls\<close> holds the system calls, functions of a kernel state of
  any type. What the proofs need of them is named in \<open>kernel_timers\<close>: the documented effect of
  \<open>timer_create\<close>, \<open>timer_settime\<close> and \<open>timer_delete\<close> on the set of existing timers.
  A duration is its number of nanoseconds.
\<close>

subsection \<open>The kernel\<close>

record action =
  sa_sigaction :: nat
  sa_siginfo :: bool
  sa_restart :: bool

record 'os os_calls =
  sigaction_set :: "int \<Rightarrow> action \<Rightarrow> 'os \<Rightarrow> bool \<times> 'os"
  sigaction_get :: "int \<Rightarrow> 'os \<Rightarrow> action option"
  signal_ignore :: "int \<Rightarrow> 'os \<Rightarrow> 'os"
  setitimer_prof :: "nat \<times> nat \<Rightarrow> 'os \<Rightarrow> bool \<times> 'os"
  timer_create :: "u32 \<Rightarrow> int \<Rightarrow> int \<Rightarrow> 'os \<Rightarrow> int option \<times> 'os"
  timer_settime :: "int \<Rightarrow> nat \<times> nat \<Rightarrow> 'os \<Rightarrow> bool \<times> 'os"
  timer_delete :: "int \<Rightarrow> 'os \<Rightarrow> 'os"
  os_error_text :: string

datatype io_error = AlreadyExists | InvalidInput | LastOsError

text \<open>The text of an error; \<open>os_error_text\<close> is that of a failed call.\<close>

definition show_io_error :: "'os os_calls \<Rightarrow> io_error \<Rightarrow> string" where
  "show_io_error K e =
     (case e of AlreadyExists \<Rightarrow> ''entity already exists'' | InvalidInput \<Rightarrow> ''interval must not be zero''
      | LastOsError \<Rightarrow> os_error_text K)"

text \<open>The statics of the crate, with the kernel.\<close>

record 'os timers =
  kernel :: 'os
  HANDLED_SIGNALS :: "int list"
  ACTIVE :: bool

subsection \<open>The signal handler guard\<close>

record signal_handler =
  sh_signal :: int
  sh_handler :: nat

definition install_handler ::
    "'os os_calls \<Rightarrow> int \<Rightarrow> nat \<Rightarrow> 'os timers \<Rightarrow> (io_error + signal_handler) \<times> 'os timers" where
  "install_handler K signal hdl w =
     (if signal \<in> set (HANDLED_SIGNALS w) then (Inl AlreadyExists, w)
      else
        let act = \<lparr>sa_sigaction = hdl, sa_siginfo = True, sa_restart = True\<rparr>;
            (ok, k) = sigaction_set K signal act (kernel w);
            w = w\<lparr>kernel := k\<rparr>
        in if \<not> ok then (Inl LastOsError, w)
           else (Inr \<lparr>sh_signal = signal, sh_handler = hdl\<rparr>,
                 w\<lparr>HANDLED_SIGNALS := HANDLED_SIGNALS w @ [signal]\<rparr>))"

definition drop_handler :: "'os os_calls \<Rightarrow> signal_handler \<Rightarrow> 'os timers \<Rightarrow> 'os timers" where
  "drop_handler K h w =
     (let k = (case sigaction_get K (sh_signal h) (kernel w) of
                 Some cur \<Rightarrow>
                   if sa_siginfo cur \<and> sa_sigaction cur = sh_handler h
                   then signal_ignore K (sh_signal h) (kernel w) else kernel w
               | None \<Rightarrow> kernel w)
      in w\<lparr>kernel := k,
           HANDLED_SIGNALS := filter (\<lambda>s. s \<noteq> sh_signal h) (HANDLED_SIGNALS w)\<rparr>)"

subsection \<open>The process timer\<close>

definition as_micros :: "nat \<Rightarrow> nat" where "as_micros ns = ns div 1000"

definition set_itimer :: "'os os_calls \<Rightarrow> nat \<times> nat \<Rightarrow> 'os \<Rightarrow> (io_error + unit) \<times> 'os" where
  "set_itimer K tv k =
     (let (ok, k) = setitimer_prof K tv k in (if \<not> ok then Inl LastOsError else Inr (), k))"

definition itimer_value :: "nat \<Rightarrow> nat \<times> nat" where
  "itimer_value interval =
     (let micros = max (as_micros interval) 1 in (micros div 1000000, micros mod 1000000))"

definition itimer_start :: "'os os_calls \<Rightarrow> nat \<Rightarrow> 'os \<Rightarrow> (io_error + unit) \<times> 'os" where
  "itimer_start K interval k = set_itimer K (itimer_value interval) k"

definition itimer_drop :: "'os os_calls \<Rightarrow> 'os \<Rightarrow> 'os" where
  "itimer_drop K k = snd (set_itimer K (0, 0) k)"

subsection \<open>A thread timer\<close>

text \<open>\<open>(!(tid as u32) << 3) | 6\<close>\<close>

definition thread_cpu_clock :: "int \<Rightarrow> u32" where
  "thread_cpu_clock tid = (push_bit 3 (NOT (of_int tid)) OR 6)"

definition ctimer_drop :: "'os os_calls \<Rightarrow> int \<Rightarrow> 'os \<Rightarrow> 'os" where
  "ctimer_drop K i k = timer_delete K i k"

definition ctimer_start ::
    "'os os_calls \<Rightarrow> int \<Rightarrow> int \<Rightarrow> nat \<Rightarrow> 'os \<Rightarrow> (io_error + int) \<times> 'os" where
  "ctimer_start K tid signal interval k =
     (case timer_create K (thread_cpu_clock tid) tid signal k of
        (None, k) \<Rightarrow> (Inl LastOsError, k)
      | (Some i, k) \<Rightarrow>
          (let ts = (interval div 1000000000, interval mod 1000000000);
               (ok, k) = timer_settime K i ts k
           in if \<not> ok then (Inl LastOsError, ctimer_drop K i k) else (Inr i, k)))"

subsection \<open>The timer\<close>

datatype mode = ITimer | CTimer

text \<open>\<open>Backend\<close>; the map takes a thread to its kernel timer.\<close>

datatype timer_backend = ITimerBackend | CTimerBackend nat "(int \<times> int) list"

text \<open>\<open>libc::SIGPROF\<close> on Linux and on macOS.\<close>

definition SIGPROF :: int where "SIGPROF = 27"

definition active_acquire :: "'os timers \<Rightarrow> (io_error + unit) \<times> 'os timers" where
  "active_acquire w = (if ACTIVE w then (Inl AlreadyExists, w) else (Inr (), w\<lparr>ACTIVE := True\<rparr>))"

definition active_drop :: "'os timers \<Rightarrow> 'os timers" where
  "active_drop w = w\<lparr>ACTIVE := False\<rparr>"

definition timer_start ::
    "'os os_calls \<Rightarrow> mode \<Rightarrow> nat \<Rightarrow> 'os timers \<Rightarrow> (io_error + timer_backend) \<times> 'os timers" where
  "timer_start K mode interval w =
     (if interval = 0 then (Inl InvalidInput, w)
      else case active_acquire w of
        (Inl e, w) \<Rightarrow> (Inl e, w)
      | (Inr _, w) \<Rightarrow>
          (case mode of
             ITimer \<Rightarrow>
               (case itimer_start K interval (kernel w) of
                  (Inl e, k) \<Rightarrow> (Inl e, active_drop (w\<lparr>kernel := k\<rparr>))
                | (Inr _, k) \<Rightarrow> (Inr ITimerBackend, w\<lparr>kernel := k\<rparr>))
           | CTimer \<Rightarrow> (Inr (CTimerBackend interval []), w)))"

fun timer_mode :: "timer_backend \<Rightarrow> mode" where
  "timer_mode ITimerBackend = ITimer"
| "timer_mode (CTimerBackend _ _) = CTimer"

fun thread_created ::
    "'os os_calls \<Rightarrow> int \<Rightarrow> timer_backend \<Rightarrow> 'os \<Rightarrow> (io_error + unit) \<times> timer_backend \<times> 'os" where
  "thread_created K tid ITimerBackend k = (Inr (), ITimerBackend, k)"
| "thread_created K tid (CTimerBackend interval threads) k =
     (case map_of threads tid of
        Some _ \<Rightarrow> (Inr (), CTimerBackend interval threads, k)
      | None \<Rightarrow>
          (case ctimer_start K tid SIGPROF interval k of
             (Inl e, k) \<Rightarrow> (Inl e, CTimerBackend interval threads, k)
           | (Inr i, k) \<Rightarrow> (Inr (), CTimerBackend interval (AList.update tid i threads), k)))"

fun thread_removed :: "'os os_calls \<Rightarrow> int \<Rightarrow> timer_backend \<Rightarrow> 'os \<Rightarrow> timer_backend \<times> 'os" where
  "thread_removed K tid ITimerBackend k = (ITimerBackend, k)"
| "thread_removed K tid (CTimerBackend interval threads) k =
     (case map_of threads tid of
        None \<Rightarrow> (CTimerBackend interval threads, k)
      | Some i \<Rightarrow> (CTimerBackend interval (AList.delete tid threads), ctimer_drop K i k))"

text \<open>Dropping a timer drops its backend, then \<open>_active\<close>.\<close>

fun backend_drop :: "'os os_calls \<Rightarrow> timer_backend \<Rightarrow> 'os \<Rightarrow> 'os" where
  "backend_drop K ITimerBackend k = itimer_drop K k"
| "backend_drop K (CTimerBackend _ threads) k = fold (\<lambda>(_, i). ctimer_drop K i) threads k"

definition timer_drop :: "'os os_calls \<Rightarrow> timer_backend \<Rightarrow> 'os timers \<Rightarrow> 'os timers" where
  "timer_drop K b w = active_drop (w\<lparr>kernel := backend_drop K b (kernel w)\<rparr>)"

subsection \<open>Kernel timers are never leaked\<close>

text \<open>
  The documented behaviour: \<open>timer_create\<close> returns the identifier of a timer that did not exist,
  \<open>timer_settime\<close> creates and deletes none, \<open>timer_delete\<close> removes the one it names.
\<close>

definition kernel_timers :: "'os os_calls \<Rightarrow> ('os \<Rightarrow> int set) \<Rightarrow> bool" where
  "kernel_timers K live \<longleftrightarrow>
     (\<forall>c t s k i k'. timer_create K c t s k = (Some i, k') \<longrightarrow>
        i \<notin> live k \<and> live k' = insert i (live k)) \<and>
     (\<forall>c t s k k'. timer_create K c t s k = (None, k') \<longrightarrow> live k' = live k) \<and>
     (\<forall>i ts k. live (snd (timer_settime K i ts k)) = live k) \<and>
     (\<forall>i k. live (timer_delete K i k) = live k - {i})"

text \<open>The timers a backend owns; \<open>others\<close> belong to the rest of the process.\<close>

fun owned :: "timer_backend \<Rightarrow> int set" where
  "owned ITimerBackend = {}"
| "owned (CTimerBackend _ threads) = snd ` set threads"

fun backend_wf :: "timer_backend \<Rightarrow> bool" where
  "backend_wf ITimerBackend = True"
| "backend_wf (CTimerBackend _ threads) \<longleftrightarrow> map_wf threads \<and> distinct (List.map snd threads)"

definition timers_inv :: "('os \<Rightarrow> int set) \<Rightarrow> int set \<Rightarrow> timer_backend \<Rightarrow> 'os \<Rightarrow> bool" where
  "timers_inv live others b k \<longleftrightarrow>
     backend_wf b \<and> live k = owned b \<union> others \<and> owned b \<inter> others = {}"

lemma kernel_timersD:
  assumes "kernel_timers K live"
  shows "timer_create K c t s k = (Some i, k') \<Longrightarrow> i \<notin> live k \<and> live k' = insert i (live k)"
    "timer_create K c t s k = (None, k') \<Longrightarrow> live k' = live k"
    "live (snd (timer_settime K i ts k)) = live k"
    "live (ctimer_drop K i k) = live k - {i}"
proof -
  note D = assms [unfolded kernel_timers_def]
  show "timer_create K c t s k = (Some i, k') \<Longrightarrow> i \<notin> live k \<and> live k' = insert i (live k)"
    by (rule conjunct1 [OF D, rule_format])
  show "timer_create K c t s k = (None, k') \<Longrightarrow> live k' = live k"
    by (rule conjunct2 [OF D, THEN conjunct1, rule_format])
  show "live (snd (timer_settime K i ts k)) = live k"
    by (rule conjunct2 [OF D, THEN conjunct2, THEN conjunct1, rule_format])
  show "live (ctimer_drop K i k) = live k - {i}"
    unfolding ctimer_drop_def by (rule conjunct2 [OF D, THEN conjunct2, THEN conjunct2, rule_format])
qed

lemma ctimer_start_live:
  assumes K: "kernel_timers K live" and e: "ctimer_start K tid sig iv k = (r, k')"
  shows "case r of Inl _ \<Rightarrow> live k' = live k | Inr i \<Rightarrow> i \<notin> live k \<and> live k' = insert i (live k)"
proof (cases "timer_create K (thread_cpu_clock tid) tid sig k")
  case (Pair mi k1)
  show ?thesis
  proof (cases mi)
    case None
    then show ?thesis
      using kernel_timersD(2) [OF K, of "thread_cpu_clock tid" tid sig k k1] e Pair
      by (auto simp: ctimer_start_def)
  next
    case (Some i)
    have c: "i \<notin> live k" "live k1 = insert i (live k)"
      using kernel_timersD(1) [OF K, of "thread_cpu_clock tid" tid sig k i k1] Pair Some by simp_all
    obtain ok k2 where s:
      "timer_settime K i (iv div 1000000000, iv mod 1000000000) k1 = (ok, k2)" by fastforce
    then have "live k2 = live k1" using kernel_timersD(3) [OF K] by (metis snd_conv)
    moreover have "live (ctimer_drop K i k2) = live k2 - {i}" by (rule kernel_timersD(4) [OF K])
    ultimately show ?thesis
      using e c s by (auto simp: ctimer_start_def Pair Some Let_def split: if_splits)
  qed
qed

lemma thread_created_inv [inv_intros]:
  assumes K: "kernel_timers K live" and I: "timers_inv live others b k"
    and e: "thread_created K tid b k = (r, b', k')"
  shows "timers_inv live others b' k'"
proof (cases b)
  case ITimerBackend
  then show ?thesis using I e by simp
next
  case (CTimerBackend iv threads)
  show ?thesis
  proof (cases "map_of threads tid")
    case (Some i)
    then show ?thesis using I e CTimerBackend by auto
  next
    case None
    define S where "S = snd ` set threads"
    have I': "map_wf threads" "distinct (List.map snd threads)" "live k = S \<union> others"
      "S \<inter> others = {}"
      using I CTimerBackend by (simp_all add: timers_inv_def S_def)
    obtain q k1 where q: "ctimer_start K tid SIGPROF iv k = (q, k1)" by fastforce
    note L = ctimer_start_live [OF K q]
    show ?thesis
    proof (cases q)
      case (Inl err)
      then have "b' = b" "k' = k1" "live k1 = live k"
        using e q CTimerBackend None L by simp_all
      then show ?thesis using I by (simp add: timers_inv_def)
    next
      case (Inr i)
      have "AList.update tid i threads = threads @ [(tid, i)]"
        using None by (intro update_fresh) (simp add: map_of_eq_None_keys)
      then have b': "b' = CTimerBackend iv (threads @ [(tid, i)])" "k' = k1"
        using e q CTimerBackend None Inr by simp_all
      have i: "i \<notin> S \<union> others" "live k1 = insert i (S \<union> others)" using L Inr I'(3) by simp_all
      have "owned b' = insert i S" "backend_wf b'"
        using I'(1,2) i(1) None unfolding b' S_def by (auto simp: map_wf_def map_of_eq_None_iff)
      then show ?thesis using i I'(4) b'(2) by (auto simp: timers_inv_def)
    qed
  qed
qed

lemma thread_removed_inv [inv_intros]:
  assumes K: "kernel_timers K live" and I: "timers_inv live others b k"
  shows "timers_inv live others (fst (thread_removed K tid b k)) (snd (thread_removed K tid b k))"
proof (cases b)
  case ITimerBackend
  then show ?thesis using I by simp
next
  case (CTimerBackend iv threads)
  have wf: "map_wf threads" "distinct (List.map snd threads)" "live k = snd ` set threads \<union> others"
    "snd ` set threads \<inter> others = {}"
    using I CTimerBackend by (simp_all add: timers_inv_def)
  show ?thesis
  proof (cases "map_of threads tid")
    case None
    then show ?thesis using I CTimerBackend by simp
  next
    case (Some i)
    then have mem: "(tid, i) \<in> set threads" by (rule map_of_SomeD)
    have del: "set (AList.delete tid threads) = set threads - {(tid, i)}"
    proof -
      have "b = i" if "(tid, b) \<in> set threads" for b
        using eq_key_imp_eq_value [OF wf(1) [unfolded map_wf_def] that mem] .
      then show ?thesis by (auto simp: AList.delete_eq)
    qed
    have "inj_on snd (set threads)" using wf(2) by (simp add: distinct_map)
    then have img: "snd ` set (AList.delete tid threads) = snd ` set threads - {i}"
      unfolding del using mem by (subst inj_on_image_set_diff) auto
    have "distinct (List.map snd (AList.delete tid threads))"
      using wf(2) unfolding AList.delete_eq by (rule distinct_map_filter)
    moreover have "live (ctimer_drop K i k) = live k - {i}"
      by (rule kernel_timersD(4) [OF K])
    moreover have "i \<in> snd ` set threads" using mem by force
    ultimately show ?thesis
      using wf Some CTimerBackend img by (auto simp: timers_inv_def)
  qed
qed

lemma fold_ctimer_drop_live:
  assumes K: "kernel_timers K live"
  shows "live (fold (\<lambda>(_, i). ctimer_drop K i) threads k) = live k - snd ` set threads"
proof (induction threads arbitrary: k)
  case (Cons x threads)
  have "live (ctimer_drop K (snd x) k) = live k - {snd x}"
    by (rule kernel_timersD(4) [OF K])
  then show ?case using Cons by (auto simp: case_prod_beta)
qed simp

text \<open>A life of a timer: threads come and go, then the timer is dropped.\<close>

datatype thread_event = Created int | Removed int

fun timer_event :: "'os os_calls \<Rightarrow> thread_event \<Rightarrow> timer_backend \<times> 'os \<Rightarrow> timer_backend \<times> 'os" where
  "timer_event K (Created tid) (b, k) = snd (thread_created K tid b k)"
| "timer_event K (Removed tid) (b, k) = thread_removed K tid b k"

lemma timer_events_inv:
  assumes K: "kernel_timers K live"
  shows "timers_inv live others (fst bk) (snd bk) \<Longrightarrow>
    timers_inv live others (fst (fold (timer_event K) es bk)) (snd (fold (timer_event K) es bk))"
proof (induction es arbitrary: bk)
  case (Cons e es)
  obtain b k where bk: "bk = (b, k)" by (cases bk)
  have "timers_inv live others (fst (timer_event K e bk)) (snd (timer_event K e bk))"
  proof (cases e)
    case (Created tid)
    obtain r b' k' where "thread_created K tid b k = (r, b', k')" by (rule prod_cases3)
    then show ?thesis
      using thread_created_inv [OF K, of others b k tid r b' k'] Cons.prems by (simp add: Created bk)
  next
    case (Removed tid)
    then show ?thesis using thread_removed_inv [OF K] Cons.prems by (simp add: bk)
  qed
  then show ?case using Cons.IH by simp
qed simp

lemma backend_drop_live:
  assumes "kernel_timers K live" "timers_inv live others (CTimerBackend iv threads) k"
  shows "live (backend_drop K (CTimerBackend iv threads) k) = others"
  using assms(2) fold_ctimer_drop_live [OF assms(1), of threads k] by (auto simp: timers_inv_def)

lemma timer_event_kind:
  "\<exists>threads'. fst (timer_event K e (CTimerBackend iv threads, k)) = CTimerBackend iv threads'"
  by (cases e) (auto split: option.splits sum.splits prod.splits)

lemma timer_events_kind:
  "\<exists>threads'. fst (fold (timer_event K) es (CTimerBackend iv threads, k)) = CTimerBackend iv threads'"
proof (induction es arbitrary: threads k)
  case (Cons e es)
  obtain threads1 where "fst (timer_event K e (CTimerBackend iv threads, k)) = CTimerBackend iv threads1"
    using timer_event_kind [of K e iv threads k] by blast
  then obtain k1 where "timer_event K e (CTimerBackend iv threads, k) = (CTimerBackend iv threads1, k1)"
    by (metis prod.collapse)
  then show ?case using Cons.IH [of threads1 k1] by simp
qed simp

subsection \<open>Clocks\<close>

lemma bit_clock:
  assumes "n < 32"
  shows "bit (thread_cpu_clock tid) n \<longleftrightarrow>
     (if n < 3 then n = 1 \<or> n = 2 else \<not> bit (of_int tid :: u32) (n - 3))"
proof -
  have "bit (6 :: u32) n \<longleftrightarrow> n = 1 \<or> n = 2"
    using assms by (auto simp: bit_numeral_rec(1) numeral_eq_Suc less_Suc_eq bit_simps)
  then show ?thesis
    using assms by (auto simp: thread_cpu_clock_def bit_or_iff bit_push_bit_iff bit_not_iff)
qed

lemma clock_bits_inject:
  assumes "thread_cpu_clock a = thread_cpu_clock b"
  shows "take_bit 29 (of_int a :: u32) = take_bit 29 (of_int b)"
proof (rule bit_word_eqI)
  fix n assume "n < LENGTH(32)"
  show "bit (take_bit 29 (of_int a :: u32)) n = bit (take_bit 29 (of_int b :: u32)) n"
  proof (cases "n < 29")
    case True
    then have "n + 3 < 32" by simp
    from bit_clock [OF this, of a] bit_clock [OF this, of b] assms True
    show ?thesis by (simp add: bit_take_bit_iff)
  qed (simp add: bit_take_bit_iff)
qed

lemma thread_cpu_clock_inject:
  assumes "thread_cpu_clock a = thread_cpu_clock b" "0 \<le> a" "a < 2 ^ 29" "0 \<le> b" "b < 2 ^ 29"
  shows "a = b"
proof -
  have "uint (take_bit 29 (of_int x :: u32)) = x" if "0 \<le> x" "x < 2 ^ 29" for x
  proof -
    have "uint (take_bit 29 (of_int x :: u32)) = take_bit 29 (take_bit LENGTH(32) x)"
      by (simp only: unsigned_take_bit_eq uint_word_of_int_eq)
    also have "\<dots> = take_bit 29 x" by simp
    also have "\<dots> = x" using that by (simp only: take_bit_int_eq_self)
    finally show ?thesis .
  qed
  with clock_bits_inject [OF assms(1)] assms(2-5) show ?thesis by metis
qed

subsection \<open>Properties\<close>

text \<open>
  C20: Whatever threads are registered and removed while a per-thread timer runs, and whichever
  system calls fail, the kernel timers that exist are those of the rest of the process plus
  exactly one per thread in the map; when the timer is dropped none of its own is left, and a
  new timer may start.
\<close>

theorem thread_timers_not_leaked:
  assumes "kernel_timers K live" and "timer_start K CTimer interval w = (Inr b, w1)"
    and "fold (timer_event K) es (b, kernel w1) = (b', k')"
  shows "owned b' \<inter> live (kernel w) = {} \<and> live k' = owned b' \<union> live (kernel w) \<and>
    backend_wf b' \<and>
    live (kernel (timer_drop K b' (w1\<lparr>kernel := k'\<rparr>))) = live (kernel w) \<and>
    \<not> ACTIVE (timer_drop K b' (w1\<lparr>kernel := k'\<rparr>))"
proof -
  have s: "b = CTimerBackend interval []" "kernel w1 = kernel w"
    using assms(2) by (auto simp: timer_start_def active_acquire_def split: if_splits)
  have "timers_inv live (live (kernel w)) b (kernel w1)" by (simp add: timers_inv_def s)
  then have I: "timers_inv live (live (kernel w)) b' k'"
    using timer_events_inv [OF assms(1), of "live (kernel w)" "(b, kernel w1)" es] assms(3) by simp
  obtain threads where b': "b' = CTimerBackend interval threads"
    using timer_events_kind [of K es interval "[]" "kernel w1"] assms(3) s(1) by auto
  show ?thesis
    using I backend_drop_live [OF assms(1) I [unfolded b']]
    by (simp add: timers_inv_def timer_drop_def active_drop_def b' del: backend_drop.simps)
qed

text \<open>
  C21: Only one timer runs at a time. A start succeeds only when none is active, and then marks
  one active; a start that fails, for whatever reason, leaves the mark as it was and, when
  another timer is active, changes nothing at all. After a drop a start cannot fail with
  \<open>AlreadyExists\<close>.
\<close>

theorem timer_exclusive:
  "(case timer_start K mode interval w of
      (Inl e, w') \<Rightarrow> ACTIVE w' = ACTIVE w \<and> (\<not> ACTIVE w \<or> w' = w) \<and>
         (e = AlreadyExists \<longleftrightarrow> interval \<noteq> 0 \<and> ACTIVE w)
    | (Inr b, w') \<Rightarrow> \<not> ACTIVE w \<and> ACTIVE w' \<and> timer_mode b = mode \<and> interval \<noteq> 0) \<and>
   fst (timer_start K mode interval (timer_drop K b w)) \<noteq> Inl AlreadyExists"
  by (cases mode)
     (auto simp: timer_start_def active_acquire_def active_drop_def timer_drop_def Let_def
       itimer_start_def set_itimer_def split: prod.splits sum.splits if_splits)

text \<open>
  Two thread ids of the kernel's range (up to \<open>2^29\<close>, the width the clock id leaves) never
  share a CPU clock, and the process timer is armed with a valid non-zero value for every
  interval, so that arming never disarms it.
\<close>

theorem timer_arguments_valid:
  assumes "0 \<le> a" and "a < 2 ^ 29" and "0 \<le> b" and "b < 2 ^ 29"
  shows "(thread_cpu_clock a = thread_cpu_clock b \<longleftrightarrow> a = b) \<and>
    itimer_value interval \<noteq> (0, 0) \<and> snd (itimer_value interval) < 1000000 \<and>
    fst (itimer_value interval) * 1000000 + snd (itimer_value interval) = max 1 (interval div 1000)"
proof (intro conjI)
  show "thread_cpu_clock a = thread_cpu_clock b \<longleftrightarrow> a = b"
    using thread_cpu_clock_inject assms by blast
  show "itimer_value interval \<noteq> (0, 0)"
    using div_mult_mod_eq [of "max (as_micros interval) 1" 1000000]
    by (auto simp: itimer_value_def Let_def)
qed (simp_all add: itimer_value_def Let_def as_micros_def max.commute)

subsection \<open>Witnesses\<close>

text \<open>A kernel whose state is the next identifier and the existing timers.\<close>

definition example_kernel :: "(int \<times> int list) os_calls" where
  "example_kernel = \<lparr>
     sigaction_set = (\<lambda>s a k. (True, k)), sigaction_get = (\<lambda>s k. None),
     signal_ignore = (\<lambda>s k. k), setitimer_prof = (\<lambda>v k. (True, k)),
     timer_create = (\<lambda>c t s (n, l). (Some n, (n + 1, n # l))),
     timer_settime = (\<lambda>i v k. (True, k)),
     timer_delete = (\<lambda>i (n, l). (n, filter (\<lambda>j. j \<noteq> i) l)), os_error_text = ''''\<rparr>"

definition example_live :: "int \<times> int list \<Rightarrow> int set" where
  "example_live k = {i \<in> set (snd k). i < fst k}"

lemma example_kernel_timers: "kernel_timers example_kernel example_live"
  by (auto simp: kernel_timers_def example_kernel_def example_live_def)

theorem thread_timers_not_leaked_witness:
  "\<exists>b' k'. fold (timer_event example_kernel) [Created 7, Created 8, Removed 7] (CTimerBackend 10 [], (3, [2])) = (b', k') \<and>
     owned b' = {4} \<and> example_live k' = {2, 4} \<and>
     example_live (kernel (timer_drop example_kernel b' \<lparr>kernel = k', HANDLED_SIGNALS = [], ACTIVE = True\<rparr>)) = {2}"
proof -
  let ?w = "\<lparr>kernel = (3, [2]), HANDLED_SIGNALS = [], ACTIVE = False\<rparr>"
  let ?w1 = "\<lparr>kernel = (3, [2]), HANDLED_SIGNALS = [], ACTIVE = True\<rparr>"
  have s: "timer_start example_kernel CTimer 10 ?w = (Inr (CTimerBackend 10 []), ?w1)"
    by (simp add: timer_start_def active_acquire_def)
  have e: "fold (timer_event example_kernel) [Created 7, Created 8, Removed 7]
      (CTimerBackend 10 [], kernel ?w1) = (CTimerBackend 10 [(8, 4)], (5, [4, 2]))"
    by (simp add: example_kernel_def ctimer_start_def ctimer_drop_def)
  have l: "example_live (kernel ?w) = {2}" "example_live (5, [4, 2]) = {2, 4}"
    by (auto simp: example_live_def)
  from thread_timers_not_leaked [OF example_kernel_timers s e] e l show ?thesis by simp
qed

theorem timer_arguments_valid_witness:
  "thread_cpu_clock 12345 \<noteq> thread_cpu_clock 12346 \<and> itimer_value 10 = (0, 1)"
  using timer_arguments_valid [of 12345 12346 10] by (simp add: itimer_value_def as_micros_def)

theorem timer_exclusive_witness:
  "\<exists>w'. timer_start example_kernel ITimer 10
       \<lparr>kernel = (3, []), HANDLED_SIGNALS = [], ACTIVE = True\<rparr> = (Inl AlreadyExists, w') \<and>
     ACTIVE w'"
  using timer_exclusive [where K = example_kernel and mode = ITimer and interval = 10
      and w = "\<lparr>kernel = (3, []), HANDLED_SIGNALS = [], ACTIVE = True\<rparr>" and b = ITimerBackend]
  by (auto simp: timer_start_def active_acquire_def)

end
