(* ===== verification/Signal_Sampler.thy ===== *)
theory Signal_Sampler
  imports Unwind Signal_Timer "HOL-Library.Log_Nat"
begin

text \<open>
  \<open>rust/src/signal_sampler.rs\<close> and \<open>rust/src/signal_sampler/resolve.rs\<close>: the session that owns
  the handler and the timer, drains the records of the unwinder and resolves them.

  Parameters: py-spy's \<open>resolve_frames\<close>, kindasafe's initialisation and reads, and the kernel.
  The session's interval is computed in floating point in the code; \<open>sampling_interval\<close> is that
  computation on integers, with both of its roundings.
\<close>

subsection \<open>Configuration\<close>

datatype signal_timer = SITimer | SCTimer

datatype lines = LastInstruction | First | NoLine

record sampler_config =
  python_version :: py_version
  sampling_rate :: nat
  signal_timer :: signal_timer
  lines :: lines

definition MAX_DRAIN_STACKS :: nat where "MAX_DRAIN_STACKS = 64"

datatype version_error = UnsupportedVersion py_version | BuiltAgainst py_version py_version

definition check_version :: "layout \<Rightarrow> py_version \<Rightarrow> version_error + unit" where
  "check_version L version =
     (if \<not> (fst version = 3 \<and> 10 \<le> snd version \<and> snd version \<le> 14)
      then Inl (UnsupportedVersion version)
      else if version \<noteq> PY_VERSION L then Inl (BuiltAgainst version (PY_VERSION L))
      else Inr ())"

text \<open>
  \<open>Duration::from_secs_f64(1.0 / rate as f64)\<close> in nanoseconds. The quotient is rounded to the 53
  bits of an \<open>f64\<close> (as \<open>q / 2^k\<close>), then to whole nanoseconds; both round half to even.
\<close>

definition round_half_even :: "nat \<Rightarrow> nat \<Rightarrow> nat" where
  "round_half_even n d =
     (let q = n div d; r = n mod d
      in if 2 * r < d then q else if 2 * r > d then q + 1 else if even q then q else q + 1)"

definition f64_recip :: "nat \<Rightarrow> nat \<times> nat" where
  "f64_recip rate =
     (let k = 52 + floorlog 2 (rate - 1) in (round_half_even (2 ^ k) rate, 2 ^ k))"

definition sampling_interval :: "nat \<Rightarrow> nat" where
  "sampling_interval rate =
     (let (q, d) = f64_recip rate in round_half_even (q * 1000000000) d)"

subsection \<open>Resolving\<close>

record raw_frame =
  raw_frame :: usize
  raw_code :: usize
  lasti :: int
  is_entry :: bool
  is_shim_entry :: bool

record resolved_frame =
  res_name :: string
  res_filename :: string
  res_line :: int

datatype resolve_failure =
    InstructionBeforeCode usize usize
  | InstructionOffset
  | PySpy string
  | AddressRangeOverflow usize nat
  | ReadMemory usize nat

type_synonym py_spy = "lines \<Rightarrow> raw_frame list \<Rightarrow> string + resolved_frame list"

definition i32_try_from :: "int \<Rightarrow> resolve_failure + int" where
  "i32_try_from x = (if - (2 ^ 31) \<le> x \<and> x < 2 ^ 31 then Inr x else Inl InstructionOffset)"

definition instruction_offset :: "layout \<Rightarrow> frame \<Rightarrow> resolve_failure + int" where
  "instruction_offset L f =
     (if \<not> py_at_least (PY_VERSION L) 11 then i32_try_from (sint (instr f))
      else if instr f < code f then Inl (InstructionBeforeCode (instr f) (code f))
      else i32_try_from (uint (instr f - code f)))"

record resolver =
  resolver_lines :: lines
  raw :: "raw_frame list"

definition resolver_new :: "lines \<Rightarrow> resolver" where
  "resolver_new lns = \<lparr>resolver_lines = lns, raw = []\<rparr>"

text \<open>The loop that fills \<open>raw\<close>; on an error the frames pushed so far stay in it.\<close>

fun push_raw :: "layout \<Rightarrow> frame list \<Rightarrow> resolver \<Rightarrow> (resolve_failure + unit) \<times> resolver" where
  "push_raw L [] r = (Inr (), r)"
| "push_raw L (f # fs) r =
     (case (case resolver_lines r of LastInstruction \<Rightarrow> instruction_offset L f
            | First \<Rightarrow> Inr 0 | NoLine \<Rightarrow> Inr 0) of
        Inl e \<Rightarrow> (Inl e, r)
      | Inr off \<Rightarrow>
          push_raw L fs (r\<lparr>raw := raw r @ [\<lparr>raw_frame = 0, raw_code = code f, lasti = off,
             is_entry = False, is_shim_entry = False\<rparr>]\<rparr>))"

definition resolve_stack_inner ::
    "layout \<Rightarrow> py_spy \<Rightarrow> frame list \<Rightarrow> resolver \<Rightarrow> (resolve_failure + resolved_frame list) \<times> resolver" where
  "resolve_stack_inner L py fs r =
     (case push_raw L fs (r\<lparr>raw := []\<rparr>) of
        (Inl e, r) \<Rightarrow> (Inl e, r)
      | (Inr _, r) \<Rightarrow>
          (case py (resolver_lines r) (raw r) of Inl e \<Rightarrow> Inl (PySpy e) | Inr t \<Rightarrow> Inr t, r))"

definition resolve_stack ::
    "layout \<Rightarrow> py_spy \<Rightarrow> frame list \<Rightarrow> resolver \<times> metrics \<Rightarrow>
     (resolve_failure + resolved_frame list) \<times> resolver \<times> metrics" where
  "resolve_stack L py fs rm =
     (let (r, mt) = rm; (result, r) = resolve_stack_inner L py fs r
      in (result, r, case result of
                       Inl _ \<Rightarrow> mt\<lparr>resolve_error := resolve_error mt + 1\<rparr> | Inr _ \<Rightarrow> mt))"

text \<open>\<open>ProcessMemory::read\<close> for py-spy: the bytes read, or the failure.\<close>

definition memory_read :: "memory \<Rightarrow> usize \<Rightarrow> nat \<Rightarrow> resolve_failure + u8 list" where
  "memory_read M addr n =
     (case checked_add addr (of_nat n) of
        None \<Rightarrow> Inl (AddressRangeOverflow addr n)
      | Some _ \<Rightarrow>
          if n = 0 then Inr []
          else (case ks_slice M addr n of
                  None \<Rightarrow> Inl (ReadMemory addr n)
                | Some bytes \<Rightarrow> Inr (List.map bytes [0..<n])))"

subsection \<open>The session\<close>

record 'os process =
  unwinder :: unwinder
  timers :: "'os timers"

record session =
  session_timer :: "timer_backend option"
  session_handler :: signal_handler
  buf :: "frame list"
  resolver :: resolver

datatype start_error =
    BadVersion version_error
  | ZeroRate
  | FaultHandlers string
  | InstallHandler io_error
  | CTimerLinuxOnly
  | StartTimer io_error

definition version_text :: "py_version \<Rightarrow> string" where
  "version_text v = to_decimal (fst v) @ ''.'' @ to_decimal (snd v)"

definition start_error_text :: "'os os_calls \<Rightarrow> start_error \<Rightarrow> string" where
  "start_error_text K err =
     (case err of
        BadVersion (UnsupportedVersion v) \<Rightarrow>
          ''unwinding in the signal handler supports only Python 3.10 to 3.14, found '' @ version_text v
      | BadVersion (BuiltAgainst v b) \<Rightarrow>
          ''running on Python '' @ version_text v @ '', but built against Python '' @ version_text b
      | ZeroRate \<Rightarrow> ''the sampling rate must be greater than zero''
      | FaultHandlers e \<Rightarrow> ''failed to install memory fault handlers: '' @ e
      | InstallHandler e \<Rightarrow> ''failed to install the signal handler: '' @ show_io_error K e
      | CTimerLinuxOnly \<Rightarrow> ''CTimer works only on Linux''
      | StartTimer e \<Rightarrow> ''failed to start the timer: '' @ show_io_error K e)"

text \<open>What a previous session left in the ring buffer is popped and dropped.\<close>

definition discard_records :: "frame list \<Rightarrow> unwinder \<Rightarrow> (frame list \<times> unwinder) option" where
  "discard_records bf u =
     (case acquire_consumer (RECORDS u) of
        (None, rb) \<Rightarrow> Some (bf, u\<lparr>RECORDS := rb\<rparr>)
      | (Some c, rb) \<Rightarrow>
          (case discard_loop pop_slice c rb bf of
             None \<Rightarrow> None
           | Some (rb, bf) \<Rightarrow> Some (bf, u\<lparr>RECORDS := drop_consumer rb\<rparr>)))"

definition session_start ::
    "'os os_calls \<Rightarrow> layout \<Rightarrow> bool \<Rightarrow> string option \<Rightarrow> nat \<Rightarrow> sampler_config \<Rightarrow> 'os process \<Rightarrow>
     ((start_error + session) \<times> 'os process) option" where
  "session_start K L linux fault_handlers handler_addr config w =
     (case check_version L (python_version config) of
        Inl e \<Rightarrow> Some (Inl (BadVersion e), w)
      | Inr _ \<Rightarrow>
        if sampling_rate config = 0 then Some (Inl ZeroRate, w)
        else (case fault_handlers of
          Some e \<Rightarrow> Some (Inl (FaultHandlers e), w)
        | None \<Rightarrow>
          (case discard_records (replicate MAX_FRAMES default_frame) (unwinder w) of
             None \<Rightarrow> None
           | Some (bf, u) \<Rightarrow>
             let w = w\<lparr>unwinder := u\<rparr> in
             (case install_handler K SIGPROF handler_addr (timers w) of
                (Inl e, tw) \<Rightarrow> Some (Inl (InstallHandler e), w\<lparr>timers := tw\<rparr>)
              | (Inr h, tw) \<Rightarrow>
                let u = (unwinder w)\<lparr>METRICS := snd (take_drop_counts (METRICS (unwinder w)))\<rparr>;
                    w = w\<lparr>unwinder := u, timers := tw\<rparr>;
                    interval = sampling_interval (sampling_rate config)
                in if signal_timer config = SCTimer \<and> \<not> linux
                   then Some (Inl CTimerLinuxOnly, w\<lparr>timers := drop_handler K h tw\<rparr>)
                   else
                     let m = (case signal_timer config of SITimer \<Rightarrow> ITimer | SCTimer \<Rightarrow> CTimer) in
                     (case timer_start K m interval tw of
                        (Inl e, tw) \<Rightarrow> Some (Inl (StartTimer e), w\<lparr>timers := drop_handler K h tw\<rparr>)
                      | (Inr b, tw) \<Rightarrow>
                          Some (Inr \<lparr>session_timer = Some b, session_handler = h, buf = bf,
                                    resolver = resolver_new (lines config)\<rparr>,
                                w\<lparr>timers := tw\<rparr>))))))"

text \<open>The effect of one popped record on the traces, the resolver and the counters.\<close>

definition drain_record ::
    "layout \<Rightarrow> py_spy \<Rightarrow> frame list \<Rightarrow> resolved_frame list list \<times> resolver \<times> metrics \<Rightarrow>
     resolved_frame list list \<times> resolver \<times> metrics" where
  "drain_record L py fs s =
     (let (traces, rm) = s; (result, rm) = resolve_stack L py fs rm
      in (case result of Inr t \<Rightarrow> traces @ [t] | Inl _ \<Rightarrow> traces, rm))"

definition drain ::
    "layout \<Rightarrow> py_spy \<Rightarrow> session \<Rightarrow> unwinder \<Rightarrow> (resolved_frame list list \<times> session \<times> unwinder) option" where
  "drain L py s u =
     (case acquire_consumer (RECORDS u) of
        (None, rb) \<Rightarrow> Some ([], s, u\<lparr>RECORDS := rb\<rparr>)
      | (Some c, rb) \<Rightarrow>
          (case drain_loop pop_slice (drain_record L py) MAX_DRAIN_STACKS c rb (buf s)
                  ([], resolver s, METRICS u) of
             None \<Rightarrow> None
           | Some (rb, bf, traces, r, mt) \<Rightarrow>
               Some (traces, s\<lparr>buf := bf, resolver := r\<rparr>,
                     u\<lparr>RECORDS := drop_consumer rb, METRICS := mt\<rparr>)))"

text \<open>\<open>Drop\<close> for the session empties the shared timer slot, then the handler is dropped.\<close>

definition session_drop :: "'os os_calls \<Rightarrow> session \<Rightarrow> 'os timers \<Rightarrow> 'os timers" where
  "session_drop K s tw =
     (let tw = (case session_timer s of None \<Rightarrow> tw | Some b \<Rightarrow> timer_drop K b tw)
      in drop_handler K (session_handler s) tw)"

text \<open>\<open>thread_created\<close> and \<open>thread_removed\<close> on the shared timer slot.\<close>

definition sampler_thread_created ::
    "'os os_calls \<Rightarrow> int \<Rightarrow> timer_backend option \<Rightarrow> 'os \<Rightarrow>
     (io_error + unit) \<times> timer_backend option \<times> 'os" where
  "sampler_thread_created K tid slot k =
     (case slot of
        None \<Rightarrow> (Inr (), None, k)
      | Some b \<Rightarrow> (let (r, b, k) = thread_created K tid b k in (r, Some b, k)))"

definition sampler_thread_removed ::
    "'os os_calls \<Rightarrow> int \<Rightarrow> timer_backend option \<Rightarrow> 'os \<Rightarrow> timer_backend option \<times> 'os" where
  "sampler_thread_removed K tid slot k =
     (case slot of
        None \<Rightarrow> (None, k)
      | Some b \<Rightarrow> (let (b, k) = thread_removed K tid b k in (Some b, k)))"

subsection \<open>Resolution does not depend on what the resolver did before\<close>

definition resolves :: "layout \<Rightarrow> py_spy \<Rightarrow> lines \<Rightarrow> frame list \<Rightarrow> resolve_failure + resolved_frame list" where
  "resolves L py lns fs = fst (resolve_stack_inner L py fs (resolver_new lns))"

definition resolved_traces :: "layout \<Rightarrow> py_spy \<Rightarrow> lines \<Rightarrow> frame list list \<Rightarrow> resolved_frame list list" where
  "resolved_traces L py lns recs =
     List.map_filter (\<lambda>fs. case resolves L py lns fs of Inl _ \<Rightarrow> None | Inr t \<Rightarrow> Some t) recs"

lemma push_raw_lines: "resolver_lines (snd (push_raw L fs r)) = resolver_lines r"
  by (induction L fs r rule: push_raw.induct) (auto split: sum.splits)

lemma resolve_stack_inner_lines [simp]:
  "resolver_lines (snd (resolve_stack_inner L py fs r)) = resolver_lines r"
  using push_raw_lines [of L fs "r\<lparr>raw := []\<rparr>"]
  by (auto simp: resolve_stack_inner_def split: prod.splits sum.splits)

lemma resolve_stack_inner_fst:
  "fst (resolve_stack_inner L py fs r) = resolves L py (resolver_lines r) fs"
proof -
  have "r\<lparr>raw := []\<rparr> = (resolver_new (resolver_lines r))\<lparr>raw := []\<rparr>" by (simp add: resolver_new_def)
  then show ?thesis unfolding resolves_def resolve_stack_inner_def by simp
qed

lemma drain_records_fold:
  "\<exists>r'. fold (drain_record L py) recs (traces, r, mt) =
     (traces @ resolved_traces L py (resolver_lines r) recs, r',
      mt\<lparr>resolve_error := resolve_error mt +
           of_nat (length recs - length (resolved_traces L py (resolver_lines r) recs))\<rparr>) \<and>
     resolver_lines r' = resolver_lines r \<and>
     length (resolved_traces L py (resolver_lines r) recs) \<le> length recs"
proof (induction recs arbitrary: traces r mt)
  case Nil
  then show ?case by (simp add: resolved_traces_def List.map_filter_simps)
next
  case (Cons fs recs)
  obtain q where inner: "resolve_stack_inner L py fs r = (resolves L py (resolver_lines r) fs, q)"
    "resolver_lines q = resolver_lines r"
    using resolve_stack_inner_fst resolve_stack_inner_lines by (metis prod.collapse)
  show ?case
  proof (cases "resolves L py (resolver_lines r) fs")
    case (Inl e)
    have s: "drain_record L py fs (traces, r, mt) =
        (traces, q, mt\<lparr>resolve_error := resolve_error mt + 1\<rparr>)"
      by (simp add: drain_record_def resolve_stack_def inner(1) Inl)
    have t: "resolved_traces L py (resolver_lines r) (fs # recs) =
        resolved_traces L py (resolver_lines r) recs"
      by (simp add: resolved_traces_def List.map_filter_simps Inl)
    let ?n = "length (resolved_traces L py (resolver_lines r) recs)"
    obtain r' where IH: "fold (drain_record L py) recs (traces, q, mt\<lparr>resolve_error := resolve_error mt + 1\<rparr>) =
        (traces @ resolved_traces L py (resolver_lines r) recs, r',
         mt\<lparr>resolve_error := resolve_error mt + 1 + of_nat (length recs - ?n)\<rparr>)"
      "resolver_lines r' = resolver_lines r" "?n \<le> length recs"
      using Cons.IH [of traces q "mt\<lparr>resolve_error := resolve_error mt + 1\<rparr>", unfolded inner(2)]
      by (auto simp del: of_nat_diff)
    have "(of_nat (length (fs # recs) - ?n) :: usize) = 1 + of_nat (length recs - ?n)"
      using IH(3) by (simp add: Suc_diff_le)
    then show ?thesis using IH by (simp add: s t add.assoc)
  next
    case (Inr t)
    have s: "drain_record L py fs (traces, r, mt) = (traces @ [t], q, mt)"
      by (simp add: drain_record_def resolve_stack_def inner(1) Inr)
    show ?thesis
      using Cons.IH [of "traces @ [t]" q mt, unfolded inner(2)] Inr
      by (auto simp: s resolved_traces_def List.map_filter_simps)
  qed
qed

lemma acquire_consumer_free:
  assumes "holds rb recs" "\<not> consumer_locked rb"
  obtains c rb' where "acquire_consumer rb = (Some c, rb')" "holds rb' recs" "consumer_ok rb' c recs"
  using assms by (auto simp: acquire_consumer_def try_lock_def fresh_consumer_ok)

lemma drop_consumer_simps [simp]:
  "holds (drop_consumer rb) recs = holds rb recs" "\<not> consumer_locked (drop_consumer rb)"
  by (simp_all add: drop_consumer_def)

lemma drain_free:
  fixes L :: layout and py :: py_spy
  assumes h: "holds (RECORDS u) recs" and l: "\<not> consumer_locked (RECORDS u)"
    and b: "\<forall>r\<in>set recs. length r \<le> length (buf s)"
  defines "batch \<equiv> take MAX_DRAIN_STACKS recs"
    and "traces \<equiv> resolved_traces L py (resolver_lines (resolver s)) (take MAX_DRAIN_STACKS recs)"
  shows "\<exists>s' rb. drain L py s u = Some (traces, s', u\<lparr>RECORDS := rb, METRICS := (METRICS u)
           \<lparr>resolve_error := resolve_error (METRICS u) + of_nat (length batch - length traces)\<rparr>\<rparr>) \<and>
    holds rb (drop MAX_DRAIN_STACKS recs) \<and> \<not> consumer_locked rb \<and>
    length (buf s') = length (buf s) \<and> resolver_lines (resolver s') = resolver_lines (resolver s) \<and>
    length traces \<le> length batch"
proof -
  obtain c rb where a: "acquire_consumer (RECORDS u) = (Some c, rb)" "holds rb recs" "consumer_ok rb c recs"
    using acquire_consumer_free [OF h l] .
  obtain rb' bf where d: "drain_loop pop_slice (drain_record L py) MAX_DRAIN_STACKS c rb (buf s)
      ([], resolver s, METRICS u) = Some (rb', bf, fold (drain_record L py) batch ([], resolver s, METRICS u))"
    "holds rb' (drop MAX_DRAIN_STACKS recs)" "length bf = length (buf s)"
    using ring_source.drain_loop_spec [OF a(2,3) b, where f = "drain_record L py"
        and n = MAX_DRAIN_STACKS and s = "([], resolver s, METRICS u)"]
    unfolding batch_def by blast
  obtain r' where f: "fold (drain_record L py) batch ([], resolver s, METRICS u) =
      (traces, r', (METRICS u)\<lparr>resolve_error := resolve_error (METRICS u) +
         of_nat (length batch - length traces)\<rparr>)"
    "resolver_lines r' = resolver_lines (resolver s)" "length traces \<le> length batch"
    using drain_records_fold [of L py batch "[]" "resolver s" "METRICS u"]
    unfolding traces_def batch_def by auto
  show ?thesis
    using d f by (intro exI [of _ "s\<lparr>buf := bf, resolver := r'\<rparr>"] exI [of _ "drop_consumer rb'"])
      (simp add: drain_def a(1))
qed

lemma drain_busy:
  "consumer_locked (RECORDS u) \<Longrightarrow> drain L py s u = Some ([], s, u)"
  by (simp add: drain_def acquire_consumer_def try_lock_def)

lemma discard_records_spec:
  assumes "holds (RECORDS u) recs" "\<not> consumer_locked (RECORDS u)" "\<forall>r\<in>set recs. length r \<le> length bf"
  shows "\<exists>bf' rb. discard_records bf u = Some (bf', u\<lparr>RECORDS := rb\<rparr>) \<and> holds rb [] \<and>
    \<not> consumer_locked rb \<and> length bf' = length bf"
proof -
  obtain c rb where a: "acquire_consumer (RECORDS u) = (Some c, rb)" "holds rb recs" "consumer_ok rb c recs"
    using acquire_consumer_free [OF assms(1,2)] .
  obtain rb' bf' where "discard_loop pop_slice c rb bf = Some (rb', bf')" "holds rb' []"
    "length bf' = length bf"
    using ring_source.discard_loop_spec [OF a(2,3) assms(3)] by blast
  then show ?thesis
    by (intro exI [of _ bf'] exI [of _ "drop_consumer rb'"]) (simp add: discard_records_def a(1))
qed

subsection \<open>Where every sample goes\<close>

text \<open>
  The sampler as a sequence of timer ticks (each interrupts some thread), drains and batches of
  drop counts. A step returns the number of traces resolved and of losses reported.
\<close>

datatype sampler_event = Tick memory usize | DrainBatch | ReportDrops

definition total_loss :: "metrics \<Rightarrow> usize" where
  "total_loss mt = contentions mt + buffer_dropped mt + truncated mt + invalid mt +
     no_thread_state mt + invalid_code_type mt + read_errors mt + resolve_error mt"

fun sampler_step ::
    "layout \<Rightarrow> py_spy \<Rightarrow> usize \<Rightarrow> sampler_event \<Rightarrow> session \<times> unwinder \<Rightarrow>
     (nat \<times> usize \<times> session \<times> unwinder) option" where
  "sampler_step L py code_type (Tick M tstate) (s, u) = Some (0, 0, s, handler L M code_type tstate u)"
| "sampler_step L py code_type DrainBatch (s, u) =
     do { (traces, s, u) \<leftarrow> drain L py s u; Some (length traces, 0, s, u) }"
| "sampler_step L py code_type ReportDrops (s, u) =
     (let (counts, mt) = take_drop_counts (METRICS u)
      in Some (0, \<Sum>c\<leftarrow>counts. snd c, s, u\<lparr>METRICS := mt\<rparr>))"

fun sampler_run ::
    "layout \<Rightarrow> py_spy \<Rightarrow> usize \<Rightarrow> sampler_event list \<Rightarrow> session \<times> unwinder \<Rightarrow>
     (nat \<times> usize \<times> session \<times> unwinder) option" where
  "sampler_run L py code_type [] su = Some (0, 0, su)"
| "sampler_run L py code_type (e # es) su =
     do { (n, d, su) \<leftarrow> sampler_step L py code_type e su;
          (n', d', su) \<leftarrow> sampler_run L py code_type es su;
          Some (n + n', d + d', su) }"

fun is_tick :: "sampler_event \<Rightarrow> bool" where
  "is_tick (Tick _ _) = True" | "is_tick _ = False"

definition sampler_ok :: "session \<times> unwinder \<Rightarrow> frame list list \<Rightarrow> bool" where
  "sampler_ok su recs \<longleftrightarrow> holds (RECORDS (snd su)) recs \<and> (\<forall>r\<in>set recs. length r \<le> MAX_FRAMES) \<and>
     length (buf (fst su)) = MAX_FRAMES \<and> \<not> consumer_locked (RECORDS (snd su))"

lemma total_loss_count: "total_loss (count_loss l mt) = total_loss mt + 1"
proof (cases l)
  case (Unwinding e)
  then show ?thesis by (cases e) (simp_all add: total_loss_def)
qed (simp_all add: total_loss_def)

lemma take_drop_counts_total: "(\<Sum>c\<leftarrow>fst (take_drop_counts mt). snd c) = total_loss mt"
  by (simp add: take_drop_counts_def total_loss_def algebra_simps)

lemma handler_consumer_locked:
  "consumer_locked (RECORDS (handler L M ct tstate u)) = consumer_locked (RECORDS u)"
proof -
  have "consumer_locked rb' = consumer_locked rb" if "push_slice p rb vs = (r, p', rb')" for p rb vs r p' rb'
    using that by (auto simp: push_slice_def Let_def split: if_splits)
  then show ?thesis
    by (auto simp: handler_def acquire_producer_def try_lock_def drop_producer_def Let_def
        split: prod.splits sum.splits option.splits if_splits) fastforce+
qed

lemma sampler_step_ok:
  assumes ok: "sampler_ok su recs"
  shows "\<exists>n d su' recs'. sampler_step L py ct e su = Some (n, d, su') \<and> sampler_ok su' recs' \<and>
    of_nat n + d + total_loss (METRICS (snd su')) + of_nat (length recs') =
      (if is_tick e then 1 else 0) + total_loss (METRICS (snd su)) + of_nat (length recs)"
proof -
  obtain s u where su: "su = (s, u)" by (cases su)
  have O: "holds (RECORDS u) recs" "\<forall>r\<in>set recs. length r \<le> MAX_FRAMES"
    "length (buf s) = MAX_FRAMES" "\<not> consumer_locked (RECORDS u)"
    using ok by (simp_all add: sampler_ok_def su)
  show ?thesis
  proof (cases e)
    case (Tick M tstate)
    let ?u = "handler L M ct tstate u"
    obtain recs' where h: "holds (RECORDS ?u) recs'"
      "(\<exists>fs. recs' = recs @ [fs] \<and> length fs \<le> MAX_FRAMES \<and> METRICS ?u = METRICS u) \<or>
       (\<exists>l. recs' = recs \<and> METRICS ?u = count_loss l (METRICS u))"
      using handler_outcome [OF O(1), of L M ct tstate] by blast
    then have "sampler_ok (s, ?u) recs'"
      using O by (auto simp: sampler_ok_def handler_consumer_locked)
    moreover have "total_loss (METRICS ?u) + of_nat (length recs') =
        1 + total_loss (METRICS u) + of_nat (length recs)"
      using h(2) by (auto simp: total_loss_count)
    ultimately show ?thesis by (intro exI [of _ 0] exI [of _ "(s, ?u)"] exI [of _ recs'])
      (simp add: Tick su)
  next
    case DrainBatch
    let ?b = "take MAX_DRAIN_STACKS recs"
    let ?t = "resolved_traces L py (resolver_lines (resolver s)) ?b"
    obtain s' rb where d: "drain L py s u = Some (?t, s', u\<lparr>RECORDS := rb, METRICS := (METRICS u)
         \<lparr>resolve_error := resolve_error (METRICS u) + of_nat (length ?b - length ?t)\<rparr>\<rparr>)"
      "holds rb (drop MAX_DRAIN_STACKS recs)" "\<not> consumer_locked rb"
      "length (buf s') = length (buf s)" "length ?t \<le> length ?b"
      using drain_free [OF O(1,4), of s L py] O(2,3) by auto
    have "length ?t + (length ?b - length ?t) + length (drop MAX_DRAIN_STACKS recs) = length recs"
      using d(5) length_append [of ?b "drop MAX_DRAIN_STACKS recs"] by simp
    then have "(of_nat (length ?t) + of_nat (length ?b - length ?t) + of_nat (length (drop MAX_DRAIN_STACKS recs)) :: usize) =
        of_nat (length recs)"
      by (simp only: of_nat_add [symmetric])
    moreover have "sampler_ok (s', u\<lparr>RECORDS := rb, METRICS := (METRICS u)
         \<lparr>resolve_error := resolve_error (METRICS u) + of_nat (length ?b - length ?t)\<rparr>\<rparr>)
         (drop MAX_DRAIN_STACKS recs)"
      using d O by (auto simp: sampler_ok_def dest: in_set_dropD)
    ultimately show ?thesis using d(1)
      by (intro exI [of _ "length ?t"] exI [of _ 0] exI [of _ "drop MAX_DRAIN_STACKS recs"])
         (auto simp add: DrainBatch su total_loss_def add.assoc simp del: of_nat_diff length_drop length_take)
  next
    case ReportDrops
    then show ?thesis
      using O take_drop_counts_total [of "METRICS u"]
      by (auto simp: su sampler_ok_def case_prod_beta total_loss_def metrics_zero_def
          intro!: exI [of _ recs])
  qed
qed

lemma sampler_run_ok:
  assumes "sampler_ok su recs"
  shows "\<exists>n d su' recs'. sampler_run L py ct es su = Some (n, d, su') \<and> sampler_ok su' recs' \<and>
    of_nat n + d + total_loss (METRICS (snd su')) + of_nat (length recs') =
      of_nat (length (filter is_tick es)) + total_loss (METRICS (snd su)) + of_nat (length recs)"
  using assms
proof (induction es arbitrary: su recs)
  case Nil
  then show ?case by auto
next
  case (Cons e es)
  obtain n d su1 recs1 where 1: "sampler_step L py ct e su = Some (n, d, su1)" "sampler_ok su1 recs1"
    "of_nat n + d + total_loss (METRICS (snd su1)) + of_nat (length recs1) =
      (if is_tick e then 1 else 0) + total_loss (METRICS (snd su)) + of_nat (length recs)"
    using sampler_step_ok [OF Cons.prems] by blast
  obtain n' d' su2 recs2 where 2: "sampler_run L py ct es su1 = Some (n', d', su2)"
    "sampler_ok su2 recs2"
    "of_nat n' + d' + total_loss (METRICS (snd su2)) + of_nat (length recs2) =
      of_nat (length (filter is_tick es)) + total_loss (METRICS (snd su1)) + of_nat (length recs1)"
    using Cons.IH [OF 1(2)] by blast
  have "of_nat (n + n') + (d + d') + total_loss (METRICS (snd su2)) + of_nat (length recs2) =
      (of_nat n + d) + (of_nat n' + d' + total_loss (METRICS (snd su2)) + of_nat (length recs2))"
    by (simp add: algebra_simps)
  also have "\<dots> = of_nat (length (filter is_tick es)) +
      (of_nat n + d + total_loss (METRICS (snd su1)) + of_nat (length recs1))"
    unfolding 2(3) by (simp add: algebra_simps)
  also have "\<dots> = of_nat (length (filter is_tick (e # es))) + total_loss (METRICS (snd su)) + of_nat (length recs)"
    unfolding 1(3) by simp
  finally show ?case using 1(1) 2(1,2) by auto
qed

subsection \<open>The interval\<close>

lemma round_half_even_bounds:
  assumes "0 < d"
  shows "2 * n \<le> 2 * d * round_half_even n d + d" "2 * d * round_half_even n d \<le> 2 * n + d"
proof -
  define q r where "q = n div d" "r = n mod d"
  have n: "n = d * q + r" "r < d" using assms by (simp_all add: q_r_def)
  have "round_half_even n d = q \<and> 2 * r \<le> d \<or> round_half_even n d = q + 1 \<and> d \<le> 2 * r"
    unfolding round_half_even_def q_r_def [symmetric] Let_def by auto
  then show "2 * n \<le> 2 * d * round_half_even n d + d" "2 * d * round_half_even n d \<le> 2 * n + d"
    using n by (auto simp: algebra_simps)
qed

lemma sampling_interval_bounds:
  assumes R: "0 < rate"
  shows "sampling_interval rate * rate < 1000000000 + rate"
    "1000000000 < sampling_interval rate * rate + rate"
proof -
  define P where "P = (2::nat) ^ (52 + floorlog 2 (rate - 1))"
  define q where "q = round_half_even P rate"
  define I where "I = round_half_even (q * 1000000000) P"
  have P: "0 < P" "1000000000 < P"
  proof -
    have "(2::nat) ^ 52 \<le> P" unfolding P_def by (intro power_increasing) simp_all
    then show "0 < P" "1000000000 < P" by simp_all
  qed
  have I: "sampling_interval rate = I"
    by (simp add: sampling_interval_def f64_recip_def I_def q_def P_def Let_def)
  note A = round_half_even_bounds [OF R, of P, folded q_def]
  note B = round_half_even_bounds [OF P(1), of "q * 1000000000", folded I_def]
  have "2 * P * (I * rate) \<le> (2 * (q * 1000000000) + P) * rate"
    using mult_le_mono1 [OF B(2), of rate] by (simp add: algebra_simps)
  also have "\<dots> = (2 * rate * q) * 1000000000 + P * rate" by (simp add: algebra_simps)
  also have "\<dots> \<le> (2 * P + rate) * 1000000000 + P * rate" using A(2) by simp
  also have "\<dots> < 2 * P * (1000000000 + rate)" using P(2) R by (simp add: algebra_simps)
  finally show "sampling_interval rate * rate < 1000000000 + rate" using P(1) by (simp add: I)
  have "2 * P * 1000000000 \<le> (2 * rate * q + rate) * 1000000000" using A(1) by simp
  also have "\<dots> = rate * (2 * (q * 1000000000)) + rate * 1000000000" by (simp add: algebra_simps)
  also have "\<dots> \<le> rate * (2 * P * I + P) + rate * 1000000000" using B(1) by simp
  also have "\<dots> < 2 * P * (I * rate + rate)" using P(2) R by (simp add: algebra_simps)
  finally show "1000000000 < sampling_interval rate * rate + rate" using P(1) by (simp add: I)
qed

subsection \<open>Starting and stopping\<close>

lemma install_handler_ok:
  assumes "install_handler K sig hdl tw = (r, tw')"
  shows "case r of
      Inl e \<Rightarrow> HANDLED_SIGNALS tw' = HANDLED_SIGNALS tw \<and> ACTIVE tw' = ACTIVE tw
    | Inr h \<Rightarrow> sh_signal h = sig \<and> sig \<notin> set (HANDLED_SIGNALS tw) \<and>
        HANDLED_SIGNALS tw' = HANDLED_SIGNALS tw @ [sig] \<and> ACTIVE tw' = ACTIVE tw"
  using assms by (auto simp: install_handler_def Let_def split: if_splits prod.splits)

lemma drop_handler_simps [simp]:
  "HANDLED_SIGNALS (drop_handler K h tw) = filter (\<lambda>s. s \<noteq> sh_signal h) (HANDLED_SIGNALS tw)"
  "ACTIVE (drop_handler K h tw) = ACTIVE tw"
  by (simp_all add: drop_handler_def Let_def)

lemma timer_start_ok:
  assumes "timer_start K m iv tw = (r, tw')"
  shows "HANDLED_SIGNALS tw' = HANDLED_SIGNALS tw"
    "case r of Inl e \<Rightarrow> ACTIVE tw' = ACTIVE tw | Inr b \<Rightarrow> \<not> ACTIVE tw \<and> ACTIVE tw' \<and> timer_mode b = m"
  using assms
  by (auto simp: timer_start_def active_acquire_def active_drop_def split: if_splits prod.splits sum.splits mode.splits)

lemma filter_snoc_out: "x \<notin> set xs \<Longrightarrow> filter (\<lambda>y. y \<noteq> x) (xs @ [x]) = xs"
  by (simp add: filter_id_conv) auto

lemma session_drop_simps:
  "HANDLED_SIGNALS (session_drop K s tw) = filter (\<lambda>g. g \<noteq> sh_signal (session_handler s)) (HANDLED_SIGNALS tw)"
  "session_timer s = Some b \<Longrightarrow> \<not> ACTIVE (session_drop K s tw)"
  by (auto simp: session_drop_def timer_drop_def active_drop_def Let_def split: option.splits)

text \<open>A start leaves the locks of a failed attempt released.\<close>

lemma session_start_cases:
  assumes d: "discard_records (replicate MAX_FRAMES default_frame) (unwinder w) = Some (bf, u)"
    and s: "session_start K L linux fh addr config w = Some (r, w')"
  shows "case r of
      Inl e \<Rightarrow> HANDLED_SIGNALS (timers w') = HANDLED_SIGNALS (timers w) \<and>
        ACTIVE (timers w') = ACTIVE (timers w)
    | Inr ses \<Rightarrow> check_version L (python_version config) = Inr () \<and> 0 < sampling_rate config \<and>
        fh = None \<and> SIGPROF \<notin> set (HANDLED_SIGNALS (timers w)) \<and> \<not> ACTIVE (timers w) \<and>
        HANDLED_SIGNALS (timers w') = HANDLED_SIGNALS (timers w) @ [SIGPROF] \<and> ACTIVE (timers w') \<and>
        sh_signal (session_handler ses) = SIGPROF \<and> session_timer ses \<noteq> None \<and> buf ses = bf \<and>
        resolver_lines (resolver ses) = lines config \<and>
        unwinder w' = u\<lparr>METRICS := metrics_zero\<rparr>"
proof (cases "check_version L (python_version config)")
  case (Inl e)
  then show ?thesis using s by (auto simp: session_start_def)
next
  case ver: (Inr x)
  show ?thesis
  proof (cases "sampling_rate config = 0 \<or> fh \<noteq> None")
    case True
    then show ?thesis using s ver by (auto simp: session_start_def split: if_splits)
  next
    case False
    obtain q tw where i: "install_handler K SIGPROF addr (timers w) = (q, tw)" by fastforce
    note I = install_handler_ok [OF i]
    show ?thesis
    proof (cases q)
      case (Inl e)
      then show ?thesis using s ver False d i I by (auto simp: session_start_def)
    next
      case (Inr h)
      have h: "sh_signal h = SIGPROF" "SIGPROF \<notin> set (HANDLED_SIGNALS (timers w))"
        "HANDLED_SIGNALS tw = HANDLED_SIGNALS (timers w) @ [SIGPROF]" "ACTIVE tw = ACTIVE (timers w)"
        using I Inr by simp_all
      let ?m = "case signal_timer config of SITimer \<Rightarrow> ITimer | SCTimer \<Rightarrow> CTimer"
      obtain t tw2 where t: "timer_start K ?m (sampling_interval (sampling_rate config)) tw = (t, tw2)"
        by fastforce
      note T = timer_start_ok [OF t]
      show ?thesis
        using s ver False d i Inr t T h filter_snoc_out [OF h(2)]
        by (cases t) (auto simp: session_start_def Let_def resolver_new_def split: if_splits)
    qed
  qed
qed

subsection \<open>Properties\<close>

text \<open>
  C31: A drain takes the oldest records, at most \<open>MAX_DRAIN_STACKS\<close> of them, returns the traces
  of those that resolve in their order, counts one \<open>resolve_error\<close> for each of the others,
  leaves the newer records in the buffer and releases the consumer side; it never panics on a
  record that does not fit its buffer. While another consumer is active it changes nothing.
\<close>

theorem drain_bounded_batch:
  assumes "holds (RECORDS u) recs" and "\<forall>r\<in>set recs. length r \<le> length (buf s)"
  shows "if consumer_locked (RECORDS u) then drain L py s u = Some ([], s, u)
    else \<exists>s' u'. drain L py s u =
        Some (resolved_traces L py (resolver_lines (resolver s)) (take MAX_DRAIN_STACKS recs), s', u') \<and>
      holds (RECORDS u') (drop MAX_DRAIN_STACKS recs) \<and> \<not> consumer_locked (RECORDS u') \<and>
      METRICS u' = (METRICS u)\<lparr>resolve_error := resolve_error (METRICS u) +
        of_nat (length (take MAX_DRAIN_STACKS recs) - length (resolved_traces L py
          (resolver_lines (resolver s)) (take MAX_DRAIN_STACKS recs)))\<rparr> \<and>
      length (buf s') = length (buf s)"
proof (cases "consumer_locked (RECORDS u)")
  case True
  then show ?thesis by (simp add: drain_busy)
next
  case False
  let ?t = "resolved_traces L py (resolver_lines (resolver s)) (take MAX_DRAIN_STACKS recs)"
  let ?u = "\<lambda>rb. u\<lparr>RECORDS := rb, METRICS := (METRICS u)\<lparr>resolve_error := resolve_error (METRICS u) +
      of_nat (length (take MAX_DRAIN_STACKS recs) - length ?t)\<rparr>\<rparr>"
  obtain s' rb where d: "drain L py s u = Some (?t, s', ?u rb)"
    "holds rb (drop MAX_DRAIN_STACKS recs)" "\<not> consumer_locked rb" "length (buf s') = length (buf s)"
    using drain_free [OF assms(1) False assms(2), of L py] by blast
  have "RECORDS (?u rb) = rb" "METRICS (?u rb) = (METRICS u)\<lparr>resolve_error := resolve_error (METRICS u) +
      of_nat (length (take MAX_DRAIN_STACKS recs) - length ?t)\<rparr>"
    by simp_all
  with d show ?thesis unfolding if_not_P [OF False]
    by (intro exI [of _ s'] exI [of _ "?u rb"]) (simp only: simp_thms)
qed

text \<open>
  C8: Every tick of the sampler is accounted for exactly once. Over any interleaving of ticks,
  drains and reports of drop counts, the traces returned, the losses reported, the losses not
  yet reported and the records still in the buffer add up (modulo \<open>2^64\<close>) to the ticks that
  happened and what was there before; nothing panics.
\<close>

theorem every_tick_accounted:
  assumes "sampler_ok su recs"
  shows "\<exists>n d su' recs'. sampler_run L py ct es su = Some (n, d, su') \<and>
    holds (RECORDS (snd su')) recs' \<and>
    of_nat n + d + total_loss (METRICS (snd su')) + of_nat (length recs') =
      of_nat (length (filter is_tick es)) + total_loss (METRICS (snd su)) + of_nat (length recs)"
  using sampler_run_ok [OF assms, of L py ct es] by (auto simp: sampler_ok_def)

text \<open>
  C32: Starting a session either fails and leaves the signal and timer ownership as it was, or
  succeeds with a supported and matching Python version, owning \<open>SIGPROF\<close> and the timer, with
  the records and drop counts of earlier sessions gone and a buffer that fits every record; it
  never panics. Ending the session gives the ownership back.
\<close>

theorem session_lifecycle:
  assumes "holds (RECORDS (unwinder w)) recs" and "\<not> consumer_locked (RECORDS (unwinder w))"
    and "\<forall>r\<in>set recs. length r \<le> MAX_FRAMES"
  shows "case session_start K L linux fh addr config w of
      None \<Rightarrow> False
    | Some (Inl e, w') \<Rightarrow> HANDLED_SIGNALS (timers w') = HANDLED_SIGNALS (timers w) \<and>
        ACTIVE (timers w') = ACTIVE (timers w)
    | Some (Inr s, w') \<Rightarrow> python_version config = PY_VERSION L \<and> 0 < sampling_rate config \<and>
        SIGPROF \<in> set (HANDLED_SIGNALS (timers w')) \<and> ACTIVE (timers w') \<and>
        holds (RECORDS (unwinder w')) [] \<and> METRICS (unwinder w') = metrics_zero \<and>
        length (buf s) = MAX_FRAMES \<and>
        HANDLED_SIGNALS (session_drop K s (timers w')) = HANDLED_SIGNALS (timers w) \<and>
        \<not> ACTIVE (session_drop K s (timers w'))"
proof -
  have "\<forall>r\<in>set recs. length r \<le> length (replicate MAX_FRAMES default_frame)" using assms(3) by simp
  then obtain bf rb where d: "discard_records (replicate MAX_FRAMES default_frame) (unwinder w) =
      Some (bf, (unwinder w)\<lparr>RECORDS := rb\<rparr>)" "holds rb []" "length bf = MAX_FRAMES"
    using discard_records_spec [OF assms(1,2), of "replicate MAX_FRAMES default_frame"]
    by (simp only: length_replicate) blast
  have "session_start K L linux fh addr config w \<noteq> None"
    by (auto simp: session_start_def d(1) Let_def split: sum.splits option.splits prod.splits)
  then obtain r w' where s: "session_start K L linux fh addr config w = Some (r, w')" by auto
  note C = session_start_cases [OF d(1) s]
  show ?thesis
  proof (cases r)
    case (Inl e)
    then show ?thesis using C s by simp
  next
    case (Inr ses)
    have ver: "check_version L v = Inr () \<Longrightarrow> v = PY_VERSION L" for v
      by (auto simp: check_version_def split: if_splits)
    show ?thesis
      using C s Inr d ver filter_snoc_out session_drop_simps [where s = ses and tw = "timers w'"] by auto
  qed
qed

text \<open>
  C33: The sampling interval in nanoseconds is within one nanosecond of \<open>10^9 / rate\<close> for every
  positive rate, in spite of the two roundings of the floating-point computation.
\<close>

theorem sampling_interval_accurate:
  assumes "0 < rate"
  shows "sampling_interval rate * rate < 1000000000 + rate \<and>
    1000000000 < sampling_interval rate * rate + rate"
  using sampling_interval_bounds [OF assms] by blast

subsection \<open>Witnesses\<close>

definition example_py_spy :: py_spy where
  "example_py_spy lns fs =
     (if length fs = 1 then Inr [\<lparr>res_name = ''f'', res_filename = ''a.py'', res_line = 1\<rparr>]
      else Inl ''unreadable'')"

definition example_session :: session where
  "example_session = \<lparr>session_timer = Some ITimerBackend,
     session_handler = \<lparr>sh_signal = SIGPROF, sh_handler = 1\<rparr>,
     buf = replicate MAX_FRAMES default_frame, resolver = resolver_new First\<rparr>"

theorem drain_bounded_batch_witness:
  "\<exists>s' u'. drain v3_13 example_py_spy example_session fresh_unwinder = Some ([], s', u') \<and>
     holds (RECORDS u') [] \<and> METRICS u' = metrics_zero"
proof -
  have u: "\<not> consumer_locked (RECORDS fresh_unwinder)" "METRICS fresh_unwinder = metrics_zero"
    by (simp_all add: fresh_unwinder_def)
  have "\<forall>r\<in>set []. length r \<le> length (buf example_session)" by simp
  note T = drain_bounded_batch [OF fresh_unwinder_holds this, of v3_13 example_py_spy]
  show ?thesis using T u by (auto simp: resolved_traces_def List.map_filter_simps metrics_zero_def)
qed

theorem every_tick_accounted_witness:
  "\<exists>n d su' recs'. sampler_run v3_13 example_py_spy 0x3000
       [Tick (example_memory 0) 0x4000, Tick (example_memory 0) 0, DrainBatch, ReportDrops]
       (example_session, fresh_unwinder) = Some (n, d, su') \<and>
     holds (RECORDS (snd su')) recs' \<and>
     of_nat n + d + total_loss (METRICS (snd su')) + of_nat (length recs') = 2"
proof -
  have "sampler_ok (example_session, fresh_unwinder) []"
    using fresh_unwinder_holds by (simp add: sampler_ok_def example_session_def fresh_unwinder_def)
  from every_tick_accounted [OF this, where L = v3_13 and py = example_py_spy and ct = "0x3000"
      and es = "[Tick (example_memory 0) 0x4000, Tick (example_memory 0) 0, DrainBatch, ReportDrops]"]
  show ?thesis by (simp add: total_loss_def fresh_unwinder_def metrics_zero_def)
qed

theorem session_lifecycle_witness:
  "\<exists>s w'. session_start example_kernel v3_13 True None 1
       \<lparr>python_version = (3, 13), sampling_rate = 100, signal_timer = SITimer, lines = First\<rparr>
       \<lparr>unwinder = fresh_unwinder, timers = \<lparr>kernel = (3, []), HANDLED_SIGNALS = [], ACTIVE = False\<rparr>\<rparr> =
     Some (Inr s, w') \<and> ACTIVE (timers w') \<and> \<not> ACTIVE (session_drop example_kernel s (timers w'))"
proof -
  let ?c = "\<lparr>python_version = (3, 13), sampling_rate = 100, signal_timer = SITimer, lines = First\<rparr>"
  let ?w = "\<lparr>unwinder = fresh_unwinder, timers = \<lparr>kernel = (3, []), HANDLED_SIGNALS = [], ACTIVE = False\<rparr>\<rparr>"
  have h: "holds (RECORDS (unwinder ?w)) []" "\<not> consumer_locked (RECORDS (unwinder ?w))"
    using fresh_unwinder_holds by (simp_all add: fresh_unwinder_def)
  obtain bf rb where d: "discard_records (replicate MAX_FRAMES default_frame) fresh_unwinder =
      Some (bf, fresh_unwinder\<lparr>RECORDS := rb\<rparr>)"
    using discard_records_spec [OF fresh_unwinder_holds, of "replicate MAX_FRAMES default_frame"] h(2)
    by auto
  have "sampling_interval 100 \<noteq> 0" using sampling_interval_bounds [of 100] by auto
  then obtain s w' where s: "session_start example_kernel v3_13 True None 1 ?c ?w = Some (Inr s, w')"
    by (auto simp: session_start_def check_version_def v3_13_def d install_handler_def
        example_kernel_def timer_start_def active_acquire_def itimer_start_def set_itimer_def Let_def)
  have "\<forall>r\<in>set []. length r \<le> MAX_FRAMES" by simp
  from session_lifecycle [OF h this, where K = example_kernel and L = v3_13 and linux = True
      and fh = None and addr = 1 and config = ?c] s
  show ?thesis by auto
qed

theorem sampling_interval_accurate_witness:
  "sampling_interval 100 * 100 < 1000000100 \<and> 999999900 < sampling_interval 100 * 100"
  using sampling_interval_accurate [of 100] by simp

end
