(* ===== verification/Signal_Backend.thy ===== *)
theory Signal_Backend
  imports Signal_Sampler Backend_Types
begin

text \<open>
  \<open>rust/src/signal_backend.rs\<close>: the backend that runs a sampler session on a thread of its own,
  the stacks that stand for dropped samples, and the registry of Python threads that feeds a
  per-thread timer.

  \<open>SharedTimer\<close> is one cell seen by the session and by the registry. Here the cell is
  \<open>session_timer\<close> of the session, and \<open>attached\<close> says whether the registry's \<open>TIMER\<close> refers to
  it. The calls into Python of \<open>install\<close> are parameters: the registrations they make, or an
  exception.
\<close>

subsection \<open>Stacks\<close>

definition to_stack_trace :: "backend_config \<Rightarrow> nat \<Rightarrow> resolved_frame list \<Rightarrow> stack_trace" where
  "to_stack_trace config process_id fs =
     stack_trace_new config (Some process_id) None None
       (List.map (\<lambda>f. \<lparr>name = res_name f, filename = res_filename f,
                       line = as_u32 (max (res_line f) 0)\<rparr>) fs)"

definition dropped_frame :: "string \<Rightarrow> stack_frame" where
  "dropped_frame reason = stack_frame_default\<lparr>name := ''[dropped: '' @ reason @ '']''\<rparr>"

definition dropped_trace :: "backend_config \<Rightarrow> nat \<Rightarrow> string \<Rightarrow> stack_trace" where
  "dropped_trace config process_id reason =
     stack_trace_new config (Some process_id) None None [dropped_frame reason]"

fun record_dropped_stacks ::
    "backend_config \<Rightarrow> nat \<Rightarrow> (string \<times> usize) list \<Rightarrow> stack_buffer \<Rightarrow> stack_buffer" where
  "record_dropped_stacks config process_id [] bf = bf"
| "record_dropped_stacks config process_id ((reason, n) # counts) bf =
     (if n = 0 then record_dropped_stacks config process_id counts bf
      else record_dropped_stacks config process_id counts
             (buffer_record_with_count (dropped_trace config process_id reason) (unat n) bf))"

subsection \<open>The thread registry\<close>

record registry =
  INSTALLED :: bool
  PROCESS_ID :: nat
  LIVE :: "(nat \<times> int) list option"
  attached :: bool

definition live_or_default :: "registry \<Rightarrow> (nat \<times> int) list" where
  "live_or_default r = (case LIVE r of None \<Rightarrow> [] | Some m \<Rightarrow> m)"

text \<open>\<open>native_id as pid_t\<close>\<close>

definition as_pid :: "nat \<Rightarrow> int" where
  "as_pid n = (int n + 2 ^ 31) mod 2 ^ 32 - 2 ^ 31"

text \<open>The shared timer cell and the kernel.\<close>

type_synonym 'os timer_cell = "timer_backend option \<times> 'os"

definition cell_created :: "'os os_calls \<Rightarrow> int \<Rightarrow> 'os timer_cell \<Rightarrow> (io_error + unit) \<times> 'os timer_cell" where
  "cell_created K tid c = sampler_thread_created K tid (fst c) (snd c)"

definition cell_removed :: "'os os_calls \<Rightarrow> int \<Rightarrow> 'os timer_cell \<Rightarrow> 'os timer_cell" where
  "cell_removed K tid c = sampler_thread_removed K tid (fst c) (snd c)"

definition register_thread ::
    "'os os_calls \<Rightarrow> nat \<Rightarrow> nat \<Rightarrow> registry \<times> 'os timer_cell \<Rightarrow> registry \<times> 'os timer_cell" where
  "register_thread K ident native_id rc =
     (let (r, c) = rc;
          tid = as_pid native_id;
          live = live_or_default r;
          previous = map_of live ident;
          r = r\<lparr>LIVE := Some (AList.update ident tid live)\<rparr>
      in if attached r then
           let c = (case previous of
                      Some p \<Rightarrow> if p \<noteq> tid then cell_removed K p c else c | None \<Rightarrow> c)
           in (r, snd (cell_created K tid c))
         else (r, c))"

definition unregister_thread ::
    "'os os_calls \<Rightarrow> nat \<Rightarrow> registry \<times> 'os timer_cell \<Rightarrow> registry \<times> 'os timer_cell" where
  "unregister_thread K ident rc =
     (let (r, c) = rc;
          live = live_or_default r;
          r = r\<lparr>LIVE := Some live\<rparr>
      in case map_of live ident of
           None \<Rightarrow> (r, c)
         | Some tid \<Rightarrow>
             (let r = r\<lparr>LIVE := Some (AList.delete ident live)\<rparr>
              in if attached r then (r, cell_removed K tid c) else (r, c)))"

text \<open>
  \<open>install\<close>; \<open>calls\<close> are the threads that the call into Python registers, and whether the call
  returns or raises after that.
\<close>

definition install_hooks ::
    "'os os_calls \<Rightarrow> nat \<Rightarrow> (nat \<times> nat) list \<times> bool \<Rightarrow> registry \<times> 'os timer_cell \<Rightarrow>
     bool \<times> registry \<times> 'os timer_cell" where
  "install_hooks K process_id calls rc =
     (let register_all = fold (\<lambda>(ident, native_id). register_thread K ident native_id);
          (ts, returns) = calls;
          (r, c) = rc
      in if INSTALLED r then
           if PROCESS_ID r \<noteq> process_id then
             let (r, c) = register_all ts (r\<lparr>LIVE := Some []\<rparr>, c)
             in if returns then (True, r\<lparr>PROCESS_ID := process_id\<rparr>, c) else (False, r, c)
           else (True, r, c)
         else
           let (r, c) = register_all ts (r, c)
           in if returns then (True, r\<lparr>PROCESS_ID := process_id, INSTALLED := True\<rparr>, c)
              else (False, r, c))"

definition thread_timer_error :: "'os os_calls \<Rightarrow> int \<Rightarrow> io_error \<Rightarrow> string" where
  "thread_timer_error K tid e =
     ''failed to start the timer of thread '' @ to_decimal (nat tid) @ '': '' @ show_io_error K e"

text \<open>\<open>attach\<close> on Linux; a failure for another thread than the caller is only logged.\<close>

definition attach_timer ::
    "'os os_calls \<Rightarrow> nat \<Rightarrow> int \<Rightarrow> registry \<times> 'os timer_cell \<Rightarrow>
     (pyroscope_error + unit) \<times> registry \<times> 'os timer_cell" where
  "attach_timer K ident caller_tid rc =
     (let (r, c) = rc
      in if \<not> INSTALLED r
         then (Inl (AdHoc ''Signal: the thread hooks of the CTimer are not installed''), r, c)
         else
           let live = AList.update ident caller_tid (live_or_default r);
               r = r\<lparr>LIVE := Some live\<rparr>;
               (result, c) = cell_created K caller_tid c
           in case result of
                Inl e \<Rightarrow>
                  (Inl (error_new (''Signal: failed to arm the configure caller's CPU timer: '' @
                     thread_timer_error K caller_tid e)), r, c)
              | Inr _ \<Rightarrow>
                  (let c = fold (\<lambda>tid c. if tid \<noteq> caller_tid then snd (cell_created K tid c) else c)
                             (List.map snd live) c
                   in (Inr (), r\<lparr>attached := True\<rparr>, c)))"

definition detach_timer :: "registry \<Rightarrow> registry" where
  "detach_timer r = r\<lparr>attached := False\<rparr>"

subsection \<open>The backend\<close>

text \<open>One turn of the sampling thread; the flag says whether it goes on.\<close>

definition sampling_turn ::
    "layout \<Rightarrow> py_spy \<Rightarrow> backend_config \<Rightarrow> nat \<Rightarrow> session \<times> unwinder \<times> stack_buffer mutex \<Rightarrow>
     (bool \<times> session \<times> unwinder \<times> stack_buffer mutex) option" where
  "sampling_turn L py config process_id x =
     (let (s, u, bf) = x in
      do { (traces, s, u) \<leftarrow> drain L py s u;
           let (r, bf) = with_lock (\<lambda>b.
             ((), fold (\<lambda>fs. buffer_record (to_stack_trace config process_id fs)) traces b)) bf;
           Some (is_ok r, s, u, bf) })"

text \<open>\<open>Signal::new\<close> up to the spawn: the session, attached if its timer is per thread.\<close>

record 'os backend_world =
  bw_process :: "'os process"
  bw_registry :: registry

definition with_cell ::
    "(registry \<times> 'os timer_cell \<Rightarrow> 'r \<times> registry \<times> 'os timer_cell) \<Rightarrow> session \<Rightarrow> 'os backend_world \<Rightarrow>
     'r \<times> session \<times> 'os backend_world" where
  "with_cell f s w =
     (let tw = timers (bw_process w);
          (res, r, slot, k) = f (bw_registry w, session_timer s, kernel tw)
      in (res, s\<lparr>session_timer := slot\<rparr>,
          w\<lparr>bw_registry := r, bw_process := (bw_process w)\<lparr>timers := tw\<lparr>kernel := k\<rparr>\<rparr>\<rparr>))"

definition drop_session :: "'os os_calls \<Rightarrow> session \<Rightarrow> 'os backend_world \<Rightarrow> 'os backend_world" where
  "drop_session K s w =
     w\<lparr>bw_process := (bw_process w)\<lparr>timers := session_drop K s (timers (bw_process w))\<rparr>\<rparr>"

definition signal_new ::
    "'os os_calls \<Rightarrow> layout \<Rightarrow> bool \<Rightarrow> string option \<Rightarrow> nat \<Rightarrow> sampler_config \<Rightarrow> nat \<Rightarrow> int \<Rightarrow>
     'os backend_world \<Rightarrow> ((pyroscope_error + session) \<times> 'os backend_world) option" where
  "signal_new K L linux fault_handlers handler_addr config ident caller_tid w =
     do { (r, p) \<leftarrow> session_start K L linux fault_handlers handler_addr config (bw_process w);
          let w = w\<lparr>bw_process := p\<rparr>;
          case r of
            Inl e \<Rightarrow> Some (Inl (error_new (''Signal: '' @ start_error_text K e)), w)
          | Inr s \<Rightarrow>
              if signal_timer config = SCTimer
              then (case with_cell (attach_timer K ident caller_tid) s w of
                      (Inl e, s, w) \<Rightarrow> Some (Inl e, drop_session K s w)
                    | (Inr _, s, w) \<Rightarrow> Some (Inr s, w))
              else Some (Inr s, w) }"

text \<open>What the sampling thread does after its loop ends.\<close>

definition signal_finish :: "'os os_calls \<Rightarrow> sampler_config \<Rightarrow> session \<Rightarrow> 'os backend_world \<Rightarrow> 'os backend_world" where
  "signal_finish K config s w =
     (let w = (if signal_timer config = SCTimer
               then w\<lparr>bw_registry := detach_timer (bw_registry w)\<rparr> else w)
      in drop_session K s w)"

text \<open>The join handle and the flag of a backend's thread; \<open>joined\<close> is what joining it yields.\<close>

record sampler_handle =
  sampler_thread :: bool
  running :: bool

definition signal_shutdown_thread :: "bool \<Rightarrow> sampler_handle \<Rightarrow> (pyroscope_error + unit) \<times> sampler_handle" where
  "signal_shutdown_thread joined h =
     (let h = h\<lparr>running := False\<rparr>
      in if sampler_thread h
         then (if joined then Inr () else Inl (AdHoc ''Signal: Failed to join sampler thread''),
               h\<lparr>sampler_thread := False\<rparr>)
         else (Inr (), h))"

subsection \<open>Dropped samples\<close>

lemma dropped_trace_inject: "dropped_trace c p a = dropped_trace c p b \<longleftrightarrow> a = b"
proof
  assume "dropped_trace c p a = dropped_trace c p b"
  then have "List.map name (frames (dropped_trace c p a)) = List.map name (frames (dropped_trace c p b))"
    by (rule arg_cong)
  moreover have "List.map name (frames (dropped_trace c p r)) = [''[dropped: '' @ r @ '']'']" for r
    unfolding dropped_trace_def stack_trace_new_tags(3) dropped_frame_def by simp
  ultimately have "''[dropped: '' @ a @ '']'' = ''[dropped: '' @ b @ '']''" by (simp only: list.inject)
  then show "a = b" by (simp only: same_append_eq append_same_eq)
qed simp

lemma record_dropped_other:
  assumes "\<forall>reason\<in>fst ` set counts. st \<noteq> dropped_trace c p reason"
  shows "count_of (record_dropped_stacks c p counts bf) st = count_of bf st"
  using assms
proof (induction counts arbitrary: bf)
  case (Cons x counts)
  obtain r n where x: "x = (r, n)" by (cases x)
  have "st \<noteq> dropped_trace c p r" using Cons.prems by (simp add: x)
  then show ?case
    using Cons.IH Cons.prems by (simp add: x buffer_record_with_count_def count_of_entry_add)
qed simp

lemma record_dropped_reason:
  assumes "distinct (List.map fst counts)" "(reason, n) \<in> set counts"
    and "count_of bf (dropped_trace c p reason) < 2 ^ 64"
  shows "count_of (record_dropped_stacks c p counts bf) (dropped_trace c p reason) =
    usize_add (count_of bf (dropped_trace c p reason)) (unat n)"
  using assms
proof (induction counts arbitrary: bf)
  case (Cons x counts)
  obtain r m where x: "x = (r, m)" by (cases x)
  show ?case
  proof (cases "r = reason")
    case True
    have out: "reason \<notin> fst ` set counts" using Cons.prems(1) True by (simp add: x)
    then have "(reason, n) \<notin> set counts" by (metis fst_conv imageI)
    then have nm: "m = n" "\<forall>q\<in>fst ` set counts. dropped_trace c p reason \<noteq> dropped_trace c p q"
      using Cons.prems(2) out by (auto simp: x dropped_trace_inject simp del: split_paired_Ex)
    then show ?thesis
      using True Cons.prems(3) record_dropped_other [OF nm(2)]
      by (auto simp: x buffer_record_with_count_def count_of_entry_add usize_add_def)
  next
    case False
    let ?bf = "if m = 0 then bf else buffer_record_with_count (dropped_trace c p r) (unat m) bf"
    have "count_of ?bf (dropped_trace c p reason) = count_of bf (dropped_trace c p reason)"
      using False by (simp add: buffer_record_with_count_def count_of_entry_add dropped_trace_inject)
    then show ?thesis using Cons.IH [of ?bf] Cons.prems False by (auto simp: x)
  qed
qed simp

lemma drop_reasons_distinct: "distinct (List.map fst (fst (take_drop_counts mt)))"
  by (simp add: take_drop_counts_def)

subsection \<open>Timers belong to live threads\<close>

definition timed :: "timer_backend option \<Rightarrow> int set" where
  "timed slot = (case slot of Some (CTimerBackend _ th) \<Rightarrow> map_keys th | _ \<Rightarrow> {})"

definition live_tids :: "registry \<Rightarrow> int set" where
  "live_tids r = snd ` set (live_or_default r)"

definition registry_wf :: "registry \<Rightarrow> bool" where
  "registry_wf r \<longleftrightarrow> map_wf (live_or_default r)"

lemma values_update:
  "map_wf m \<Longrightarrow> snd ` set (AList.update k v m) = insert v (snd ` set (AList.delete k m))"
proof (induction m)
  case (Cons x m)
  obtain a b where x: "x = (a, b)" by (cases x)
  have "AList.delete a m = m" if "a \<notin> fst ` set m"
    using that by (force simp: AList.delete_eq filter_id_conv)
  then show ?case using Cons by (auto simp: x map_wf_def)
qed simp

lemma values_delete:
  assumes "map_wf m" "map_of m k = Some p"
  shows "snd ` set m \<subseteq> insert p (snd ` set (AList.delete k m))"
proof
  fix y assume "y \<in> snd ` set m"
  then obtain a where a: "(a, y) \<in> set m" by force
  show "y \<in> insert p (snd ` set (AList.delete k m))"
  proof (cases "a = k")
    case True
    then have "y = p"
      using eq_key_imp_eq_value [OF assms(1) [unfolded map_wf_def]] a map_of_SomeD [OF assms(2)] by metis
    then show ?thesis by simp
  next
    case False
    then show ?thesis using a by (force simp: AList.delete_eq)
  qed
qed

lemma delete_absent: "map_of m k = None \<Longrightarrow> AList.delete k m = m"
  by (force simp: map_of_eq_None_iff AList.delete_eq filter_id_conv)

lemma timed_created:
  assumes "cell_created K tid (slot, k) = (r, slot', k')"
  shows "timed slot' \<subseteq> insert tid (timed slot)"
  using assms
  by (cases slot; cases "the slot")
     (auto simp: cell_created_def sampler_thread_created_def timed_def map_keys_update Let_def
       split: option.splits prod.splits sum.splits)

lemma timed_removed: "timed (fst (cell_removed K tid c)) = timed (fst c) - {tid}"
proof (cases "fst c")
  case None
  then show ?thesis by (simp add: cell_removed_def sampler_thread_removed_def timed_def)
next
  case (Some b)
  show ?thesis
  proof (cases b)
    case ITimerBackend
    then show ?thesis using Some by (simp add: cell_removed_def sampler_thread_removed_def timed_def)
  next
    case (CTimerBackend iv th)
    have "map_keys (AList.delete tid th) = map_keys th - {tid}"
      by (auto simp: map_keys_def AList.delete_eq)
    moreover have "map_of th tid = None \<Longrightarrow> tid \<notin> map_keys th" by (simp add: map_of_eq_None_keys)
    ultimately show ?thesis
      using Some CTimerBackend
      by (auto simp: cell_removed_def sampler_thread_removed_def timed_def case_prod_beta
          split: option.splits)
  qed
qed

definition timers_live :: "registry \<times> 'os timer_cell \<Rightarrow> bool" where
  "timers_live rc \<longleftrightarrow> registry_wf (fst rc) \<and>
     (attached (fst rc) \<longrightarrow> timed (fst (snd rc)) \<subseteq> live_tids (fst rc))"

lemma register_thread_ok [inv_intros]:
  assumes "timers_live (r, c)"
  shows "timers_live (register_thread K ident native_id (r, c)) \<and>
    attached (fst (register_thread K ident native_id (r, c))) = attached r"
proof -
  let ?live = "live_or_default r" and ?tid = "as_pid native_id"
  have wf: "map_wf ?live" using assms by (simp add: timers_live_def registry_wf_def)
  have vals: "snd ` set (AList.update ident ?tid ?live) = insert ?tid (snd ` set (AList.delete ident ?live))"
    by (rule values_update [OF wf])
  show ?thesis
  proof (cases "attached r")
    case False
    then show ?thesis
      using wf by (auto simp: register_thread_def timers_live_def registry_wf_def live_or_default_def Let_def)
  next
    case True
    have sub: "timed (fst c) \<subseteq> snd ` set ?live"
      using assms True by (simp add: timers_live_def live_tids_def)
    let ?c = "case map_of ?live ident of Some p \<Rightarrow> if p \<noteq> ?tid then cell_removed K p c else c | None \<Rightarrow> c"
    have "timed (fst ?c) \<subseteq> insert ?tid (snd ` set (AList.delete ident ?live))"
    proof (cases "map_of ?live ident")
      case None
      then show ?thesis using sub delete_absent [of ?live ident] by auto
    next
      case (Some p)
      have "timed (fst c) \<subseteq> insert p (snd ` set (AList.delete ident ?live))"
        using sub values_delete [OF wf Some] by (rule subset_trans)
      then show ?thesis using Some by (auto simp: timed_removed)
    qed
    moreover obtain q slot' k' where q: "cell_created K ?tid ?c = (q, slot', k')" by (rule prod_cases3)
    moreover have "timed slot' \<subseteq> insert ?tid (timed (fst ?c))"
      using timed_created [of K ?tid "fst ?c" "snd ?c" q slot' k'] q by simp
    ultimately show ?thesis
      using wf vals True
      by (auto simp: register_thread_def timers_live_def registry_wf_def live_or_default_def
          live_tids_def Let_def)
  qed
qed

lemma unregister_thread_ok [inv_intros]:
  assumes "timers_live (r, c)"
  shows "timers_live (unregister_thread K ident (r, c)) \<and>
    attached (fst (unregister_thread K ident (r, c))) = attached r"
proof (cases "map_of (live_or_default r) ident")
  case None
  then show ?thesis
    using assms by (auto simp: unregister_thread_def timers_live_def registry_wf_def
        live_or_default_def live_tids_def Let_def)
next
  case (Some tid)
  have wf: "map_wf (live_or_default r)" using assms by (simp add: timers_live_def registry_wf_def)
  have "attached r \<Longrightarrow> timed (fst c) \<subseteq> snd ` set (live_or_default r)"
    using assms by (simp add: timers_live_def live_tids_def)
  then have "attached r \<Longrightarrow> timed (fst c) - {tid} \<subseteq> snd ` set (AList.delete ident (live_or_default r))"
    using values_delete [OF wf Some] by blast
  then show ?thesis
    using Some wf by (auto simp: unregister_thread_def timers_live_def registry_wf_def
        live_tids_def Let_def timed_removed) (auto simp: live_or_default_def timed_removed subset_iff)
qed

datatype registry_event = Registered nat nat | Unregistered nat

fun registry_step :: "'os os_calls \<Rightarrow> registry_event \<Rightarrow> registry \<times> 'os timer_cell \<Rightarrow> registry \<times> 'os timer_cell" where
  "registry_step K (Registered ident native_id) rc = register_thread K ident native_id rc"
| "registry_step K (Unregistered ident) rc = unregister_thread K ident rc"

lemma registry_events_ok:
  "timers_live rc \<Longrightarrow> timers_live (fold (registry_step K) es rc) \<and>
     attached (fst (fold (registry_step K) es rc)) = attached (fst rc)"
proof (induction es arbitrary: rc)
  case (Cons e es)
  obtain r c where rc: "rc = (r, c)" by (cases rc)
  have "timers_live (registry_step K e rc) \<and> attached (fst (registry_step K e rc)) = attached (fst rc)"
    using register_thread_ok unregister_thread_ok Cons.prems by (cases e) (simp_all add: rc)
  then show ?case using Cons.IH by simp
qed simp

lemma timed_fold_created:
  "timed (fst (fold (\<lambda>tid c. if tid \<noteq> caller then snd (cell_created K tid c) else c) tids c))
     \<subseteq> timed (fst c) \<union> set tids"
proof (induction tids arbitrary: c)
  case (Cons tid tids)
  have "timed (fst (snd (cell_created K tid c))) \<subseteq> insert tid (timed (fst c))"
    using timed_created [of K tid "fst c" "snd c"] by (metis prod.collapse)
  then have "timed (fst (if tid \<noteq> caller then snd (cell_created K tid c) else c)) \<subseteq> insert tid (timed (fst c))"
    by auto
  then show ?case
    using Cons.IH [of "if tid \<noteq> caller then snd (cell_created K tid c) else c"]
    by (simp only: fold_simps list.set) blast
qed simp

lemma created_inr_timed:
  assumes "cell_created K tid (Some (CTimerBackend iv th), k) = (Inr (), slot, k')"
  shows "tid \<in> timed slot"
proof -
  have "map_of th tid = Some x \<Longrightarrow> tid \<in> map_keys th" for x
    using map_of_eq_None_keys [of th tid] by auto
  then show ?thesis
    using assms
    by (auto simp: cell_created_def sampler_thread_created_def timed_def map_keys_update
        split: option.splits prod.splits sum.splits)
qed

lemma timed_created_mono: "timed (fst c) \<subseteq> timed (fst (snd (cell_created K tid c)))"
  by (cases "fst c"; cases "the (fst c)")
     (auto simp: cell_created_def sampler_thread_created_def timed_def map_keys_update Let_def
       split: option.splits prod.splits sum.splits)

lemma timed_fold_mono:
  "timed (fst c) \<subseteq> timed (fst (fold (\<lambda>tid c. if tid \<noteq> caller then snd (cell_created K tid c) else c) tids c))"
proof (induction tids arbitrary: c)
  case (Cons tid tids)
  have "timed (fst c) \<subseteq> timed (fst (if tid \<noteq> caller then snd (cell_created K tid c) else c))"
    using timed_created_mono [where c = c and K = K and tid = tid] by simp
  then show ?case
    using Cons.IH [of "if tid \<noteq> caller then snd (cell_created K tid c) else c"]
    by (simp only: fold_simps)
qed simp

lemma attach_timer_ok:
  assumes wf: "registry_wf r"
    and a: "attach_timer K ident caller (r, Some (CTimerBackend iv []), k) = (res, r1, c1)"
  shows "case res of
      Inl e \<Rightarrow> attached r1 = attached r
    | Inr _ \<Rightarrow> attached r1 \<and> timers_live (r1, c1) \<and> caller \<in> timed (fst c1)"
proof (cases "INSTALLED r")
  case False
  then show ?thesis using a by (auto simp: attach_timer_def)
next
  case True
  let ?live = "AList.update ident caller (live_or_default r)"
  obtain q slot k1 where q: "cell_created K caller (Some (CTimerBackend iv []), k) = (q, slot, k1)"
    by (rule prod_cases3)
  show ?thesis
  proof (cases q)
    case (Inl e)
    then show ?thesis using a True q by (auto simp: attach_timer_def Let_def)
  next
    case (Inr u)
    define c2 where "c2 = fold (\<lambda>tid c. if tid \<noteq> caller then snd (cell_created K tid c) else c)
        (List.map snd ?live) (slot, k1)"
    have r: "res = Inr ()" "r1 = r\<lparr>LIVE := Some ?live, attached := True\<rparr>" "c1 = c2"
      using a True q Inr by (auto simp: attach_timer_def Let_def c2_def)
    have wfl: "map_wf (live_or_default r)" using wf by (simp add: registry_wf_def)
    have "caller \<in> snd ` set ?live" using values_update [OF wfl] by simp
    moreover have "timed slot \<subseteq> {caller}" using timed_created [OF q] by (simp add: timed_def map_keys_def)
    moreover have "timed (fst c2) \<subseteq> timed slot \<union> set (List.map snd ?live)"
      using timed_fold_created [of caller K "List.map snd ?live" "(slot, k1)"] by (simp add: c2_def)
    ultimately have "timed (fst c2) \<subseteq> snd ` set ?live" by auto
    moreover have "caller \<in> timed slot" using created_inr_timed q Inr by simp
    then have "caller \<in> timed (fst c2)"
      using timed_fold_mono [of "(slot, k1)" caller K "List.map snd ?live"] by (auto simp: c2_def)
    ultimately show ?thesis
      using wfl by (simp add: r timers_live_def registry_wf_def live_tids_def live_or_default_def)
  qed
qed

lemma attach_timer_frame:
  assumes "attach_timer K ident caller (r, slot, k) = (res, r1, c1)"
  shows "slot \<noteq> None \<Longrightarrow> fst c1 \<noteq> None"
proof -
  have some: "fst (snd (cell_created K tid c)) \<noteq> None" if "fst c \<noteq> None" for tid and c :: "'a timer_cell"
    using that by (auto simp: cell_created_def sampler_thread_created_def Let_def split: prod.splits)
  have "fst (fold (\<lambda>tid c. if tid \<noteq> caller then snd (cell_created K tid c) else c) tids c) \<noteq> None"
    if "fst c \<noteq> None" for tids and c :: "'a timer_cell"
    using that by (induction tids arbitrary: c) (use some in auto)
  then show "slot \<noteq> None \<Longrightarrow> fst c1 \<noteq> None"
    using assms some [of "(slot, k)" caller]
    by (auto simp: attach_timer_def Let_def split: if_splits prod.splits sum.splits)
qed

subsection \<open>The life of the backend\<close>

definition ownership :: "'os backend_world \<Rightarrow> int list \<times> bool \<times> bool" where
  "ownership w = (HANDLED_SIGNALS (timers (bw_process w)), ACTIVE (timers (bw_process w)),
     attached (bw_registry w))"

lemma ownership_drop_session:
  assumes "session_timer s \<noteq> None"
  shows "ownership (drop_session K s w) =
    (filter (\<lambda>g. g \<noteq> sh_signal (session_handler s)) (HANDLED_SIGNALS (timers (bw_process w))), False,
     attached (bw_registry w))"
  using assms session_drop_simps(2) [where K = K and s = s] by (auto simp: ownership_def drop_session_def session_drop_simps)

lemma with_cell_frame:
  assumes "with_cell f s w = (res, s', w')"
  shows "session_handler s' = session_handler s"
    "HANDLED_SIGNALS (timers (bw_process w')) = HANDLED_SIGNALS (timers (bw_process w))"
    "ACTIVE (timers (bw_process w')) = ACTIVE (timers (bw_process w))"
    "\<exists>k'. f (bw_registry w, session_timer s, kernel (timers (bw_process w))) =
       (res, bw_registry w', session_timer s', k')"
  using assms by (auto simp: with_cell_def Let_def split: prod.splits)

lemma attach_timer_attached:
  assumes "attach_timer K ident caller (r, slot, k) = (res, r1, c1)"
  shows "case res of Inl e \<Rightarrow> attached r1 = attached r | Inr _ \<Rightarrow> attached r1"
  using assms
  by (cases "INSTALLED r"; cases "cell_created K caller (slot, k)"; cases "fst (cell_created K caller (slot, k))")
     (auto simp: attach_timer_def Let_def)

definition has_timer :: "'os timer_cell \<Rightarrow> bool" where
  "has_timer c \<longleftrightarrow> fst c \<noteq> None"

lemma created_has_timer [simp]: "has_timer c \<Longrightarrow> has_timer (snd (cell_created K tid c))"
  by (auto simp: has_timer_def cell_created_def sampler_thread_created_def Let_def split: prod.splits)

lemma removed_has_timer [simp]: "has_timer c \<Longrightarrow> has_timer (cell_removed K tid c)"
  by (cases "fst c"; cases "the (fst c)")
     (auto simp: has_timer_def cell_removed_def sampler_thread_removed_def Let_def
       split: prod.splits option.splits)

lemma register_frame:
  "attached (fst (register_thread K i n (r, c))) = attached r \<and>
   (has_timer c \<longrightarrow> has_timer (snd (register_thread K i n (r, c))))"
  by (cases "map_of (live_or_default r) i") (auto simp: register_thread_def Let_def)

lemma unregister_frame:
  "attached (fst (unregister_thread K i (r, c))) = attached r \<and>
   (has_timer c \<longrightarrow> has_timer (snd (unregister_thread K i (r, c))))"
  by (cases "map_of (live_or_default r) i") (auto simp: unregister_thread_def Let_def)

lemma registry_step_frame:
  "attached (fst (registry_step K e (r, c))) = attached r \<and>
   (has_timer c \<longrightarrow> has_timer (snd (registry_step K e (r, c))))"
  using register_frame unregister_frame by (cases e) simp_all

lemma registry_steps_frame:
  "attached (fst (fold (registry_step K) es rc)) = attached (fst rc) \<and>
   (has_timer (snd rc) \<longrightarrow> has_timer (snd (fold (registry_step K) es rc)))"
proof (induction es arbitrary: rc)
  case (Cons e es)
  obtain r c where rc: "rc = (r, c)" by (cases rc)
  show ?case
    using Cons.IH [of "registry_step K e rc"] registry_step_frame [where K = K and e = e and r = r and c = c]
    by (simp add: rc)
qed simp

definition registry_events ::
    "'os os_calls \<Rightarrow> registry_event list \<Rightarrow> session \<Rightarrow> 'os backend_world \<Rightarrow> session \<times> 'os backend_world" where
  "registry_events K es s w = snd (with_cell (\<lambda>rc. ((), fold (registry_step K) es rc)) s w)"

lemma registry_events_frame:
  assumes "registry_events K es s w = (s', w')" and "session_timer s \<noteq> None"
  shows "session_handler s' = session_handler s" "session_timer s' \<noteq> None"
    "ownership w' = ownership w"
proof -
  obtain u where w: "with_cell (\<lambda>rc. ((), fold (registry_step K) es rc)) s w = (u, s', w')"
    using assms(1) by (cases "with_cell (\<lambda>rc. ((), fold (registry_step K) es rc)) s w")
      (auto simp: registry_events_def)
  note W = with_cell_frame [OF w]
  obtain k' where k: "fold (registry_step K) es (bw_registry w, session_timer s, kernel (timers (bw_process w))) =
      (bw_registry w', session_timer s', k')" using W(4) by blast
  show "session_handler s' = session_handler s" by (rule W(1))
  show "session_timer s' \<noteq> None" "ownership w' = ownership w"
    using registry_steps_frame [where K = K and es = es and rc = "(bw_registry w, session_timer s, kernel (timers (bw_process w)))"]
      assms(2) W(2,3) by (simp_all add: k ownership_def has_timer_def)
qed

lemma signal_new_ownership:
  assumes d: "discard_records (replicate MAX_FRAMES default_frame) (unwinder (bw_process w)) = Some (bf, u)"
    and free: "\<not> attached (bw_registry w)"
    and n: "signal_new K L linux fh addr config ident caller w = Some (r, w')"
  shows "case r of
      Inl e \<Rightarrow> ownership w' = ownership w
    | Inr s \<Rightarrow> session_timer s \<noteq> None \<and> sh_signal (session_handler s) = SIGPROF \<and>
        ownership w = (HANDLED_SIGNALS (timers (bw_process w)), False, False) \<and>
        SIGPROF \<notin> set (HANDLED_SIGNALS (timers (bw_process w))) \<and>
        ownership w' = (HANDLED_SIGNALS (timers (bw_process w)) @ [SIGPROF], True,
          signal_timer config = SCTimer)"
proof -
  obtain q p where st: "session_start K L linux fh addr config (bw_process w) = Some (q, p)"
    using n by (cases "session_start K L linux fh addr config (bw_process w)") (auto simp: signal_new_def)
  note C = session_start_cases [OF d st]
  show ?thesis
  proof (cases q)
    case (Inl e)
    then show ?thesis using C n st free by (auto simp: signal_new_def ownership_def)
  next
    case (Inr s)
    let ?w = "w\<lparr>bw_process := p\<rparr>"
    have own: "session_timer s \<noteq> None" "sh_signal (session_handler s) = SIGPROF"
      "SIGPROF \<notin> set (HANDLED_SIGNALS (timers (bw_process w)))" "\<not> ACTIVE (timers (bw_process w))"
      "HANDLED_SIGNALS (timers p) = HANDLED_SIGNALS (timers (bw_process w)) @ [SIGPROF]" "ACTIVE (timers p)"
      using C Inr by simp_all
    show ?thesis
    proof (cases "signal_timer config = SCTimer")
      case False
      then show ?thesis using own n st free Inr by (auto simp: signal_new_def ownership_def)
    next
      case True
      obtain res s1 w1 where wc: "with_cell (attach_timer K ident caller) s ?w = (res, s1, w1)"
        by (rule prod_cases3)
      note W = with_cell_frame [OF wc]
      obtain k' where k: "attach_timer K ident caller (bw_registry ?w, session_timer s, kernel (timers (bw_process ?w))) =
          (res, bw_registry w1, session_timer s1, k')" using W(4) by blast
      have s1: "session_timer s1 \<noteq> None" using attach_timer_frame [OF k] own(1) by simp
      have A: "case res of Inl e \<Rightarrow> \<not> attached (bw_registry w1) | Inr _ \<Rightarrow> attached (bw_registry w1)"
        using attach_timer_attached [OF k] free by (simp split: sum.splits)
      show ?thesis
      proof (cases res)
        case (Inl e)
        then have "r = Inl e" "w' = drop_session K s1 w1"
          using n st Inr True wc by (auto simp: signal_new_def)
        then show ?thesis
          using ownership_drop_session [OF s1, of K w1] W own A Inl free filter_snoc_out
          by (simp add: ownership_def)
      next
        case (Inr u)
        then have "r = Inr s1" "w' = w1"
          using n st \<open>q = Inr s\<close> True wc by (auto simp: signal_new_def)
        then show ?thesis using W own A Inr s1 True free by (simp add: ownership_def)
      qed
    qed
  qed
qed

lemma signal_new_some:
  assumes "session_start K L linux fh addr config (bw_process w) \<noteq> None"
  shows "\<exists>r w'. signal_new K L linux fh addr config ident caller w = Some (r, w')"
proof -
  obtain q p where st: "session_start K L linux fh addr config (bw_process w) = Some (q, p)"
    using assms by auto
  show ?thesis
  proof (cases q)
    case (Inr s)
    obtain res s1 w1 where "with_cell (attach_timer K ident caller) s (w\<lparr>bw_process := p\<rparr>) = (res, s1, w1)"
      by (rule prod_cases3)
    then show ?thesis by (cases res) (simp_all add: signal_new_def st Inr Let_def)
  qed (simp add: signal_new_def st)
qed

lemma signal_finish_ownership:
  assumes "session_timer s \<noteq> None"
    and "sh_signal (session_handler s) = SIGPROF" "SIGPROF \<notin> set hs"
    and "ownership w = (hs @ [SIGPROF], True, signal_timer config = SCTimer)"
  shows "ownership (signal_finish K config s w) = (hs, False, False)"
  using assms ownership_drop_session [OF assms(1), where K = K] filter_snoc_out [OF assms(3)]
  by (auto simp: signal_finish_def ownership_def detach_timer_def Let_def)

subsection \<open>Properties\<close>

text \<open>
  C34: dropped samples stay visible in the profile. Recording the loss counters that a report took
  adds, for each loss reason, its exact count to the stack named after that reason, and changes the
  count of no other stack.
\<close>

theorem dropped_samples_reported:
  assumes "counts = fst (take_drop_counts mt)"
    and "\<forall>reason\<in>fst ` set counts. count_of bf (dropped_trace config process_id reason) < 2 ^ 64"
  shows "(\<forall>reason n. (reason, n) \<in> set counts \<longrightarrow>
      count_of (record_dropped_stacks config process_id counts bf) (dropped_trace config process_id reason) =
        usize_add (count_of bf (dropped_trace config process_id reason)) (unat n)) \<and>
    (st \<notin> dropped_trace config process_id ` fst ` set counts \<longrightarrow>
      count_of (record_dropped_stacks config process_id counts bf) st = count_of bf st)"
proof (intro conjI impI allI)
  fix reason n assume m: "(reason, n) \<in> set counts"
  have "distinct (List.map fst counts)" using drop_reasons_distinct [of mt] assms(1) by simp
  moreover have "reason \<in> fst ` set counts" using m by (rule rev_image_eqI) simp
  ultimately show "count_of (record_dropped_stacks config process_id counts bf) (dropped_trace config process_id reason) =
      usize_add (count_of bf (dropped_trace config process_id reason)) (unat n)"
    using record_dropped_reason m assms(2) by blast
next
  assume "st \<notin> dropped_trace config process_id ` fst ` set counts"
  then show "count_of (record_dropped_stacks config process_id counts bf) st = count_of bf st"
    by (intro record_dropped_other) blast
qed

text \<open>
  C35: the kernel timers follow the Python threads. After a session attaches its per-thread timer,
  the calling thread has a timer, and whatever threads register and unregister afterwards, every
  thread that has a timer is in the registry of live threads.
\<close>

theorem timers_follow_threads:
  assumes "registry_wf r"
    and "attach_timer K ident caller (r, Some (CTimerBackend iv []), k) = (Inr (), rc)"
  shows "attached (fst rc) \<and> caller \<in> timed (fst (snd rc)) \<and>
    attached (fst (fold (registry_step K) es rc)) \<and>
    timed (fst (snd (fold (registry_step K) es rc))) \<subseteq> live_tids (fst (fold (registry_step K) es rc))"
proof -
  obtain r1 c1 where rc: "rc = (r1, c1)" by (cases rc)
  have a: "attached r1" "timers_live rc" "caller \<in> timed (fst c1)"
    using attach_timer_ok [OF assms(1), of K ident caller iv k] assms(2) by (simp_all add: rc)
  then show ?thesis
    using registry_events_ok [OF a(2), of K es] by (simp add: rc timers_live_def)
qed

text \<open>
  C36: the backend returns what it takes. A backend that fails to start leaves the handled signals,
  the timer mark and the thread registry's attachment as they were; one that starts owns the signal
  and, after any thread events, gives everything back when its sampling thread ends.
\<close>

theorem signal_backend_lifecycle:
  assumes "holds (RECORDS (unwinder (bw_process w))) recs"
    and "\<not> consumer_locked (RECORDS (unwinder (bw_process w)))"
    and "\<forall>x\<in>set recs. length x \<le> MAX_FRAMES" and "\<not> attached (bw_registry w)"
  shows "case signal_new K L linux fh addr config ident caller w of
      None \<Rightarrow> False
    | Some (Inl e, w') \<Rightarrow> ownership w' = ownership w
    | Some (Inr s, w') \<Rightarrow> ACTIVE (timers (bw_process w')) \<and>
        SIGPROF \<in> set (HANDLED_SIGNALS (timers (bw_process w'))) \<and>
        (case registry_events K es s w' of (s2, w2) \<Rightarrow>
           ownership (signal_finish K config s2 w2) = ownership w)"
proof -
  have "\<forall>x\<in>set recs. length x \<le> length (replicate MAX_FRAMES default_frame)" using assms(3) by simp
  then obtain bf rb where d: "discard_records (replicate MAX_FRAMES default_frame) (unwinder (bw_process w)) =
      Some (bf, (unwinder (bw_process w))\<lparr>RECORDS := rb\<rparr>)"
    using discard_records_spec [OF assms(1)] assms(2) by blast
  have "session_start K L linux fh addr config (bw_process w) \<noteq> None"
    using d by (auto simp: session_start_def Let_def split: option.splits sum.splits prod.splits)
  then obtain r w' where n: "signal_new K L linux fh addr config ident caller w = Some (r, w')"
    using signal_new_some by blast
  note own = signal_new_ownership [OF d assms(4) n]
  show ?thesis
  proof (cases r)
    case (Inl e)
    then show ?thesis using own n by simp
  next
    case (Inr s)
    obtain s2 w2 where e: "registry_events K es s w' = (s2, w2)" by (cases "registry_events K es s w'")
    have s: "session_timer s \<noteq> None" using own Inr by simp
    note E = registry_events_frame [OF e s]
    have "ownership (signal_finish K config s2 w2) = ownership w"
      using signal_finish_ownership [OF E(2), where K = K and config = config
        and hs = "HANDLED_SIGNALS (timers (bw_process w))" and w = w2] own Inr E by simp
    then show ?thesis using own n Inr e by (simp add: ownership_def)
  qed
qed

theorem dropped_samples_reported_witness:
  "count_of (record_dropped_stacks \<lparr>report_thread_id = False, report_thread_name = False, report_pid = True\<rparr> 7
      (fst (take_drop_counts (metrics_zero\<lparr>truncated := 13\<rparr>))) [])
    (dropped_trace \<lparr>report_thread_id = False, report_thread_name = False, report_pid = True\<rparr> 7 ''truncated'') = 13"
proof -
  let ?mt = "metrics_zero\<lparr>truncated := 13\<rparr>"
  let ?config = "\<lparr>report_thread_id = False, report_thread_name = False, report_pid = True\<rparr>"
  have empty: "count_of [] st = 0" for st by (simp add: count_of_def)
  have m: "(''truncated'', 13) \<in> set (fst (take_drop_counts ?mt))" by (simp add: take_drop_counts_def)
  have "\<forall>reason\<in>fst ` set (fst (take_drop_counts ?mt)). count_of [] (dropped_trace ?config 7 reason) < 2 ^ 64"
    by (simp only: empty) simp
  from dropped_samples_reported [OF refl this] m
  have "count_of (record_dropped_stacks ?config 7 (fst (take_drop_counts ?mt)) []) (dropped_trace ?config 7 ''truncated'') =
      usize_add 0 (unat (13 :: usize))" by (simp only: empty)
  then show ?thesis by (simp add: usize_add_def)
qed

theorem timers_follow_threads_witness:
  "\<exists>rc. attach_timer example_kernel 1 101
      (\<lparr>INSTALLED = True, PROCESS_ID = 5, LIVE = Some [(2, 102)], attached = False\<rparr>,
       Some (CTimerBackend 10 []), (3, [])) = (Inr (), rc) \<and> 101 \<in> timed (fst (snd rc)) \<and>
    timed (fst (snd (fold (registry_step example_kernel) [Registered 2 103, Unregistered 1] rc)))
      \<subseteq> live_tids (fst (fold (registry_step example_kernel) [Registered 2 103, Unregistered 1] rc))"
proof -
  let ?r = "\<lparr>INSTALLED = True, PROCESS_ID = 5, LIVE = Some [(2, 102)], attached = False\<rparr>"
  obtain rc where "attach_timer example_kernel 1 101 (?r, Some (CTimerBackend 10 []), (3, [])) = (Inr (), rc)"
    by (simp add: attach_timer_def live_or_default_def cell_created_def sampler_thread_created_def
        ctimer_start_def example_kernel_def Let_def)
  note a = this
  have "registry_wf ?r" by (simp add: registry_wf_def live_or_default_def map_wf_def)
  from timers_follow_threads [OF this a, where es = "[Registered 2 103, Unregistered 1]"] a
  show ?thesis by (intro exI [of _ rc] conjI) simp_all
qed

theorem signal_backend_lifecycle_witness:
  "\<exists>r w'. signal_new example_kernel v3_13 True None 1
       \<lparr>python_version = (3, 13), sampling_rate = 100, signal_timer = SITimer, lines = First\<rparr> 1 101
       \<lparr>bw_process = \<lparr>unwinder = fresh_unwinder, timers = \<lparr>kernel = (3, []), HANDLED_SIGNALS = [], ACTIVE = False\<rparr>\<rparr>,
        bw_registry = \<lparr>INSTALLED = False, PROCESS_ID = 0, LIVE = None, attached = False\<rparr>\<rparr> = Some (r, w') \<and>
     (\<forall>e. r = Inl e \<longrightarrow> ownership w' = ([], False, False))"
proof -
  let ?c = "\<lparr>python_version = (3, 13), sampling_rate = 100, signal_timer = SITimer, lines = First\<rparr>"
  let ?w = "\<lparr>bw_process = \<lparr>unwinder = fresh_unwinder, timers = \<lparr>kernel = (3, []), HANDLED_SIGNALS = [], ACTIVE = False\<rparr>\<rparr>,
        bw_registry = \<lparr>INSTALLED = False, PROCESS_ID = 0, LIVE = None, attached = False\<rparr>\<rparr>"
  have h: "holds (RECORDS (unwinder (bw_process ?w))) []" "\<not> consumer_locked (RECORDS (unwinder (bw_process ?w)))"
    "\<forall>x\<in>set []. length x \<le> MAX_FRAMES" "\<not> attached (bw_registry ?w)"
    using fresh_unwinder_holds by (simp_all add: fresh_unwinder_def)
  note P = signal_backend_lifecycle [OF h, where K = example_kernel and L = v3_13 and linux = True
      and fh = None and addr = 1 and config = ?c and ident = 1 and caller = 101 and es = "[]"]
  then obtain r w' where n: "signal_new example_kernel v3_13 True None 1 ?c 1 101 ?w = Some (r, w')"
    by (auto split: option.splits)
  then have "r = Inl e \<Longrightarrow> ownership w' = ([], False, False)" for e
    using P by (simp add: ownership_def)
  then show ?thesis using n by blast
qed

end
