(* ===== verification/Pyspy_Backend.thy ===== *)
theory Pyspy_Backend
  imports Signal_Backend Pprof Time_Range
begin

text \<open>
  \<open>rust/src/pyspy_backend.rs\<close>: the backend that samples through py-spy, and the \<open>Reporter\<close> that
  both CPU backends hand to the agent. py-spy is a parameter: the error or the samples that
  \<open>Sampler::new\<close> yields. The rules of the shared \<open>ThreadTagsSet\<close> are given with each trace, as
  they are when the trace is tagged. A panic is \<open>None\<close>.
\<close>

subsection \<open>py-spy's types\<close>

record spy_frame =
  sf_name :: string
  sf_module :: "string option"
  sf_filename :: string
  sf_line :: int

record spy_trace =
  spy_pid :: int
  spy_thread_id :: nat
  spy_thread_name :: "string option"
  active :: bool
  owns_gil :: bool
  spy_frames :: "spy_frame list"

datatype line_no = LastInstruction | FirstLine | NoLine

text \<open>
  The part of py-spy's configuration that the agent sets; the flags of the first three fields and the
  last say that the strategy is \<open>NonBlocking\<close>, native frames are read, type checks are \<open>Strict\<close> and the
  duration is \<open>Unlimited\<close>.
\<close>

record spy_config =
  non_blocking :: bool
  native_stacks :: bool
  strict_types :: bool
  cfg_pid :: "int option"
  cfg_sampling_rate :: nat
  include_idle :: bool
  include_thread_ids :: bool
  collect_thread_names :: bool
  subprocesses :: bool
  gil_only :: bool
  lineno :: line_no
  unlimited :: bool

subsection \<open>Conversion\<close>

definition stack_frame_of_spy :: "spy_frame \<Rightarrow> stack_frame" where
  "stack_frame_of_spy f =
     \<lparr>name = (case sf_module f of Some md \<Rightarrow> md @ ''.'' @ sf_name f | None \<Rightarrow> sf_name f),
      filename = sf_filename f, line = as_u32 (sf_line f)\<rparr>"

definition stack_trace_of_spy :: "spy_trace \<Rightarrow> backend_config \<Rightarrow> stack_trace" where
  "stack_trace_of_spy t config =
     stack_trace_new config (Some (as_u32 (spy_pid t))) (Some (spy_thread_id t)) (spy_thread_name t)
       (List.map stack_frame_of_spy (spy_frames t))"

subsection \<open>The sampling thread\<close>

definition keeps_trace :: "spy_config \<Rightarrow> spy_trace \<Rightarrow> bool" where
  "keeps_trace config t \<longleftrightarrow> (include_idle config \<or> active t) \<and> \<not> (gil_only config \<and> \<not> owns_gil t)"

fun record_traces ::
    "spy_config \<Rightarrow> backend_config \<Rightarrow> (spy_trace \<times> thread_tags) list \<Rightarrow> stack_buffer mutex \<Rightarrow>
     (pyroscope_error + unit) \<times> stack_buffer mutex" where
  "record_traces config bc [] bf = (Inr (), bf)"
| "record_traces config bc ((t, ruleset) # ts) bf =
     (if \<not> keeps_trace config t then record_traces config bc ts bf
      else
        let stacktrace = add_tag_rules ruleset (stack_trace_of_spy t bc)
        in case with_lock (\<lambda>b. ((), buffer_record stacktrace b)) bf of
             (Inl e, bf) \<Rightarrow> (Inl e, bf)
           | (Inr _, bf) \<Rightarrow> record_traces config bc ts bf)"

text \<open>\<open>take_while(running)\<close> over the samples, each with the flag as it is read for it.\<close>

fun sampler_loop ::
    "spy_config \<Rightarrow> backend_config \<Rightarrow> (bool \<times> (spy_trace \<times> thread_tags) list) list \<Rightarrow>
     stack_buffer mutex \<Rightarrow> (pyroscope_error + unit) \<times> stack_buffer mutex" where
  "sampler_loop config bc [] bf = (Inr (), bf)"
| "sampler_loop config bc ((is_running, traces) # samples) bf =
     (if \<not> is_running then (Inr (), bf)
      else case record_traces config bc traces bf of
             (Inl e, bf) \<Rightarrow> (Inl e, bf)
           | (Inr _, bf) \<Rightarrow> sampler_loop config bc samples bf)"

definition pyspy_thread ::
    "(int \<Rightarrow> spy_config \<Rightarrow> string + (bool \<times> (spy_trace \<times> thread_tags) list) list) \<Rightarrow> spy_config \<Rightarrow>
     backend_config \<Rightarrow> stack_buffer mutex \<Rightarrow> (pyroscope_error + unit) \<times> stack_buffer mutex" where
  "pyspy_thread sampler_new config bc bf =
     (case cfg_pid config of
        None \<Rightarrow> (Inl (AdHoc ''Pyspy: PID is not set''), bf)
      | Some p \<Rightarrow>
          (case sampler_new p config of
             Inl e \<Rightarrow> (Inl (AdHoc (''Pyspy: Sampler Error: '' @ e)), bf)
           | Inr samples \<Rightarrow> sampler_loop config bc samples bf))"

text \<open>\<open>Pyspy::new\<close> with \<open>initialize\<close>: the buffer and the handle of the thread it spawns.\<close>

definition pyspy_new :: "spy_config \<Rightarrow> pyroscope_error + (stack_buffer mutex \<times> sampler_handle)" where
  "pyspy_new config =
     (case cfg_pid config of
        None \<Rightarrow> Inl (AdHoc ''Pyspy: No Process ID Specified'')
      | Some _ \<Rightarrow> Inr (mutex_new [], \<lparr>sampler_thread = True, running = True\<rparr>))"

text \<open>What a report of a backend reads: the shared buffer, and the tags of the signal backend.\<close>

definition pyspy_reporter :: "stack_buffer mutex \<Rightarrow> stack_buffer mutex \<times> backend_config option" where
  "pyspy_reporter bf = (bf, None)"

definition new_signal :: "stack_buffer mutex \<Rightarrow> backend_config \<Rightarrow> stack_buffer mutex \<times> backend_config option" where
  "new_signal bf config = (bf, Some config)"

text \<open>\<open>joined\<close> is what joining yields: \<open>None\<close> if the thread panicked, else its result.\<close>

definition pyspy_shutdown_thread ::
    "(pyroscope_error + unit) option \<Rightarrow> sampler_handle \<Rightarrow> (pyroscope_error + unit) \<times> sampler_handle" where
  "pyspy_shutdown_thread joined h =
     (let h = h\<lparr>running := False\<rparr>
      in if sampler_thread h
         then (case joined of
                 None \<Rightarrow> Inl (AdHoc ''Pyspy: Failed to join sampler thread'')
               | Some r \<Rightarrow> r, h\<lparr>sampler_thread := False\<rparr>)
         else (Inr (), h))"

subsection \<open>The reporter\<close>

text \<open>\<open>Drop\<close> of the two backends: a shutdown whose result is ignored. After a shutdown it does nothing.\<close>

definition pyspy_drop :: "(pyroscope_error + unit) option \<Rightarrow> sampler_handle \<Rightarrow> sampler_handle" where
  "pyspy_drop joined h = snd (pyspy_shutdown_thread joined h)"

definition signal_drop :: "bool \<Rightarrow> sampler_handle \<Rightarrow> sampler_handle" where
  "signal_drop joined h = snd (signal_shutdown_thread joined h)"

lemma drop_after_shutdown:
  "pyspy_drop j (snd (pyspy_shutdown_thread joined h)) = snd (pyspy_shutdown_thread joined h)"
  "signal_drop i (snd (signal_shutdown_thread ok h)) = snd (signal_shutdown_thread ok h)"
  by (simp_all add: pyspy_drop_def signal_drop_def pyspy_shutdown_thread_def signal_shutdown_thread_def Let_def)

text \<open>
  \<open>signal_config\<close> is \<open>None\<close> for py-spy. The loss counters are the ones of the signal handler;
  \<open>hash\<close> and \<open>wire\<close> are \<open>DefaultHasher\<close> and the byte encoding of a profile.
\<close>

definition reporter_report ::
    "hasher \<Rightarrow> (profile \<Rightarrow> nat list) \<Rightarrow> nat \<Rightarrow> backend_config option \<Rightarrow> nat \<Rightarrow> time_range \<Rightarrow>
     stack_buffer mutex \<times> metrics \<Rightarrow>
     ((pyroscope_error + report_batch) \<times> stack_buffer mutex \<times> metrics) option" where
  "reporter_report hash wire process_id signal_config sample_rate tr x =
     (let (bf, mt) = x in
      case with_lock (\<lambda>b. (b, [])) bf of
        (Inl e, bf) \<Rightarrow> Some (Inl e, bf, mt)
      | (Inr rep, bf) \<Rightarrow>
          (case signal_config of
             Some config \<Rightarrow>
               (let (counts, mt) = take_drop_counts mt;
                    rep = record_dropped_stacks config process_id counts rep
                in do { bytes \<leftarrow>
                          (if rep = [] then Some []
                           else do { p \<leftarrow> encode (buffer_reports hash rep) sample_rate tr; Some (wire p) });
                        Some (Inr \<lparr>profile_type = ''process_cpu'', batch_data = RawPprof bytes\<rparr>, bf, mt) })
           | None \<Rightarrow>
               Some (Inr \<lparr>profile_type = ''process_cpu'', batch_data = Reports (buffer_reports hash rep)\<rparr>, bf, mt)))"

subsection \<open>Sampling and reporting interleaved\<close>

text \<open>
  The sampling thread records traces, the program adds and removes thread tags, and the agent
  takes reports, in any order.
\<close>

datatype pyspy_event = Trace spy_trace | Tag_Op tag_op | Report_Now

record pyspy_world =
  pw_buffer :: "stack_buffer mutex"
  pw_rules :: thread_tags
  pw_reports :: "report_batch list"

fun pyspy_step :: "hasher \<Rightarrow> spy_config \<Rightarrow> backend_config \<Rightarrow> pyspy_event \<Rightarrow> pyspy_world \<Rightarrow> pyspy_world" where
  "pyspy_step hash config bc (Trace t) w =
     w\<lparr>pw_buffer := snd (record_traces config bc [(t, pw_rules w)] (pw_buffer w))\<rparr>"
| "pyspy_step hash config bc (Tag_Op op) w = w\<lparr>pw_rules := tag_op_run op (pw_rules w)\<rparr>"
| "pyspy_step hash config bc Report_Now w =
     (case reporter_report hash (\<lambda>_. []) 0 None 0 (0, 0) (pw_buffer w, metrics_zero) of
        Some (Inr b, bf, _) \<Rightarrow> w\<lparr>pw_buffer := bf, pw_reports := pw_reports w @ [b]\<rparr>
      | _ \<Rightarrow> w)"

text \<open>The traces that are to be counted: those the filters keep, tagged by the rules of the moment.\<close>

fun kept_traces :: "spy_config \<Rightarrow> backend_config \<Rightarrow> pyspy_event list \<Rightarrow> thread_tags \<Rightarrow> stack_trace list" where
  "kept_traces config bc [] rs = []"
| "kept_traces config bc (Trace t # es) rs =
     (if keeps_trace config t then [add_tag_rules rs (stack_trace_of_spy t bc)] else []) @ kept_traces config bc es rs"
| "kept_traces config bc (Tag_Op op # es) rs = kept_traces config bc es (tag_op_run op rs)"
| "kept_traces config bc (Report_Now # es) rs = kept_traces config bc es rs"

definition batch_count :: "report_batch \<Rightarrow> stack_trace \<Rightarrow> nat" where
  "batch_count b st =
     (case batch_data b of Reports rs \<Rightarrow> (\<Sum>r\<leftarrow>rs. count_of (report_data r) st) | RawPprof _ \<Rightarrow> 0)"

definition counts_bounded :: "stack_buffer \<Rightarrow> bool" where
  "counts_bounded m \<longleftrightarrow> (\<forall>c\<in>snd ` set m. c < 2 ^ 64)"

definition buffer_ok :: "stack_buffer mutex \<Rightarrow> bool" where
  "buffer_ok m \<longleftrightarrow> \<not> mutex_poisoned m \<and> map_wf (mutex_value m) \<and> counts_bounded (mutex_value m)"

definition total_count :: "pyspy_world \<Rightarrow> stack_trace \<Rightarrow> nat" where
  "total_count w st = (\<Sum>b\<leftarrow>pw_reports w. batch_count b st) + count_of (mutex_value (pw_buffer w)) st"

lemma entry_add_bounded:
  assumes "counts_bounded m"
  shows "counts_bounded (entry_add k n m)"
proof -
  have "usize_add x n < 2 ^ 64" for x by (simp add: usize_add_def)
  moreover have "snd ` set (AList.update k v m) \<subseteq> insert v (snd ` set m)" for v
    by (induction m) auto
  ultimately show ?thesis
    using assms unfolding entry_add_def counts_bounded_def by (metis (no_types) in_mono insertE)
qed

lemma buffer_ok_new: "buffer_ok (mutex_new [])"
  by (simp add: buffer_ok_def mutex_new_def counts_bounded_def)

lemma pyspy_trace_step:
  assumes "buffer_ok (pw_buffer w)"
  shows "buffer_ok (pw_buffer (pyspy_step hash config bc (Trace t) w)) \<and>
    pw_rules (pyspy_step hash config bc (Trace t) w) = pw_rules w \<and>
    total_count (pyspy_step hash config bc (Trace t) w) st mod 2 ^ 64 =
      (total_count w st + (if keeps_trace config t \<and> add_tag_rules (pw_rules w) (stack_trace_of_spy t bc) = st
                           then 1 else 0)) mod 2 ^ 64"
  using assms entry_add_bounded
  by (auto simp: buffer_ok_def total_count_def with_lock_def buffer_record_def count_of_entry_add usize_add_def
      mod_simps split: if_splits)

lemma pyspy_report_step:
  assumes "buffer_ok (pw_buffer w)"
  shows "buffer_ok (pw_buffer (pyspy_step hash config bc Report_Now w)) \<and>
    pw_rules (pyspy_step hash config bc Report_Now w) = pw_rules w \<and>
    total_count (pyspy_step hash config bc Report_Now w) st = total_count w st \<and>
    mutex_value (pw_buffer (pyspy_step hash config bc Report_Now w)) = []"
  using assms buffer_reports_counts [where buf = "mutex_value (pw_buffer w)" and hash = hash and st = st]
  by (auto simp: counts_bounded_def buffer_ok_def total_count_def with_lock_def reporter_report_def batch_count_def)

lemma pyspy_steps_counts:
  assumes "buffer_ok (pw_buffer w)"
  shows "total_count (fold (pyspy_step hash config bc) es w) st mod 2 ^ 64 =
    (total_count w st + count_list (kept_traces config bc es (pw_rules w)) st) mod 2 ^ 64 \<and>
    buffer_ok (pw_buffer (fold (pyspy_step hash config bc) es w))"
  using assms
proof (induction es arbitrary: w)
  case (Cons e es)
  show ?case
  proof (cases e)
    case (Trace t)
    note S = pyspy_trace_step [OF Cons.prems, where hash = hash and config = config and bc = bc and t = t and st = st]
    define w1 where "w1 = pyspy_step hash config bc (Trace t) w"
    note IH = Cons.IH [of w1, OF conjunct1 [OF S, folded w1_def]]
    have r: "pw_rules w1 = pw_rules w" using S by (simp only: w1_def)
    define n where "n = count_list (kept_traces config bc es (pw_rules w)) st"
    define k where "k = (if keeps_trace config t \<and> add_tag_rules (pw_rules w) (stack_trace_of_spy t bc) = st
                           then 1 else 0 :: nat)"
    have c: "count_list (kept_traces config bc (e # es) (pw_rules w)) st = k + n"
      by (simp add: Trace k_def n_def)
    have "total_count w1 st mod 2 ^ 64 = (total_count w st + k) mod 2 ^ 64"
      using S by (simp only: w1_def k_def)
    then have "(total_count w1 st + n) mod 2 ^ 64 = (total_count w st + (k + n)) mod 2 ^ 64"
      by (metis mod_add_left_eq add.assoc)
    moreover have "fold (pyspy_step hash config bc) (e # es) w = fold (pyspy_step hash config bc) es w1"
      by (simp only: fold_simps Trace w1_def)
    ultimately show ?thesis using IH unfolding c r n_def [symmetric] by simp
  next
    case (Tag_Op op)
    then show ?thesis
      using Cons.IH [of "pyspy_step hash config bc e w"] Cons.prems by (simp add: total_count_def)
  next
    case Report_Now
    note S = pyspy_report_step [OF Cons.prems, where hash = hash and config = config and bc = bc]
    define w1 where "w1 = pyspy_step hash config bc Report_Now w"
    have w1: "buffer_ok (pw_buffer w1)" "pw_rules w1 = pw_rules w" "total_count w1 st = total_count w st"
      using S [of st] unfolding w1_def by blast+
    have f: "fold (pyspy_step hash config bc) (e # es) w = fold (pyspy_step hash config bc) es w1"
      by (simp only: fold_simps Report_Now w1_def)
    have k: "kept_traces config bc (e # es) (pw_rules w) = kept_traces config bc es (pw_rules w1)"
      unfolding w1(2) by (simp only: Report_Now kept_traces.simps)
    show ?thesis unfolding f k w1(3) [symmetric] by (rule Cons.IH [OF w1(1)])
  qed
qed simp

text \<open>The loop of the sampling thread does these steps until it is told to stop.\<close>

definition record_kept ::
    "spy_config \<Rightarrow> backend_config \<Rightarrow> spy_trace \<times> thread_tags \<Rightarrow> stack_buffer \<Rightarrow> stack_buffer" where
  "record_kept config bc x b =
     (if keeps_trace config (fst x)
      then buffer_record (add_tag_rules (snd x) (stack_trace_of_spy (fst x) bc)) b else b)"

lemma record_traces_fold:
  assumes "\<not> mutex_poisoned bf"
  shows "record_traces config bc ts bf =
    (Inr (), bf\<lparr>mutex_value := fold (record_kept config bc) ts (mutex_value bf)\<rparr>)"
  using assms
proof (induction ts arbitrary: bf)
  case (Cons x ts)
  obtain t rs where x: "x = (t, rs)" by (cases x)
  show ?case
  proof (cases "keeps_trace config t")
    case True
    have "record_traces config bc (x # ts) bf =
        record_traces config bc ts (bf\<lparr>mutex_value := record_kept config bc x (mutex_value bf)\<rparr>)"
      using True Cons.prems by (simp add: x with_lock_def record_kept_def)
    also have "\<dots> = (Inr (), bf\<lparr>mutex_value := fold (record_kept config bc) (x # ts) (mutex_value bf)\<rparr>)"
      using Cons.prems by (subst Cons.IH) simp_all
    finally show ?thesis .
  next
    case False
    then show ?thesis using Cons.IH [OF Cons.prems] by (simp add: x record_kept_def)
  qed
qed simp

lemma sampler_loop_fold:
  assumes "\<not> mutex_poisoned bf"
  shows "sampler_loop config bc samples bf =
    (Inr (), bf\<lparr>mutex_value :=
       fold (record_kept config bc) (concat (List.map snd (takeWhile fst samples))) (mutex_value bf)\<rparr>)"
  using assms
proof (induction samples arbitrary: bf)
  case (Cons s samples)
  obtain r ts where s: "s = (r, ts)" by (cases s)
  show ?case
  proof (cases r)
    case True
    have "sampler_loop config bc (s # samples) bf =
        sampler_loop config bc samples (bf\<lparr>mutex_value := fold (record_kept config bc) ts (mutex_value bf)\<rparr>)"
      using True record_traces_fold [OF Cons.prems] by (simp add: s)
    also have "\<dots> = (Inr (), bf\<lparr>mutex_value :=
       fold (record_kept config bc) (concat (List.map snd (takeWhile fst (s # samples)))) (mutex_value bf)\<rparr>)"
      using Cons.prems True by (subst Cons.IH) (simp_all add: s)
    finally show ?thesis .
  qed (simp add: s)
qed simp

lemma signal_report:
  assumes "\<not> mutex_poisoned bf" and "0 < rate"
    and "stacks = record_dropped_stacks config process_id (fst (take_drop_counts mt)) (mutex_value bf)"
    and "5 + (\<Sum>tn\<leftarrow>concat (List.map report_data (buffer_reports hash stacks)). strings_needed (fst tn)) \<le> u32_max"
  shows "\<exists>b. reporter_report hash wire process_id (Some config) rate tr (bf, mt) =
      Some (Inr b, bf\<lparr>mutex_value := []\<rparr>, metrics_zero) \<and>
    (stacks = [] \<longrightarrow> batch_is_empty b) \<and>
    (stacks \<noteq> [] \<longrightarrow> (\<exists>p. batch_data b = RawPprof (wire p) \<and>
       pprof_samples p = Some (List.map
         (\<lambda>(t, n). (frames t, tags (metadata t), [sample_total n (1000000000 div int rate)]))
         (concat (List.map report_data (buffer_reports hash stacks))))))"
proof -
  obtain p where p: "encode (buffer_reports hash stacks) rate tr = Some p"
    using encode_total [OF _ assms(4), of rate tr] assms(2) by auto
  have e: "(\<lambda>(t, n). (frames t, tags (metadata t), [sample_total n (1000000000 div int rate)])) =
      expected_sample (1000000000 div int rate)"
    by (simp add: fun_eq_iff expected_sample_def)
  have "pprof_samples p = Some (List.map (expected_sample (1000000000 div int rate))
      (concat (List.map report_data (buffer_reports hash stacks))))"
    using encode_ok [OF p] by simp
  moreover have "take_drop_counts mt = (fst (take_drop_counts mt), metrics_zero)"
    by (simp add: take_drop_counts_def)
  ultimately show ?thesis
    unfolding e using assms(1) p
    by (auto simp: reporter_report_def with_lock_def assms(3) [symmetric] batch_is_empty_def
        case_prod_beta Let_def)
qed

subsection \<open>Properties\<close>

text \<open>
  C12: no trace is lost or counted twice between sampling and reporting. However sampling, thread
  tag changes and reports interleave, the count of every stack over all reports and the buffer is
  the number of its traces that passed the idle and GIL filters, each with the tags its thread had
  when it was sampled (modulo the width of the counter); and the loop of the sampling thread
  records exactly the traces of the samples taken before it is told to stop.
\<close>

theorem pyspy_traces_conserved:
  assumes "w = fold (pyspy_step hash config bc) es
      \<lparr>pw_buffer = mutex_new [], pw_rules = thread_tags_new, pw_reports = []\<rparr>"
  shows "((\<Sum>b\<leftarrow>pw_reports w. batch_count b st) + count_of (mutex_value (pw_buffer w)) st) mod 2 ^ 64 =
      count_list (kept_traces config bc es thread_tags_new) st mod 2 ^ 64 \<and>
    sampler_loop config bc samples (mutex_new []) =
      (Inr (), mutex_new (fold (record_kept config bc) (concat (List.map snd (takeWhile fst samples))) []))"
proof -
  let ?w = "\<lparr>pw_buffer = mutex_new [], pw_rules = thread_tags_new, pw_reports = []\<rparr>"
  have ok: "buffer_ok (pw_buffer ?w)" by (simp add: buffer_ok_new)
  have "total_count ?w st = 0" by (simp add: total_count_def mutex_new_def)
  then have "total_count w st mod 2 ^ 64 = count_list (kept_traces config bc es thread_tags_new) st mod 2 ^ 64"
    using pyspy_steps_counts [OF ok, of hash config bc es st] assms by simp
  moreover have "\<not> mutex_poisoned (mutex_new ([] :: stack_buffer))" by (simp add: mutex_new_def)
  ultimately show ?thesis by (simp add: total_count_def sampler_loop_fold) (simp add: mutex_new_def)
qed

text \<open>
  C39: the report of the signal backend is a complete profile. Taking a report empties the buffer
  and zeroes the loss counters; unless there is nothing to report, the bytes are those of a
  profile from which a reader gets back, in report order, every buffered stack and every loss
  reason with its tags and its count times the period. It does not panic for a positive rate
  while the strings fit.
\<close>

theorem signal_report_complete:
  assumes "\<not> mutex_poisoned bf" and "0 < rate"
    and "stacks = record_dropped_stacks config process_id (fst (take_drop_counts mt)) (mutex_value bf)"
    and "5 + (\<Sum>tn\<leftarrow>concat (List.map report_data (buffer_reports hash stacks)). strings_needed (fst tn)) \<le> u32_max"
  shows "\<exists>b. reporter_report hash wire process_id (Some config) rate tr (bf, mt) =
      Some (Inr b, bf\<lparr>mutex_value := []\<rparr>, metrics_zero) \<and>
    (stacks = [] \<longrightarrow> batch_is_empty b) \<and>
    (stacks \<noteq> [] \<longrightarrow> (\<exists>p. batch_data b = RawPprof (wire p) \<and>
       pprof_samples p = Some (List.map
         (\<lambda>(t, n). (frames t, tags (metadata t), [sample_total n (1000000000 div int rate)]))
         (concat (List.map report_data (buffer_reports hash stacks))))))"
  by (rule signal_report [OF assms])

subsection \<open>Witnesses\<close>

definition example_spy_trace :: spy_trace where
  "example_spy_trace = \<lparr>spy_pid = 1, spy_thread_id = 9, spy_thread_name = None, active = True,
     owns_gil = False, spy_frames = [\<lparr>sf_name = ''f'', sf_module = Some ''m'', sf_filename = ''m.py'', sf_line = 3\<rparr>]\<rparr>"

definition example_spy_config :: spy_config where
  "example_spy_config = \<lparr>non_blocking = True, native_stacks = False, strict_types = True, cfg_pid = Some 1, cfg_sampling_rate = 100, include_idle = False,
     include_thread_ids = True, collect_thread_names = False, subprocesses = False, gil_only = False,
     lineno = LastInstruction, unlimited = True\<rparr>"

theorem pyspy_traces_conserved_witness:
  "\<exists>w. w = fold (pyspy_step (\<lambda>_. 0) example_spy_config
        \<lparr>report_thread_id = False, report_thread_name = False, report_pid = False\<rparr>)
      [Trace example_spy_trace, Report_Now, Trace example_spy_trace, Trace (example_spy_trace\<lparr>active := False\<rparr>)]
      \<lparr>pw_buffer = mutex_new [], pw_rules = thread_tags_new, pw_reports = []\<rparr> \<and>
    ((\<Sum>b\<leftarrow>pw_reports w. batch_count b (add_tag_rules thread_tags_new (stack_trace_of_spy example_spy_trace
        \<lparr>report_thread_id = False, report_thread_name = False, report_pid = False\<rparr>))) +
     count_of (mutex_value (pw_buffer w)) (add_tag_rules thread_tags_new (stack_trace_of_spy example_spy_trace
        \<lparr>report_thread_id = False, report_thread_name = False, report_pid = False\<rparr>))) mod 2 ^ 64 = 2"
proof -
  let ?bc = "\<lparr>report_thread_id = False, report_thread_name = False, report_pid = False\<rparr>"
  let ?st = "add_tag_rules thread_tags_new (stack_trace_of_spy example_spy_trace ?bc)"
  let ?es = "[Trace example_spy_trace, Report_Now, Trace example_spy_trace, Trace (example_spy_trace\<lparr>active := False\<rparr>)]"
  have "keeps_trace example_spy_config example_spy_trace"
    "\<not> keeps_trace example_spy_config (example_spy_trace\<lparr>active := False\<rparr>)"
    by (simp_all add: keeps_trace_def example_spy_config_def example_spy_trace_def)
  then have "count_list (kept_traces example_spy_config ?bc ?es thread_tags_new) ?st = 2" by simp
  with pyspy_traces_conserved [OF refl, where hash = "\<lambda>_. 0" and config = example_spy_config
      and bc = ?bc and es = ?es and st = ?st and samples = "[]"]
  show ?thesis by (intro exI conjI) (rule refl, simp only: mod_simps, simp)
qed

theorem signal_report_complete_witness:
  "\<exists>b p. reporter_report (\<lambda>_. 0) (\<lambda>p. [length (p_sample p)]) 7
      (Some \<lparr>report_thread_id = False, report_thread_name = False, report_pid = True\<rparr>) 100 (0, 0)
      (mutex_new [(example_trace, 3)], metrics_zero) = Some (Inr b, mutex_new [], metrics_zero) \<and>
     batch_data b = RawPprof [length (p_sample p)] \<and>
     pprof_samples p = Some [(frames example_trace, tags (metadata example_trace), [30000000])]"
proof -
  let ?config = "\<lparr>report_thread_id = False, report_thread_name = False, report_pid = True\<rparr>"
  have s: "[(example_trace, 3)] = record_dropped_stacks ?config 7 (fst (take_drop_counts metrics_zero))
      (mutex_value (mutex_new [(example_trace, 3)]))"
    by (simp add: take_drop_counts_def metrics_zero_def mutex_new_def)
  have r: "concat (List.map report_data (buffer_reports (\<lambda>_. 0) [(example_trace, 3)])) = [(example_trace, 3)]"
    by (simp add: buffer_reports_def group_step_def report_record_with_count_def report_with_metadata_def
        report_new_def entry_add_def usize_add_def)
  have h: "5 + (\<Sum>tn\<leftarrow>concat (List.map report_data (buffer_reports (\<lambda>_. 0) [(example_trace, 3)])).
      strings_needed (fst tn)) \<le> u32_max"
    unfolding r by (simp add: strings_needed_def example_trace_def metadata_default_def u32_max_eq)
  have "\<not> mutex_poisoned (mutex_new [(example_trace, 3 :: nat)])" "(0::nat) < 100" by (simp_all add: mutex_new_def)
  note C = signal_report_complete [OF this s h, of "\<lambda>p. [length (p_sample p)]" "(0, 0)", unfolded r]
  have "sample_total 3 (1000000000 div int 100) = 30000000" by (simp add: sample_total_def as_i64_def)
  then show ?thesis using C by (auto simp: mutex_new_def)
qed

end
