(* ===== verification/Agent.thy ===== *)
theory Agent
  imports Session Pyspy_Backend "HOL-Library.Sublist"
begin

text \<open>
  \<open>rust/src/pyroscope.rs\<close>: building the agent, its main thread, which snapshots every profiler each
  time it wakes and hands the result to the session manager, and its orderly stop. What the parts
  need from outside is in \<open>agent_env\<close>; a panic is \<open>None\<close>.

  A send to a full channel waits for the manager: the manager then takes a turn, after which there
  is room or the manager has ended.
\<close>

subsection \<open>Building\<close>

datatype cpu_config = CpuPySpy spy_config | CpuSignal sampler_config

text \<open>The backends with what their threads hold; both share the buffer with the reporter.\<close>

datatype backend =
    BackendPySpy spy_config "stack_buffer mutex" sampler_handle
  | BackendSignal sampler_config session "stack_buffer mutex" sampler_handle

record agent_builder =
  ab_config :: pyroscope_config
  ab_cpu_config :: "cpu_config option"
  ab_backend_config :: backend_config
  ab_ruleset :: thread_tags

definition agent_builder_new ::
    "pyroscope_config \<Rightarrow> cpu_config option \<Rightarrow> backend_config \<Rightarrow> thread_tags \<Rightarrow> agent_builder" where
  "agent_builder_new config cpu bc rs =
     \<lparr>ab_config = config, ab_cpu_config = cpu, ab_backend_config = bc, ab_ruleset = rs\<rparr>"

record 'os signal_env =
  sg_os :: "'os os_calls"
  sg_layout :: layout
  sg_linux :: bool
  sg_fault_handlers :: "string option"
  sg_handler_addr :: nat
  sg_thread_ident :: nat
  sg_thread_tid :: int

definition backend_new ::
    "'os signal_env \<Rightarrow> cpu_config option \<Rightarrow> 'os backend_world \<Rightarrow>
     ((pyroscope_error + backend option) \<times> 'os backend_world) option" where
  "backend_new S cpu bw =
     (case cpu of
        None \<Rightarrow> Some (Inr None, bw)
      | Some (CpuPySpy c) \<Rightarrow>
          (case pyspy_new c of
             Inl e \<Rightarrow> Some (Inl e, bw)
           | Inr (bf, h) \<Rightarrow> Some (Inr (Some (BackendPySpy c bf h)), bw))
      | Some (CpuSignal c) \<Rightarrow>
          do { (r, bw) \<leftarrow> signal_new (sg_os S) (sg_layout S) (sg_linux S) (sg_fault_handlers S)
                           (sg_handler_addr S) c (sg_thread_ident S) (sg_thread_tid S) bw;
               case r of
                 Inl e \<Rightarrow> Some (Inl e, bw)
               | Inr s \<Rightarrow>
                   Some (Inr (Some (BackendSignal c s (mutex_new [])
                     \<lparr>sampler_thread = True, running = True\<rparr>)), bw) })"

text \<open>\<open>ag_started\<close>: the main thread has been started and has not ended with an error.\<close>

record 'x agent =
  ag_backend :: "backend option"
  ag_config :: pyroscope_config
  ag_backend_config :: backend_config
  ag_manager :: "'x manager"
  ag_ruleset :: thread_tags
  ag_started :: bool

definition agent_build ::
    "'os signal_env \<Rightarrow> agent_builder \<Rightarrow> 'x \<Rightarrow> 'os backend_world \<Rightarrow>
     ((pyroscope_error + 'x agent) \<times> 'os backend_world) option" where
  "agent_build S ab client bw =
     do { (r, bw) \<leftarrow> backend_new S (ab_cpu_config ab) bw;
          case r of
            Inl e \<Rightarrow> Some (Inl e, bw)
          | Inr b \<Rightarrow>
              Some (Inr \<lparr>ag_backend = b, ag_config = ab_config ab, ag_backend_config = ab_backend_config ab,
                ag_manager = manager_new client, ag_ruleset = ab_ruleset ab, ag_started = False\<rparr>, bw) }"

definition agent_start :: "'x agent \<Rightarrow> 'x agent" where
  "agent_start ag = ag\<lparr>ag_started := True\<rparr>"

text \<open>\<open>Backend::reporter\<close>: the buffer, and the tags the signal backend reports with.\<close>

definition backend_reporter :: "backend_config \<Rightarrow> backend \<Rightarrow> stack_buffer mutex \<times> backend_config option" where
  "backend_reporter bc b =
     (case b of BackendPySpy _ bf _ \<Rightarrow> pyspy_reporter bf | BackendSignal _ _ bf _ \<Rightarrow> new_signal bf bc)"

definition agent_add_thread_tag :: "nat \<Rightarrow> tag \<Rightarrow> 'x agent \<Rightarrow> (pyroscope_error + unit) \<times> 'x agent" where
  "agent_add_thread_tag tid tg ag =
     (let (r, rs) = rule_add (tid, tg) (ag_ruleset ag)
      in (case r of Inl e \<Rightarrow> Inl e | Inr _ \<Rightarrow> Inr (), ag\<lparr>ag_ruleset := rs\<rparr>))"

definition agent_remove_thread_tag :: "nat \<Rightarrow> tag \<Rightarrow> 'x agent \<Rightarrow> (pyroscope_error + unit) \<times> 'x agent" where
  "agent_remove_thread_tag tid tg ag =
     (let (r, rs) = rule_remove (tid, tg) (ag_ruleset ag)
      in (case r of Inl e \<Rightarrow> Inl e | Inr _ \<Rightarrow> Inr (), ag\<lparr>ag_ruleset := rs\<rparr>))"

subsection \<open>Snapshots\<close>

record ('w, 's, 'u, 'x) agent_env =
  ae_memalloc :: "'w memalloc_calls"
  ae_engine :: "'s engine_calls"
  ae_upload :: "('u, 'x) upload_env"
  ae_hash :: hasher
  ae_process_id :: nat

text \<open>What a snapshot reads: the profilers, and the buffer and loss counters of the reporter.\<close>

record ('w, 's) profilers =
  pf_memalloc :: 'w
  pf_native :: native
  pf_stack :: "'s stack_state"
  pf_buffer :: "stack_buffer mutex"
  pf_metrics :: metrics

definition batch_of :: "string \<Rightarrow> nat list option \<Rightarrow> report_batch list" where
  "batch_of ty bytes =
     (case bytes of None \<Rightarrow> [] | Some bs \<Rightarrow> [\<lparr>profile_type = ty, batch_data = RawPprof bs\<rparr>])"

definition snapshot_memory ::
    "('w, 's, 'u, 'x) agent_env \<Rightarrow> pyroscope_config \<Rightarrow> time_range \<Rightarrow> ('w, 's) profilers \<Rightarrow>
     (report_batch list \<times> ('w, 's) profilers) option" where
  "snapshot_memory A config tr p =
     (if mem_enabled (mem_config config)
      then do { (bytes, w, n) \<leftarrow> memory_dump_pprof (ae_memalloc A) (ue_wire_profile (ae_upload A))
                  (heap_sample_size (mem_config config)) tr (pf_memalloc p, pf_native p);
                Some (batch_of ''memory'' bytes, p\<lparr>pf_memalloc := w, pf_native := n\<rparr>) }
      else Some ([], p))"

definition snapshot_stack ::
    "('w, 's, 'u, 'x) agent_env \<Rightarrow> pyroscope_config \<Rightarrow> time_range \<Rightarrow> ('w, 's) profilers \<Rightarrow>
     (report_batch list \<times> ('w, 's) profilers) option" where
  "snapshot_stack A config tr p =
     (let (_, s) = report_sampling_thread_error (ae_engine A) (pf_stack p);
          p = p\<lparr>pf_stack := s\<rparr>
      in if st_enabled (cf_stack_config config)
         then do { (bytes, n) \<leftarrow> stack_dump_pprof (ae_engine A) (ue_wire_profile (ae_upload A))
                     (sample_rate config) (st_oncpu (cf_stack_config config)) tr (pf_stack p) (pf_native p);
                   Some (batch_of ''process_cpu'' bytes, p\<lparr>pf_native := n\<rparr>) }
         else Some ([], p))"

definition snapshot_reporter ::
    "('w, 's, 'u, 'x) agent_env \<Rightarrow> backend_config option option \<Rightarrow> pyroscope_config \<Rightarrow> time_range \<Rightarrow>
     ('w, 's) profilers \<Rightarrow> ((pyroscope_error + report_batch list) \<times> ('w, 's) profilers) option" where
  "snapshot_reporter A reporter config tr p =
     (case reporter of
        None \<Rightarrow> Some (Inr [], p)
      | Some signal_config \<Rightarrow>
          do { (r, bf, mt) \<leftarrow> reporter_report (ae_hash A) (ue_wire_profile (ae_upload A)) (ae_process_id A)
                 signal_config (sample_rate config) tr (pf_buffer p, pf_metrics p);
               Some (case r of Inl e \<Rightarrow> Inl e | Inr b \<Rightarrow> Inr (if batch_is_empty b then [] else [b]),
                     p\<lparr>pf_buffer := bf, pf_metrics := mt\<rparr>) })"

definition send_waiting ::
    "('u, 'x) upload_env \<Rightarrow> session_signal \<Rightarrow> 'x manager \<Rightarrow> (pyroscope_error + unit) \<times> 'x manager" where
  "send_waiting U sig m =
     (case manager_send sig m of
        Some rm \<Rightarrow> rm
      | None \<Rightarrow>
          (case manager_send sig (manager_turn U m) of
             Some rm \<Rightarrow> rm
           | None \<Rightarrow> (Inr (), m)))"

definition snapshot ::
    "('w, 's, 'u, 'x) agent_env \<Rightarrow> backend_config option option \<Rightarrow> pyroscope_config \<Rightarrow> system_time \<Rightarrow>
     stop_watch \<times> ('w, 's) profilers \<times> 'x manager \<Rightarrow>
     ((pyroscope_error + unit) \<times> stop_watch \<times> ('w, 's) profilers \<times> 'x manager) option" where
  "snapshot A reporter config now st =
     (let (sw, p, m) = st in
      case lap now sw of
        (Inl e, sw) \<Rightarrow> Some (Inl e, sw, p, m)
      | (Inr tr, sw) \<Rightarrow>
          do { (b1, p) \<leftarrow> snapshot_memory A config tr p;
               (b2, p) \<leftarrow> snapshot_stack A config tr p;
               (r, p) \<leftarrow> snapshot_reporter A reporter config tr p;
               case r of
                 Inl e \<Rightarrow> Some (Inl e, sw, p, m)
               | Inr b3 \<Rightarrow>
                   if b1 @ b2 @ b3 = [] then Some (Inr (), sw, p, m)
                   else
                     (let (r, m) = send_waiting (ae_upload A) (Upload (session_new tr config (b1 @ b2 @ b3))) m
                      in Some (r, sw, p, m)) })"

subsection \<open>The main thread and the stop\<close>

text \<open>How \<open>recv_timeout\<close> returns, with the clock read by the snapshot that follows.\<close>

datatype wake = Timed_Out system_time | Disconnected system_time | Message

text \<open>The result is \<open>None\<close> while the loop goes on.\<close>

fun main_loop ::
    "('w, 's, 'u, 'x) agent_env \<Rightarrow> backend_config option option \<Rightarrow> pyroscope_config \<Rightarrow> wake list \<Rightarrow>
     stop_watch \<times> ('w, 's) profilers \<times> 'x manager \<Rightarrow>
     ((pyroscope_error + unit) option \<times> stop_watch \<times> ('w, 's) profilers \<times> 'x manager) option" where
  "main_loop A reporter config [] st = Some (None, st)"
| "main_loop A reporter config (Timed_Out now # ws) st =
     do { (r, st) \<leftarrow> snapshot A reporter config now st;
          case r of Inl e \<Rightarrow> Some (Some (Inl e), st) | Inr _ \<Rightarrow> main_loop A reporter config ws st }"
| "main_loop A reporter config (Disconnected now # ws) st =
     do { (r, st) \<leftarrow> snapshot A reporter config now st; Some (Some r, st) }"
| "main_loop A reporter config (Message # ws) st = main_loop A reporter config ws st"

definition backend_shutdown ::
    "'os signal_env \<Rightarrow> (pyroscope_error + unit) option \<Rightarrow> backend \<Rightarrow> 'os backend_world \<Rightarrow>
     (pyroscope_error + unit) \<times> backend \<times> 'os backend_world" where
  "backend_shutdown S joined b bw =
     (case b of
        BackendPySpy c bf h \<Rightarrow>
          (let (r, h) = pyspy_shutdown_thread joined h in (r, BackendPySpy c bf h, bw))
      | BackendSignal c s bf h \<Rightarrow>
          (let (r, h') = signal_shutdown_thread (joined \<noteq> None) h
           in (r, BackendSignal c s bf h',
               if sampler_thread h then signal_finish (sg_os S) c s bw else bw)))"

text \<open>Joining the manager's thread: it takes turns until the channel is empty or it has ended.\<close>

definition manager_join :: "('u, 'x) upload_env \<Rightarrow> 'x manager \<Rightarrow> 'x manager" where
  "manager_join U m = (manager_turn U ^^ length (mg_queue m)) m"

definition agent_shutdown ::
    "'os signal_env \<Rightarrow> ('u, 'x) upload_env \<Rightarrow> (pyroscope_error + unit) option \<Rightarrow> 'x agent \<Rightarrow>
     'os backend_world \<Rightarrow> 'x agent \<times> 'os backend_world" where
  "agent_shutdown S U joined ag bw =
     (let (b, bw) = (case ag_backend ag of
            None \<Rightarrow> (None, bw)
          | Some b \<Rightarrow> (let (_, b, bw) = backend_shutdown S joined b bw in (Some b, bw)));
          (_, m) = send_waiting U Kill (ag_manager ag);
          m = manager_join U m
      in (ag\<lparr>ag_backend := b, ag_manager := m\<rparr>, bw))"

text \<open>
  \<open>stop\<close>: the main thread, woken by the dropped channel at time \<open>now\<close>, takes a last snapshot and is
  joined; its error or panic is only logged. A panic comes before anything is sent; \<open>after_panic\<close> is
  what it leaves of the profilers.
\<close>

definition agent_stop ::
    "('w, 's, 'u, 'x) agent_env \<Rightarrow> 'os signal_env \<Rightarrow> backend_config option option \<Rightarrow> system_time \<Rightarrow>
     (pyroscope_error + unit) option \<Rightarrow> ('w, 's) profilers \<Rightarrow> stop_watch \<times> ('w, 's) profilers \<Rightarrow> 'x agent \<Rightarrow>
     'os backend_world \<Rightarrow>
     (pyroscope_error + unit) \<times> ('w, 's) profilers \<times> 'x agent \<times> 'os backend_world" where
  "agent_stop A S reporter now joined after_panic swp ag bw =
     (let (sw, p) = swp;
          (p, m) = (if ag_started ag
                    then (case main_loop A reporter (ag_config ag) [Disconnected now] (sw, p, ag_manager ag) of
                            Some (_, _, p, m) \<Rightarrow> (p, m)
                          | None \<Rightarrow> (after_panic, ag_manager ag))
                    else (p, ag_manager ag));
          (ag, bw) = agent_shutdown S (ae_upload A) joined (ag\<lparr>ag_manager := m\<rparr>) bw
      in (Inr (), p, ag, bw))"

subsection \<open>What a snapshot does to the manager\<close>

text \<open>
  No upload of a sent session panics: its URL can take a path, and what it still has to encode has
  a positive rate and fits the string table.
\<close>

definition uploads_return :: "('u, 'x) upload_env \<Rightarrow> 'x manager \<Rightarrow> bool" where
  "uploads_return U m \<longleftrightarrow> (\<forall>s w. Upload s \<in> set (mg_sent m) \<longrightarrow> session_push U s w \<noteq> None)"

text \<open>The manager runs and was not told to end.\<close>

definition manager_open :: "'x manager \<Rightarrow> bool" where
  "manager_open m \<longleftrightarrow> manager_inv m \<and> \<not> mg_done m \<and> Kill \<notin> set (mg_sent m)"

lemma manager_turn_sent [simp]: "mg_sent (manager_turn U m) = mg_sent m"
  by (auto simp: manager_turn_def Let_def split: list.splits session_signal.splits option.splits)

lemma manager_turns_sent [simp]: "mg_sent ((manager_turn U ^^ n) m) = mg_sent m"
  by (induction n) simp_all

lemma send_waiting_cases:
  assumes "manager_inv m" "send_waiting U sig m = (r, m')"
  shows "manager_inv m' \<and>
    (case r of Inl _ \<Rightarrow> mg_done m' \<and> mg_sent m' = mg_sent m
     | Inr _ \<Rightarrow> \<not> mg_done m' \<and> mg_sent m' = mg_sent m @ [sig])"
proof (cases "manager_send sig m")
  case None
  then have full: "\<not> mg_done m" "length (mg_queue m) = CHANNEL_SIZE"
    using assms(1) by (auto simp: manager_send_def manager_inv_def split: if_splits)
  then obtain x q where q: "mg_queue m = x # q" by (cases "mg_queue m") (auto simp: CHANNEL_SIZE_def)
  have T: "manager_inv (manager_turn U m)" by (rule manager_turn_inv [OF assms(1)])
  have "mg_queue (manager_turn U m) = q" using manager_turn_progress [OF full(1) q] by blast
  then have "length (mg_queue (manager_turn U m)) < CHANNEL_SIZE" using full(2) q by simp
  then show ?thesis
    using assms(2) None T by (auto simp: send_waiting_def manager_send_def manager_inv_def split: if_splits)
next
  case (Some rm)
  then show ?thesis
    using assms by (auto simp: send_waiting_def manager_send_def manager_inv_def split: if_splits)
qed

lemma manager_turn_open:
  assumes "uploads_return U m" "manager_inv m" "\<not> mg_done m" "mg_queue m = Upload s # q"
  shows "\<not> mg_done (manager_turn U m) \<and> mg_queue (manager_turn U m) = q"
proof -
  have "Upload s \<in> set (mg_sent m)" using assms(2,4) by (simp add: manager_inv_def)
  then obtain r w where "session_push U s (mg_world m) = Some (r, w)"
    using assms(1) unfolding uploads_return_def by fastforce
  then show ?thesis using assms(3,4) by (simp add: manager_turn_def Let_def)
qed

lemma send_waiting_open:
  assumes "uploads_return U m" "manager_open m"
  shows "\<exists>m'. send_waiting U sig m = (Inr (), m') \<and> manager_inv m' \<and> \<not> mg_done m' \<and>
    mg_sent m' = mg_sent m @ [sig]"
proof -
  have m: "manager_inv m" "\<not> mg_done m" "Kill \<notin> set (mg_sent m)" using assms(2) by (simp_all add: manager_open_def)
  obtain r m' where s: "send_waiting U sig m = (r, m')" by (cases "send_waiting U sig m")
  note C = send_waiting_cases [OF m(1) s]
  have "r = Inr ()"
  proof (cases "length (mg_queue m) < CHANNEL_SIZE")
    case True
    then show ?thesis using s m(2) by (simp add: send_waiting_def manager_send_def)
  next
    case False
    then have full: "length (mg_queue m) = CHANNEL_SIZE" using m(1) by (simp add: manager_inv_def)
    then obtain x q where q: "mg_queue m = x # q" by (cases "mg_queue m") (auto simp: CHANNEL_SIZE_def)
    then obtain y where "x = Upload y" using m(1,3) by (cases x) (auto simp: manager_inv_def)
    then have T: "\<not> mg_done (manager_turn U m)" "mg_queue (manager_turn U m) = q"
      using manager_turn_open [OF assms(1) m(1,2)] q by simp_all
    have "length q < CHANNEL_SIZE" using full q by simp
    then show ?thesis using s T m(2) full by (simp add: send_waiting_def manager_send_def)
  qed
  then show ?thesis using C s by simp
qed

lemma manager_turns_all:
  assumes "uploads_return U m" "manager_inv m" "\<not> mg_done m" "mg_queue m = xs @ [Kill]" "Kill \<notin> set xs"
  shows "mg_taken ((manager_turn U ^^ length (mg_queue m)) m) = mg_sent m"
  using assms
proof (induction xs arbitrary: m)
  case Nil
  then show ?case by (simp add: manager_turn_def manager_inv_def Let_def)
next
  case (Cons x xs)
  obtain s where s: "x = Upload s" using Cons.prems(5) by (cases x) auto
  define m1 where "m1 = manager_turn U m"
  have q: "mg_queue m = Upload s # xs @ [Kill]" using Cons.prems(4) s by simp
  have m1: "\<not> mg_done m1" "mg_queue m1 = xs @ [Kill]" "mg_sent m1 = mg_sent m"
    using manager_turn_open [OF Cons.prems(1-3) q] by (simp_all add: m1_def)
  have "manager_inv m1" unfolding m1_def by (rule manager_turn_inv [OF Cons.prems(2)])
  moreover have "uploads_return U m1" using Cons.prems(1) by (simp add: uploads_return_def m1(3))
  ultimately show ?case using Cons.IH [OF _ _ m1(1,2)] Cons.prems(4,5) m1
    by (simp add: funpow_swap1 m1_def)
qed

lemma snapshot_cases:
  assumes "snapshot A reporter config now (sw, p, m) = Some (r, sw', p', m')"
  shows "(case time_range_new (sw_start sw) now of
      Inl e \<Rightarrow> r = Inl e \<and> sw' = sw \<and> m' = m
    | Inr tr \<Rightarrow> sw' = sw\<lparr>sw_start := now\<rparr> \<and>
        (m' = m \<or> (\<exists>s. send_waiting (ae_upload A) (Upload s) m = (r, m') \<and> se_time_range s = tr \<and>
           se_config s = config \<and> se_batch s \<noteq> [])))"
  using assms
  by (auto simp: snapshot_def lap_def session_new_def Let_def split: sum.splits Option.bind_splits if_splits prod.splits)

lemma shutdown_manager:
  "ag_manager (fst (agent_shutdown S U joined ag bw)) = manager_join U (snd (send_waiting U Kill (ag_manager ag)))"
  by (simp add: agent_shutdown_def case_prod_beta Let_def)

lemma shutdown_done:
  assumes "manager_inv (ag_manager ag)"
  shows "mg_done (ag_manager (fst (agent_shutdown S U joined ag bw)))"
proof -
  obtain r m where s: "send_waiting U Kill (ag_manager ag) = (r, m)"
    by (cases "send_waiting U Kill (ag_manager ag)")
  note C = send_waiting_cases [OF assms s]
  show ?thesis
  proof (cases r)
    case (Inl e)
    then show ?thesis using C by (simp add: shutdown_manager s manager_join_def manager_done_turns)
  next
    case (Inr u)
    then have m: "manager_inv m" "\<not> mg_done m" "Kill \<in> set (mg_sent m)" using C by simp_all
    then have "Kill \<in> set (mg_queue m)" by (auto simp: manager_inv_def)
    then show ?thesis unfolding shutdown_manager s snd_conv manager_join_def by (rule manager_drains) simp
  qed
qed

lemma shutdown_all:
  assumes o: "manager_open (ag_manager ag)" and u: "uploads_return U (ag_manager ag)"
  shows "mg_sent (ag_manager (fst (agent_shutdown S U joined ag bw))) = mg_sent (ag_manager ag) @ [Kill] \<and>
    mg_taken (ag_manager (fst (agent_shutdown S U joined ag bw))) = mg_sent (ag_manager ag) @ [Kill]"
proof -
  obtain m where m: "send_waiting U Kill (ag_manager ag) = (Inr (), m)" "manager_inv m" "\<not> mg_done m"
    "mg_sent m = mg_sent (ag_manager ag) @ [Kill]"
    using send_waiting_open [OF u o] by blast
  have sent: "mg_sent m = mg_taken m @ mg_queue m" "Kill \<notin> set (mg_taken m)"
    using m(2,3) by (simp_all add: manager_inv_def)
  obtain xs where xs: "mg_queue m = xs @ [Kill]"
  proof (cases "mg_queue m" rule: rev_cases)
    case Nil
    then have "Kill \<in> set (mg_taken m)" using sent(1) m(4) by (metis append_Nil2 in_set_conv_decomp)
    then show ?thesis using sent(2) by blast
  next
    case (snoc ys y)
    then show ?thesis using sent(1) m(4) that by simp
  qed
  have "mg_taken m @ xs = mg_sent (ag_manager ag)" using m(4) sent(1) xs by simp
  then have "set xs \<subseteq> set (mg_sent (ag_manager ag))" by (metis set_append Un_upper2)
  then have k: "Kill \<notin> set xs" using o by (auto simp: manager_open_def)
  have "uploads_return U m" using u by (simp add: uploads_return_def m(4))
  from manager_turns_all [OF this m(2,3) xs k] m(4)
  show ?thesis by (simp add: shutdown_manager m(1) manager_join_def)
qed

text \<open>The last snapshot leaves the manager as it was, refused, or with one more session.\<close>

lemma last_snapshot:
  assumes "manager_inv m" and "main_loop A reporter config [Disconnected now] (sw, p, m) = Some (r, sw', p', m')"
  shows "manager_inv m' \<and> (\<exists>final. mg_sent m' = mg_sent m @ List.map Upload final \<and>
    (final = [] \<or> (\<exists>s. final = [s] \<and> se_config s = config \<and> se_batch s \<noteq> []))) \<and>
    (uploads_return (ae_upload A) m' \<and> manager_open m \<longrightarrow> manager_open m')"
proof -
  obtain r1 where s: "snapshot A reporter config now (sw, p, m) = Some (r1, sw', p', m')"
    using assms(2) by (auto split: Option.bind_splits)
  have "m' = m \<or> (\<exists>s. send_waiting (ae_upload A) (Upload s) m = (r1, m') \<and> se_config s = config \<and> se_batch s \<noteq> [])"
    using snapshot_cases [OF s] by (auto split: sum.splits)
  then show ?thesis
  proof
    assume "m' = m"
    then show ?thesis using assms(1) by (simp add: exI [of _ "[]"])
  next
    assume "\<exists>s. send_waiting (ae_upload A) (Upload s) m = (r1, m') \<and> se_config s = config \<and> se_batch s \<noteq> []"
    then obtain s where w: "send_waiting (ae_upload A) (Upload s) m = (r1, m')" "se_config s = config" "se_batch s \<noteq> []"
      by blast
    note C = send_waiting_cases [OF assms(1) w(1)]
    have O: "manager_open m'" if u: "uploads_return (ae_upload A) m'" and o: "manager_open m"
    proof -
      have "set (mg_sent m) \<subseteq> set (mg_sent m')" using C by (auto split: sum.splits)
      then have "uploads_return (ae_upload A) m" using u by (auto simp: uploads_return_def)
      from send_waiting_open [OF this o, of "Upload s"] w(1) o show ?thesis by (auto simp: manager_open_def)
    qed
    show ?thesis
    proof (cases r1)
      case (Inl e)
      then show ?thesis using C O by (simp add: exI [of _ "[]"])
    next
      case (Inr u)
      then show ?thesis using C O w(2,3) by (simp add: exI [of _ "[s]"])
    qed
  qed
qed

lemma shutdown_sent:
  assumes "manager_inv (ag_manager ag)"
  shows "set (mg_sent (ag_manager ag)) \<subseteq> set (mg_sent (ag_manager (fst (agent_shutdown S U joined ag bw))))"
proof -
  obtain r m where s: "send_waiting U Kill (ag_manager ag) = (r, m)"
    by (cases "send_waiting U Kill (ag_manager ag)")
  have "set (mg_sent (ag_manager ag)) \<subseteq> set (mg_sent m)"
    using send_waiting_cases [OF assms s] by (auto split: sum.splits)
  then show ?thesis by (simp add: shutdown_manager s manager_join_def)
qed


lemma main_loop_ranges:
  "manager_inv m \<Longrightarrow> sorted (start # ts) \<Longrightarrow> 0 \<le> start \<Longrightarrow>
   main_loop A reporter config (List.map Timed_Out ts) (stop_watch_new start, p, m) = Some (res, sw', p', m') \<Longrightarrow>
   \<exists>sent. mg_sent m' = mg_sent m @ List.map Upload sent \<and>
    subseq (List.map se_time_range sent) (ranges start ts) \<and>
    (res = None \<longrightarrow> sw' = stop_watch_new (last (start # ts)))"
proof (induction ts arbitrary: start p m)
  case Nil
  then show ?case by simp
next
  case (Cons t ts)
  define tr where "tr = (nat start, nat (t - start))"
  have tr: "time_range_new start t = Inr tr" using Cons.prems(2,3) by (simp add: time_range_new_def tr_def)
  obtain r1 sw1 p1 m1 where s: "snapshot A reporter config t (stop_watch_new start, p, m) = Some (r1, sw1, p1, m1)"
    and rest: "(case r1 of Inl e \<Rightarrow> Some (Some (Inl e), sw1, p1, m1)
      | Inr _ \<Rightarrow> main_loop A reporter config (List.map Timed_Out ts) (sw1, p1, m1)) = Some (res, sw', p', m')"
    using Cons.prems(4) by (auto split: Option.bind_splits)
  note C = snapshot_cases [OF s, unfolded stop_watch_new_def, simplified, unfolded tr, simplified]
  have sw1: "sw1 = stop_watch_new t" using C by (simp add: stop_watch_new_def)
  obtain first where f: "mg_sent m1 = mg_sent m @ List.map Upload first" "manager_inv m1"
    "subseq (List.map se_time_range first) [tr]"
  proof (cases "m1 = m")
    case True
    then show ?thesis using that [of "[]"] Cons.prems(1) by simp
  next
    case False
    then obtain x where x: "send_waiting (ae_upload A) (Upload x) m = (r1, m1)" "se_time_range x = tr"
      using C by blast
    note W = send_waiting_cases [OF Cons.prems(1) x(1)]
    show ?thesis
    proof (cases r1)
      case (Inl e)
      then show ?thesis using that [of "[]"] W by simp
    next
      case (Inr u)
      then show ?thesis using that [of "[x]"] W x(2) by simp
    qed
  qed
  show ?case
  proof (cases r1)
    case (Inl e)
    then have "res = Some (Inl e)" "m' = m1" using rest by simp_all
    moreover have "subseq (List.map se_time_range first) ([tr] @ ranges t ts)"
      using list_emb_append_mono [OF f(3), of "[]" "ranges t ts"] by simp
    ultimately show ?thesis using f(1) by (intro exI [of _ first]) (simp add: tr_def)
  next
    case (Inr u)
    have l: "main_loop A reporter config (List.map Timed_Out ts) (stop_watch_new t, p1, m1) = Some (res, sw', p', m')"
      using rest Inr sw1 by simp
    have "sorted (t # ts)" "0 \<le> t" using Cons.prems(2,3) by simp_all
    from Cons.IH [OF f(2) this l] obtain sent where q: "mg_sent m' = mg_sent m1 @ List.map Upload sent"
      "subseq (List.map se_time_range sent) (ranges t ts)"
      "res = None \<longrightarrow> sw' = stop_watch_new (last (t # ts))" by blast
    have "subseq (List.map se_time_range (first @ sent)) ([tr] @ ranges t ts)"
      using list_emb_append_mono [OF f(3) q(2)] by simp
    then show ?thesis using q(1,3) f(1) by (intro exI [of _ "first @ sent"]) (simp add: tr_def)
  qed
qed

subsection \<open>Properties\<close>

text \<open>
  C15: stopping the agent always returns, with the session manager ended, and while no upload panics
  everything is uploaded: the manager has taken every session ever sent, then at most one last
  session with the agent's configuration and what the profilers still held, then the \<open>Kill\<close>, and
  nothing after it. This holds also when the last snapshot fails or panics.
\<close>

theorem agent_stop_uploads_all:
  assumes "manager_open (ag_manager ag)"
  shows "case agent_stop A S reporter now joined after_panic (sw, p) ag bw of
      (r, p', ag', bw') \<Rightarrow> r = Inr () \<and> mg_done (ag_manager ag') \<and>
        (uploads_return (ae_upload A) (ag_manager ag') \<longrightarrow>
           mg_taken (ag_manager ag') = mg_sent (ag_manager ag') \<and>
           (\<exists>final. mg_sent (ag_manager ag') = mg_sent (ag_manager ag) @ List.map Upload final @ [Kill] \<and>
             (final = [] \<or> ag_started ag \<and>
               (\<exists>s. final = [s] \<and> se_config s = ag_config ag \<and> se_batch s \<noteq> []))))"
proof -
  define U where "U = ae_upload A"
  have inv: "manager_inv (ag_manager ag)" using assms by (simp add: manager_open_def)
  obtain m p1 where m: "agent_stop A S reporter now joined after_panic (sw, p) ag bw =
      (let (a, bw) = agent_shutdown S U joined (ag\<lparr>ag_manager := m\<rparr>) bw in (Inr (), p1, a, bw))"
    "manager_inv m" "\<exists>final. mg_sent m = mg_sent (ag_manager ag) @ List.map Upload final \<and>
      (final = [] \<or> ag_started ag \<and> (\<exists>s. final = [s] \<and> se_config s = ag_config ag \<and> se_batch s \<noteq> []))"
    "uploads_return U m \<Longrightarrow> manager_open m"
  proof (cases "main_loop A reporter (ag_config ag) [Disconnected now] (sw, p, ag_manager ag)")
    case None
    then show ?thesis
      using that [of "ag_manager ag" "if ag_started ag then after_panic else p"] inv assms
      by (simp add: agent_stop_def U_def exI [of _ "[]"])
  next
    case (Some x)
    obtain r sw' p' m' where x: "x = (r, sw', p', m')" by (cases x)
    show ?thesis
    proof (cases "ag_started ag")
      case True
      then show ?thesis
        using that [of m' p'] last_snapshot [OF inv Some [unfolded x]] Some x assms
        by (auto simp: agent_stop_def U_def)
    next
      case False
      then show ?thesis
        using that [of "ag_manager ag" p] inv assms by (simp add: agent_stop_def U_def exI [of _ "[]"])
    qed
  qed
  obtain a bw' where a: "agent_shutdown S U joined (ag\<lparr>ag_manager := m\<rparr>) bw = (a, bw')"
    by (cases "agent_shutdown S U joined (ag\<lparr>ag_manager := m\<rparr>) bw")
  have d: "mg_done (ag_manager a)"
    using shutdown_done [of "ag\<lparr>ag_manager := m\<rparr>" S U joined bw] m(2) by (simp add: a)
  have "set (mg_sent m) \<subseteq> set (mg_sent (ag_manager a))"
    using shutdown_sent [of "ag\<lparr>ag_manager := m\<rparr>" S U joined bw] m(2) by (simp add: a)
  then have u: "uploads_return U m" if "uploads_return U (ag_manager a)"
    using that by (auto simp: uploads_return_def)
  show ?thesis
    using d u m(3,4) shutdown_all [of "ag\<lparr>ag_manager := m\<rparr>" U S joined bw]
    unfolding m(1) a U_def [symmetric] by (auto simp: a)
qed

text \<open>
  C16: the sessions of a run cover time in order and without overlap. Whatever times the main
  thread wakes at, in order, as long as it has not ended it has only appended sessions to what the
  manager was sent; their time ranges are among the consecutive windows between the wakes, each
  at most once and in order; and the next window starts at the last wake.
\<close>

theorem main_loop_windows:
  assumes "manager_inv m" and "sorted (start # ts)" and "0 \<le> start"
    and "main_loop A reporter config (List.map Timed_Out ts) (stop_watch_new start, p, m) = Some (res, sw', p', m')"
  shows "\<exists>sent. mg_sent m' = mg_sent m @ List.map Upload sent \<and>
    subseq (List.map se_time_range sent) (ranges start ts) \<and>
    (res = None \<longrightarrow> sw' = stop_watch_new (last (start # ts)))"
  by (rule main_loop_ranges [OF assms])

subsection \<open>Witnesses\<close>

definition example_agent_env :: "(bool, bool, string, nat) agent_env" where
  "example_agent_env = \<lparr>ae_memalloc = example_memalloc, ae_engine = example_engine,
     ae_upload = example_upload, ae_hash = (\<lambda>_. 0), ae_process_id = 1\<rparr>"

definition example_profilers :: "(bool, bool) profilers" where
  "example_profilers = \<lparr>pf_memalloc = False, pf_native = native_new, pf_stack = stack_state_new False,
     pf_buffer = mutex_new [], pf_metrics = metrics_zero\<rparr>"

definition example_session :: session_data where
  "example_session = session_new (0, 1) example_config [\<lparr>profile_type = ''memory'', batch_data = RawPprof [7]\<rparr>]"

definition example_agent :: "nat agent" where
  "example_agent = \<lparr>ag_backend = None, ag_config = example_config,
     ag_backend_config = \<lparr>report_thread_id = False, report_thread_name = False, report_pid = False\<rparr>,
     ag_manager = (manager_new 0)\<lparr>mg_queue := [Upload example_session], mg_sent := [Upload example_session]\<rparr>,
     ag_ruleset = thread_tags_new, ag_started = True\<rparr>"

lemma example_snapshot:
  "snapshot example_agent_env None example_config t (stop_watch_new 0, example_profilers, m) =
     Some (Inr (), stop_watch_new t, example_profilers, m)"
  by (simp add: snapshot_def lap_def time_range_new_def stop_watch_new_def snapshot_memory_def snapshot_stack_def
      snapshot_reporter_def report_sampling_thread_error_def example_profilers_def stack_state_new_def
      example_config_def config_new_def)

theorem agent_stop_uploads_all_witness:
  "\<forall>(S :: nat signal_env) bw.
     case agent_stop example_agent_env S None 5 None example_profilers (stop_watch_new 0, example_profilers)
       example_agent bw of
     (r, p', ag', bw') \<Rightarrow> mg_done (ag_manager ag') \<and> mg_taken (ag_manager ag') = [Upload example_session, Kill]"
proof (intro allI)
  fix S :: "nat signal_env" and bw
  have o: "manager_open (ag_manager example_agent)"
    by (simp add: manager_open_def manager_inv_def example_agent_def manager_new_def CHANNEL_SIZE_def)
  obtain r p' ag' bw' where a: "agent_stop example_agent_env S None 5 None example_profilers
      (stop_watch_new 0, example_profilers) example_agent bw = (r, p', ag', bw')"
    by (cases "agent_stop example_agent_env S None 5 None example_profilers
      (stop_watch_new 0, example_profilers) example_agent bw")
  have m: "mg_sent (ag_manager ag') = [Upload example_session, Kill]"
    using a by (auto simp: agent_stop_def agent_shutdown_def example_snapshot send_waiting_def manager_send_def
        manager_join_def example_agent_def manager_new_def CHANNEL_SIZE_def Let_def case_prod_beta split: prod.splits)
  have "session_push example_upload example_session w \<noteq> None" for w
    by (simp add: session_push_def example_session_def session_new_def example_upload_def raw_profile_of_def Let_def)
  then have "uploads_return (ae_upload example_agent_env) (ag_manager ag')"
    by (simp add: uploads_return_def m example_agent_env_def)
  with agent_stop_uploads_all [OF o, of example_agent_env S None 5 None example_profilers "stop_watch_new 0"
      example_profilers bw] m
  show "case agent_stop example_agent_env S None 5 None example_profilers (stop_watch_new 0, example_profilers)
       example_agent bw of
     (r, p', ag', bw') \<Rightarrow> mg_done (ag_manager ag') \<and> mg_taken (ag_manager ag') = [Upload example_session, Kill]"
    unfolding a by simp
qed

theorem main_loop_windows_witness:
  "\<exists>sw' p'. main_loop example_agent_env None example_config (List.map Timed_Out [5, 9])
     (stop_watch_new 0, example_profilers, manager_new 0) = Some (None, sw', p', manager_new 0) \<and>
     sw' = stop_watch_new 9"
proof -
  have i: "manager_inv (manager_new (0 :: nat))" by (simp add: manager_inv_def manager_new_def)
  obtain sw' p' where l: "main_loop example_agent_env None example_config (List.map Timed_Out [5, 9])
     (stop_watch_new 0, example_profilers, manager_new 0) = Some (None, sw', p', manager_new 0)"
    by (simp add: snapshot_def lap_def time_range_new_def stop_watch_new_def snapshot_memory_def snapshot_stack_def
      snapshot_reporter_def report_sampling_thread_error_def example_profilers_def stack_state_new_def
      example_config_def config_new_def)
  have "sorted [0 :: int, 5, 9]" "0 \<le> (0 :: int)" by simp_all
  from main_loop_windows [OF i this l] l show ?thesis by auto
qed

end
