(* ===== verification/Leakable_Mutex.thy ===== *)
theory Leakable_Mutex
  imports Prelude
begin

text \<open>
  \<open>rust/src/forksafety.rs\<close>: \<open>LeakableMutex\<close>, the lazily allocated global that a forked child
  abandons. The atomic accesses of \<open>mutex()\<close> are separate steps of any number of threads, so that
  threads that allocate at the same time race for the pointer, and one that lost it frees its own
  box. \<open>Update\<close> is a thread that locked the box it holds and assigns its content.

  On every platform but macOS \<open>no_dispatch_semaphore(f)\<close> is \<open>f()\<close>.
\<close>

definition no_dispatch_semaphore :: "('s \<Rightarrow> 'r \<times> 's) \<Rightarrow> 's \<Rightarrow> 'r \<times> 's" where
  "no_dispatch_semaphore f s = f s"

subsection \<open>The steps\<close>

datatype lm_pc =
    Away
  | Saw_Null
  | Allocated nat
  | Holding nat

record 'a leakable =
  lm_ptr :: "nat option"
  lm_boxes :: "nat \<Rightarrow> 'a option"
  lm_next :: nat
  lm_pcs :: "nat \<Rightarrow> lm_pc"

definition lm_new :: "'a leakable" where
  "lm_new = \<lparr>lm_ptr = None, lm_boxes = (\<lambda>_. None), lm_next = 0, lm_pcs = (\<lambda>_. Away)\<rparr>"

text \<open>\<open>new_static\<close>: a new box around the default value.\<close>

definition new_static :: "'a \<Rightarrow> 'a leakable \<Rightarrow> nat \<times> 'a leakable" where
  "new_static d s =
     (lm_next s, s\<lparr>lm_boxes := (lm_boxes s)(lm_next s := Some d), lm_next := Suc (lm_next s)\<rparr>)"

text \<open>The steps of \<open>mutex()\<close> of one thread.\<close>

definition lm_load :: "nat \<Rightarrow> 'a leakable \<Rightarrow> 'a leakable" where
  "lm_load t s =
     s\<lparr>lm_pcs := (lm_pcs s)(t := (case lm_ptr s of Some a \<Rightarrow> Holding a | None \<Rightarrow> Saw_Null))\<rparr>"

definition lm_alloc :: "'a \<Rightarrow> nat \<Rightarrow> 'a leakable \<Rightarrow> 'a leakable" where
  "lm_alloc d t s = (let (a, s) = new_static d s in s\<lparr>lm_pcs := (lm_pcs s)(t := Allocated a)\<rparr>)"

definition lm_publish :: "nat \<Rightarrow> nat \<Rightarrow> 'a leakable \<Rightarrow> 'a leakable" where
  "lm_publish t a s =
     (case lm_ptr s of
        None \<Rightarrow> s\<lparr>lm_ptr := Some a, lm_pcs := (lm_pcs s)(t := Holding a)\<rparr>
      | Some old \<Rightarrow> s\<lparr>lm_boxes := (lm_boxes s)(a := None), lm_pcs := (lm_pcs s)(t := Holding old)\<rparr>)"

definition leak_and_reset :: "'a \<Rightarrow> 'a leakable \<Rightarrow> 'a leakable" where
  "leak_and_reset d s = (let (a, s) = new_static d s in s\<lparr>lm_ptr := Some a\<rparr>)"

datatype 'a lm_label = Internal | Update nat nat 'a | Reset

inductive lm_step :: "'a \<Rightarrow> 'a leakable \<Rightarrow> 'a lm_label \<Rightarrow> 'a leakable \<Rightarrow> bool" for d where
  Load: "lm_pcs s t = Away \<Longrightarrow> lm_step d s Internal (lm_load t s)"
| Alloc: "lm_pcs s t = Saw_Null \<Longrightarrow> lm_step d s Internal (lm_alloc d t s)"
| Publish: "lm_pcs s t = Allocated a \<Longrightarrow> lm_step d s Internal (lm_publish t a s)"
| Update: "lm_pcs s t = Holding a \<Longrightarrow>
    lm_step d s (Update t a x) (s\<lparr>lm_boxes := (lm_boxes s)(a := Some x)\<rparr>)"
| Leave: "lm_pcs s t = Holding a \<Longrightarrow> lm_step d s Internal (s\<lparr>lm_pcs := (lm_pcs s)(t := Away)\<rparr>)"
| Reset: "lm_step d s Reset (leak_and_reset d s)"

inductive_simps lm_update_step [simp]: "lm_step d s (Update t a x) s'"
inductive_simps lm_reset_step [simp]: "lm_step d s Reset s'"

inductive lm_reachable :: "'a \<Rightarrow> 'a leakable \<Rightarrow> bool" for d where
  "lm_reachable d lm_new"
| "lm_reachable d s \<Longrightarrow> lm_step d s l s' \<Longrightarrow> lm_reachable d s'"

text \<open>The value of the global: what a thread that calls \<open>mutex()\<close> now would find.\<close>

definition lm_value :: "'a \<Rightarrow> 'a leakable \<Rightarrow> 'a" where
  "lm_value d s = (case lm_ptr s of None \<Rightarrow> d | Some a \<Rightarrow> (case lm_boxes s a of None \<Rightarrow> d | Some x \<Rightarrow> x))"

subsection \<open>The invariant\<close>

text \<open>
  Boxes that are published or held exist; a box that is allocated but not yet published belongs to
  one thread and still has the default value.
\<close>

definition lm_inv :: "'a \<Rightarrow> 'a leakable \<Rightarrow> bool" where
  "lm_inv d s \<longleftrightarrow>
     (\<forall>a. lm_boxes s a \<noteq> None \<longrightarrow> a < lm_next s) \<and>
     (\<forall>a. lm_ptr s = Some a \<longrightarrow> lm_boxes s a \<noteq> None) \<and>
     (\<forall>t a. lm_pcs s t = Holding a \<longrightarrow> lm_boxes s a \<noteq> None) \<and>
     (\<forall>t a. lm_pcs s t = Allocated a \<longrightarrow> lm_boxes s a = Some d \<and> lm_ptr s \<noteq> Some a \<and>
        (\<forall>u. u \<noteq> t \<longrightarrow> lm_pcs s u \<noteq> Allocated a \<and> lm_pcs s u \<noteq> Holding a))"

lemmas lm_defs = lm_load_def lm_alloc_def lm_publish_def leak_and_reset_def new_static_def

lemma lm_inv_new: "lm_inv d lm_new"
  by (simp add: lm_inv_def lm_new_def)

lemma lm_inv_load: "lm_inv d s \<Longrightarrow> lm_inv d (lm_load t s)"
  unfolding lm_inv_def lm_load_def by (cases "lm_ptr s") (auto split: if_splits)

lemma lm_inv_fresh:
  assumes "lm_inv d s"
  shows "lm_boxes s (lm_next s) = None" "lm_ptr s \<noteq> Some (lm_next s)"
    "lm_pcs s t \<noteq> Holding (lm_next s)" "lm_pcs s t \<noteq> Allocated (lm_next s)"
  using assms unfolding lm_inv_def
  by (metis less_irrefl, metis less_irrefl, metis less_irrefl, metis less_irrefl option.distinct(1))

lemma lm_inv_alloc: "lm_inv d s \<Longrightarrow> lm_inv d (lm_alloc d t s)"
  using lm_inv_fresh [of d s] unfolding lm_inv_def lm_alloc_def new_static_def
  by (auto simp: less_Suc_eq split: if_splits)

lemma lm_inv_publish: "lm_inv d s \<Longrightarrow> lm_pcs s t = Allocated a \<Longrightarrow> lm_inv d (lm_publish t a s)"
  unfolding lm_inv_def lm_publish_def
  by (cases "lm_ptr s") (auto split: if_splits)

lemma lm_inv_reset: "lm_inv d s \<Longrightarrow> lm_inv d (leak_and_reset d s)"
  using lm_inv_fresh [of d s] unfolding lm_inv_def leak_and_reset_def new_static_def
  by (auto simp: less_Suc_eq split: if_splits)

lemma lm_inv_update:
  "lm_inv d s \<Longrightarrow> lm_pcs s t = Holding a \<Longrightarrow> lm_inv d (s\<lparr>lm_boxes := (lm_boxes s)(a := Some x)\<rparr>)"
  unfolding lm_inv_def by (auto split: if_splits) (metis lm_pc.distinct(11))+

lemma lm_inv_step: "lm_step d s l s' \<Longrightarrow> lm_inv d s \<Longrightarrow> lm_inv d s'"
proof (induction rule: lm_step.induct)
  case (Leave s t a)
  then show ?case unfolding lm_inv_def by (auto split: if_splits)
qed (simp_all add: lm_inv_load lm_inv_alloc lm_inv_publish lm_inv_update lm_inv_reset)

lemma lm_reachable_inv: "lm_reachable d s \<Longrightarrow> lm_inv d s"
  by (induction rule: lm_reachable.induct) (auto intro: lm_inv_new lm_inv_step)

subsection \<open>Runs\<close>

inductive lm_run :: "'a \<Rightarrow> 'a lm_label list \<Rightarrow> 'a leakable \<Rightarrow> bool" for d where
  Start: "lm_run d [] lm_new"
| Step: "lm_run d ls s \<Longrightarrow> lm_step d s l s' \<Longrightarrow> lm_run d (ls @ [l]) s'"

lemma lm_run_reachable: "lm_run d ls s \<Longrightarrow> lm_reachable d s"
  by (induction rule: lm_run.induct) (auto intro: lm_reachable.intros)

lemma lm_value_internal:
  assumes "lm_inv d s" "lm_step d s Internal s'"
  shows "lm_value d s' = lm_value d s"
  using assms(2)
proof cases
  case (Publish t a)
  then have "lm_boxes s a = Some d" "lm_ptr s \<noteq> Some a" using assms(1) unfolding lm_inv_def by blast+
  then show ?thesis by (auto simp: Publish lm_publish_def lm_value_def split: option.splits)
next
  case (Alloc t)
  then show ?thesis
    using lm_inv_fresh(2) [OF assms(1)] by (auto simp: lm_alloc_def new_static_def lm_value_def split: option.splits)
qed (auto simp: lm_load_def lm_value_def split: option.splits)

lemma lm_reset_keeps:
  assumes "lm_inv d s"
  shows "lm_value d (leak_and_reset d s) = d"
    "lm_boxes s a \<noteq> None \<Longrightarrow> lm_boxes (leak_and_reset d s) a = lm_boxes s a"
    "lm_pcs (leak_and_reset d s) = lm_pcs s"
  using lm_inv_fresh(1) [OF assms] by (auto simp: leak_and_reset_def new_static_def lm_value_def)

text \<open>While nothing resets it, the pointer never changes once it is set.\<close>

definition lm_single :: "'a leakable \<Rightarrow> bool" where
  "lm_single s \<longleftrightarrow> (\<forall>t a. lm_pcs s t = Holding a \<longrightarrow> lm_ptr s = Some a)"

lemma lm_single_step: "lm_step d s l s' \<Longrightarrow> l \<noteq> Reset \<Longrightarrow> lm_single s \<Longrightarrow> lm_single s'"
proof (induction rule: lm_step.induct)
  case (Leave s t a)
  then show ?case unfolding lm_single_def by auto (metis option.inject)
next
  case (Reset s)
  then show ?case by blast
qed (force simp: lm_single_def lm_defs split: if_splits option.splits)+

lemma lm_single_run: "lm_run d ls s \<Longrightarrow> Reset \<notin> set ls \<Longrightarrow> lm_single s"
proof (induction rule: lm_run.induct)
  case Start
  then show ?case by (simp add: lm_single_def lm_new_def)
next
  case (Step ls s l s')
  then show ?case using lm_single_step [of d s l s'] by auto
qed

subsection \<open>Properties\<close>

text \<open>
  C19: the lazily allocated global behaves as one mutex-protected value. Under any interleaving of
  threads that race to allocate it, use it, and reset it: a step inside \<open>mutex()\<close> does not change
  the value, an update through the current box is the new value, an update through a box that was
  abandoned by a reset is lost, and a reset installs the default and leaves every older box as it
  was, neither freed nor changed.
\<close>

theorem leakable_mutex_refines_value:
  assumes "lm_run d ls s" and "lm_step d s l s'"
  shows "case l of
      Internal \<Rightarrow> lm_value d s' = lm_value d s
    | Update t a x \<Rightarrow> lm_boxes s a \<noteq> None \<and> lm_value d s' = (if lm_ptr s = Some a then x else lm_value d s)
    | Reset \<Rightarrow> lm_value d s' = d \<and> (\<forall>a. lm_boxes s a \<noteq> None \<longrightarrow> lm_boxes s' a = lm_boxes s a)"
proof -
  have I: "lm_inv d s" using assms(1) by (blast intro: lm_reachable_inv lm_run_reachable)
  show ?thesis
  proof (cases l)
    case Internal
    then show ?thesis using lm_value_internal [OF I] assms(2) by simp
  next
    case (Update t a x)
    then have "lm_pcs s t = Holding a" "s' = s\<lparr>lm_boxes := (lm_boxes s)(a := Some x)\<rparr>"
      using assms(2) by auto
    then show ?thesis
      using I Update by (auto simp: lm_inv_def lm_value_def split: option.splits)
  next
    case Reset
    then show ?thesis using assms(2) lm_reset_keeps [OF I] by simp
  qed
qed

text \<open>
  C37: no thread is ever given a box that is freed, and until the first reset all threads are given
  the same one: threads that allocate at the same time agree on the box of the winner.
\<close>

theorem leakable_mutex_agreement:
  assumes "lm_run d ls s" and "lm_pcs s t = Holding a"
  shows "lm_boxes s a \<noteq> None \<and>
    (Reset \<notin> set ls \<longrightarrow> lm_ptr s = Some a \<and> (\<forall>u b. lm_pcs s u = Holding b \<longrightarrow> b = a))"
proof -
  have "lm_inv d s" using assms(1) by (blast intro: lm_reachable_inv lm_run_reachable)
  then have "lm_boxes s a \<noteq> None" using assms(2) unfolding lm_inv_def by blast
  then show ?thesis
    using lm_single_run [OF assms(1)] assms(2) unfolding lm_single_def by (metis option.inject)
qed

subsection \<open>Witnesses\<close>

text \<open>Two threads race; the second loses and frees its box.\<close>

definition example_race :: "nat leakable" where
  "example_race = lm_publish 2 1 (lm_publish 1 0 (lm_alloc 0 2 (lm_alloc 0 1 (lm_load 2 (lm_load 1 lm_new)))))"

lemma example_race_run: "\<exists>ls. Reset \<notin> set ls \<and> lm_run 0 ls example_race"
proof -
  let ?s1 = "lm_load 1 lm_new" let ?s2 = "lm_load 2 ?s1" let ?s3 = "lm_alloc 0 1 ?s2"
  let ?s4 = "lm_alloc 0 2 ?s3" let ?s5 = "lm_publish 1 0 ?s4"
  have "lm_step 0 lm_new Internal ?s1" by (rule lm_step.Load) (simp add: lm_new_def)
  note r = lm_run.Step [OF lm_run.Start this]
  have "lm_step 0 ?s1 Internal ?s2" by (rule lm_step.Load) (simp add: lm_new_def lm_load_def)
  note r = lm_run.Step [OF r this]
  have "lm_step 0 ?s2 Internal ?s3" by (rule lm_step.Alloc) (simp add: lm_new_def lm_load_def)
  note r = lm_run.Step [OF r this]
  have "lm_step 0 ?s3 Internal ?s4" by (rule lm_step.Alloc) (simp add: lm_new_def lm_defs)
  note r = lm_run.Step [OF r this]
  have "lm_step 0 ?s4 Internal ?s5" by (rule lm_step.Publish) (simp add: lm_new_def lm_defs)
  note r = lm_run.Step [OF r this]
  have "lm_step 0 ?s5 Internal example_race"
    unfolding example_race_def by (rule lm_step.Publish) (simp add: lm_new_def lm_defs)
  note r = lm_run.Step [OF r this]
  show ?thesis by (rule exI, rule conjI [OF _ r]) simp
qed

theorem leakable_mutex_refines_value_witness:
  "lm_value 0 (leak_and_reset 0 (example_race\<lparr>lm_boxes := (lm_boxes example_race)(0 := Some 42)\<rparr>)) = (0::nat) \<and>
   lm_value 0 (example_race\<lparr>lm_boxes := (lm_boxes example_race)(0 := Some (42::nat))\<rparr>) = 42"
proof -
  obtain ls where r: "lm_run 0 ls example_race" using example_race_run by blast
  have u: "lm_step 0 example_race (Update 1 0 42) (example_race\<lparr>lm_boxes := (lm_boxes example_race)(0 := Some 42)\<rparr>)"
    by (simp add: example_race_def lm_new_def lm_defs)
  note r' = lm_run.Step [OF r u]
  have p: "lm_ptr example_race = Some 0" by (simp add: example_race_def lm_new_def lm_defs)
  show ?thesis
    using leakable_mutex_refines_value [OF r u] leakable_mutex_refines_value [OF r' lm_step.Reset] p by simp
qed

theorem leakable_mutex_agreement_witness:
  "lm_pcs example_race 1 = Holding 0 \<and> lm_pcs example_race 2 = Holding 0 \<and> lm_boxes example_race 1 = None \<and>
   lm_ptr example_race = Some 0"
proof -
  obtain ls where r: "Reset \<notin> set ls" "lm_run 0 ls example_race" using example_race_run by blast
  have h: "lm_pcs example_race 2 = Holding 0" "lm_pcs example_race 1 = Holding 0" "lm_boxes example_race 1 = None"
    by (simp_all add: example_race_def lm_new_def lm_defs)
  show ?thesis using leakable_mutex_agreement [OF r(2) h(1)] r(1) h by simp
qed

end
