(* ===== verification/Ffikit.thy ===== *)
theory Ffikit
  imports Agent Leakable_Mutex
begin

text \<open>
  \<open>rust/src/ffikit.rs\<close>: the one agent of the process, behind the lock \<open>STATE\<close>. Its operations hold
  the lock only to claim the state and to publish the result; between the two they run without it.
  \<open>STATE\<close> is a \<open>LeakableMutex\<close>, here by its value, as \<open>Leakable_Mutex\<close> justifies. A panic is
  \<open>None\<close>.
\<close>

datatype 'a agent_state = Idle | Busy | Running 'a

text \<open>
  The process: the state, what the main thread of the agent works on, and the signal backend. The
  loss counters are those of the unwinder.
\<close>

record ('w, 's, 'x, 'os) ffi_world =
  fw_state :: "'x agent agent_state mutex"
  fw_profilers :: "('w, 's) profilers"
  fw_watch :: stop_watch
  fw_backend :: "'os backend_world"

record ('w, 's, 'u, 'x, 'os) ffi_env =
  fe_agent :: "('w, 's, 'u, 'x) agent_env"
  fe_signal :: "'os signal_env"
  fe_round :: "real \<Rightarrow> f64"

text \<open>
  What a start gets from outside: the threads its call into Python registers and whether it
  returns, the HTTP client, and the time.
\<close>

record 'x start_inputs =
  si_hooks :: "(nat \<times> nat) list \<times> bool"
  si_client :: "string + 'x"
  si_now :: system_time

definition profilers_in :: "('w, 's, 'x, 'os) ffi_world \<Rightarrow> ('w, 's) profilers" where
  "profilers_in w = (fw_profilers w)\<lparr>pf_metrics := METRICS (unwinder (bw_process (fw_backend w)))\<rparr>"

definition put_profilers ::
    "('w, 's) profilers \<Rightarrow> ('w, 's, 'x, 'os) ffi_world \<Rightarrow> ('w, 's, 'x, 'os) ffi_world" where
  "put_profilers p w =
     (let bw = fw_backend w; pr = bw_process bw
      in w\<lparr>fw_profilers := p,
           fw_backend := bw\<lparr>bw_process := pr\<lparr>unwinder := (unwinder pr)\<lparr>METRICS := pf_metrics p\<rparr>\<rparr>\<rparr>\<rparr>)"

subsection \<open>run\<close>

definition create_http_client :: "string + 'x \<Rightarrow> pyroscope_error + 'x" where
  "create_http_client build =
     fst (no_dispatch_semaphore (\<lambda>_. (case build of Inl e \<Rightarrow> Inl (Reqwest e) | Inr c \<Rightarrow> Inr c, ())) ())"

definition run_claim :: "'a agent_state mutex \<Rightarrow> (pyroscope_error + unit) \<times> 'a agent_state mutex" where
  "run_claim st =
     (if mutex_poisoned st then (Inl poison_error, st)
      else case mutex_value st of
             Idle \<Rightarrow> (Inr (), st\<lparr>mutex_value := Busy\<rparr>)
           | Busy \<Rightarrow> (Inl ConcurrentOperation, st)
           | Running _ \<Rightarrow> (Inl AgentAlreadyRunning, st))"

definition set_state :: "'a agent_state \<Rightarrow> 'a agent_state mutex \<Rightarrow> (pyroscope_error + unit) \<times> 'a agent_state mutex" where
  "set_state v st =
     (if mutex_poisoned st then (Inl poison_error, st) else (Inr (), st\<lparr>mutex_value := v\<rparr>))"

definition share_buffer :: "'x agent \<Rightarrow> ('w, 's) profilers \<Rightarrow> ('w, 's) profilers" where
  "share_buffer ag p =
     (case ag_backend ag of
        None \<Rightarrow> p
      | Some b \<Rightarrow> p\<lparr>pf_buffer := fst (backend_reporter (ag_backend_config ag) b)\<rparr>)"

text \<open>The closure \<open>started\<close>: the profilers, then the HTTP client and the agent.\<close>

definition start_profilers ::
    "('w, 's, 'u, 'x, 'os) ffi_env \<Rightarrow> 'x start_inputs \<Rightarrow> pyroscope_config \<Rightarrow> ('w, 's) profilers \<Rightarrow>
     (pyroscope_error + unit) \<times> ('w, 's) profilers" where
  "start_profilers F i config p =
     (let A = fe_agent F;
          (r, mw, n) = memory_start (ae_memalloc A) (mem_config config) (pf_memalloc p, pf_native p);
          p = p\<lparr>pf_memalloc := mw, pf_native := n\<rparr>
      in case r of
           Inl err \<Rightarrow> (Inl (error_new (''failed to start memory profiler: '' @ err)), p)
         | Inr _ \<Rightarrow>
             (let (r, s) = stack_start (ae_engine A) (fe_round F) (si_hooks i) (cf_stack_config config)
                    (sample_rate config) (pf_stack p);
                  p = p\<lparr>pf_stack := s\<rparr>
              in case r of
                   Inl err \<Rightarrow> (Inl (error_new (''failed to start CPU stack sampler: '' @ err)), p)
                 | Inr _ \<Rightarrow> (Inr (), p)))"

definition run_started ::
    "('w, 's, 'u, 'x, 'os) ffi_env \<Rightarrow> 'x start_inputs \<Rightarrow> agent_builder \<Rightarrow> ('w, 's, 'x, 'os) ffi_world \<Rightarrow>
     ((pyroscope_error + 'x agent) \<times> ('w, 's, 'x, 'os) ffi_world) option" where
  "run_started F i ab w =
     (let (r, p) = start_profilers F i (ab_config ab) (fw_profilers w)
      in case r of
           Inl e \<Rightarrow> Some (Inl e, w\<lparr>fw_profilers := p\<rparr>)
         | Inr _ \<Rightarrow>
             (case create_http_client (si_client i) of
                Inl e \<Rightarrow> Some (Inl e, w\<lparr>fw_profilers := p\<rparr>)
              | Inr http_client \<Rightarrow>
                  do { (r, bw) \<leftarrow> agent_build (fe_signal F) ab http_client (fw_backend w);
                       case r of
                         Inl e \<Rightarrow> Some (Inl e, w\<lparr>fw_profilers := p, fw_backend := bw\<rparr>)
                       | Inr ag \<Rightarrow>
                           Some (Inr (agent_start ag),
                             w\<lparr>fw_profilers := share_buffer ag p, fw_watch := stop_watch_new (si_now i),
                               fw_backend := bw\<rparr>) }))"

definition stop_profilers ::
    "('w, 's, 'u, 'x, 'os) ffi_env \<Rightarrow> ('w, 's) profilers \<Rightarrow> ('w, 's) profilers option" where
  "stop_profilers F p =
     (let A = fe_agent F;
          (mw, n) = memory_stop (ae_memalloc A) (pf_memalloc p, pf_native p);
          (s, n) = stack_stop (ae_engine A) (pf_stack p, n)
      in do { i \<leftarrow> interner_clear (nt_interner n);
              Some (p\<lparr>pf_memalloc := mw, pf_stack := s, pf_native := n\<lparr>nt_interner := i\<rparr>\<rparr>) })"

text \<open>The match on \<open>started\<close>.\<close>

definition run_finish ::
    "('w, 's, 'u, 'x, 'os) ffi_env \<Rightarrow> pyroscope_error + 'x agent \<Rightarrow> ('w, 's, 'x, 'os) ffi_world \<Rightarrow>
     ((pyroscope_error + unit) \<times> ('w, 's, 'x, 'os) ffi_world) option" where
  "run_finish F started w =
     (case started of
        Inr ag \<Rightarrow> (let (r, st) = set_state (Running ag) (fw_state w) in Some (r, w\<lparr>fw_state := st\<rparr>))
      | Inl err \<Rightarrow>
          do { p \<leftarrow> stop_profilers F (fw_profilers w);
               let (r, st) = set_state Idle (fw_state w);
               Some (case r of Inl e \<Rightarrow> Inl e | Inr _ \<Rightarrow> Inl err, w\<lparr>fw_profilers := p, fw_state := st\<rparr>) })"

definition ffikit_run ::
    "('w, 's, 'u, 'x, 'os) ffi_env \<Rightarrow> 'x start_inputs \<Rightarrow> agent_builder \<Rightarrow> ('w, 's, 'x, 'os) ffi_world \<Rightarrow>
     ((pyroscope_error + unit) \<times> ('w, 's, 'x, 'os) ffi_world) option" where
  "ffikit_run F i ab w =
     (case run_claim (fw_state w) of
        (Inl e, st) \<Rightarrow> Some (Inl e, w\<lparr>fw_state := st\<rparr>)
      | (Inr _, st) \<Rightarrow>
          do { (started, w) \<leftarrow> run_started F i ab (w\<lparr>fw_state := st\<rparr>); run_finish F started w })"

subsection \<open>Tags and stop\<close>

definition ffikit_add_thread_tag ::
    "nat \<Rightarrow> tag \<Rightarrow> 'x agent agent_state mutex \<Rightarrow> (pyroscope_error + unit) \<times> 'x agent agent_state mutex" where
  "ffikit_add_thread_tag tid tg st =
     (if mutex_poisoned st then (Inl poison_error, st)
      else case mutex_value st of
             Running ag \<Rightarrow>
               (let (r, ag) = agent_add_thread_tag tid tg ag in (r, st\<lparr>mutex_value := Running ag\<rparr>))
           | _ \<Rightarrow> (Inl AgentNotRunning, st))"

definition ffikit_remove_thread_tag ::
    "nat \<Rightarrow> tag \<Rightarrow> 'x agent agent_state mutex \<Rightarrow> (pyroscope_error + unit) \<times> 'x agent agent_state mutex" where
  "ffikit_remove_thread_tag tid tg st =
     (if mutex_poisoned st then (Inl poison_error, st)
      else case mutex_value st of
             Running ag \<Rightarrow>
               (let (r, ag) = agent_remove_thread_tag tid tg ag in (r, st\<lparr>mutex_value := Running ag\<rparr>))
           | _ \<Rightarrow> (Inl AgentNotRunning, st))"

definition stop_claim :: "'a agent_state mutex \<Rightarrow> (pyroscope_error + 'a) \<times> 'a agent_state mutex" where
  "stop_claim st =
     (if mutex_poisoned st then (Inl poison_error, st)
      else case mutex_value st of
             Running ag \<Rightarrow> (Inr ag, st\<lparr>mutex_value := Busy\<rparr>)
           | Busy \<Rightarrow> (Inl ConcurrentOperation, st)
           | Idle \<Rightarrow> (Inl AgentNotRunning, st))"

definition agent_reporter :: "'x agent \<Rightarrow> backend_config option option" where
  "agent_reporter ag = map_option (\<lambda>b. snd (backend_reporter (ag_backend_config ag) b)) (ag_backend ag)"

text \<open>\<open>joined\<close> and \<open>after_panic\<close> are what joining the threads of the backend and of the agent finds.\<close>

definition stop_join ::
    "('w, 's, 'u, 'x, 'os) ffi_env \<Rightarrow> system_time \<Rightarrow> (pyroscope_error + unit) option \<Rightarrow> ('w, 's) profilers \<Rightarrow>
     'x agent \<Rightarrow> ('w, 's, 'x, 'os) ffi_world \<Rightarrow> (pyroscope_error + unit) \<times> ('w, 's, 'x, 'os) ffi_world" where
  "stop_join F now joined after_panic ag =
     no_dispatch_semaphore (\<lambda>w.
       let (res, p, _, bw) = agent_stop (fe_agent F) (fe_signal F) (agent_reporter ag) now joined after_panic
             (fw_watch w, profilers_in w) ag (fw_backend w)
       in (res, put_profilers p (w\<lparr>fw_backend := bw\<rparr>)))"

definition stop_finish ::
    "('w, 's, 'u, 'x, 'os) ffi_env \<Rightarrow> pyroscope_error + unit \<Rightarrow> ('w, 's, 'x, 'os) ffi_world \<Rightarrow>
     ((pyroscope_error + unit) \<times> ('w, 's, 'x, 'os) ffi_world) option" where
  "stop_finish F res w =
     do { p \<leftarrow> stop_profilers F (fw_profilers w);
          let (r, st) = set_state Idle (fw_state w);
          Some (case r of Inl e \<Rightarrow> Inl e | Inr _ \<Rightarrow> res, w\<lparr>fw_profilers := p, fw_state := st\<rparr>) }"

definition ffikit_stop ::
    "('w, 's, 'u, 'x, 'os) ffi_env \<Rightarrow> system_time \<Rightarrow> (pyroscope_error + unit) option \<Rightarrow> ('w, 's) profilers \<Rightarrow>
     ('w, 's, 'x, 'os) ffi_world \<Rightarrow> ((pyroscope_error + unit) \<times> ('w, 's, 'x, 'os) ffi_world) option" where
  "ffikit_stop F now joined after_panic w =
     (case stop_claim (fw_state w) of
        (Inl e, st) \<Rightarrow> Some (Inl e, w\<lparr>fw_state := st\<rparr>)
      | (Inr ag, st) \<Rightarrow>
          (let (res, w) = stop_join F now joined after_panic ag (w\<lparr>fw_state := st\<rparr>) in stop_finish F res w))"

text \<open>The child's state after a fork; the box the parent used is leaked.\<close>

definition ffikit_at_fork_after_in_child :: "'a agent_state mutex \<Rightarrow> 'a agent_state mutex" where
  "ffikit_at_fork_after_in_child st = mutex_new Idle"

subsection \<open>Threads\<close>

text \<open>
  Python threads call \<open>run\<close> and \<open>stop\<close> and change tags, in any interleaving of the locked parts and
  the parts between them. The agent's main thread wakes and its session manager takes its turns
  while the agent is published, and also (\<open>Held_\<close>) while the thread inside \<open>run\<close> has started it and
  not published it, or the thread inside \<open>stop\<close> has claimed it and not joined it. At any moment the
  native profilers may push samples and the sampler may move on its own, or die. A call that is
  refused changes nothing and has no step. A panic of \<open>run\<close> comes from building the agent, after the
  profilers were started, and leaves the state claimed.
\<close>

datatype 'x thread_pc =
    At_Rest
  | Run_Claimed agent_builder
  | Run_Started "pyroscope_error + 'x agent"
  | Stop_Claimed "'x agent"
  | Stop_Joined "pyroscope_error + unit"

text \<open>The agent a thread inside a call has, if it has one.\<close>

fun held_agent :: "'x thread_pc \<Rightarrow> 'x agent option" where
  "held_agent (Run_Started (Inr ag)) = Some ag"
| "held_agent (Stop_Claimed ag) = Some ag"
| "held_agent _ = None"

fun hold_agent :: "'x agent \<Rightarrow> 'x thread_pc \<Rightarrow> 'x thread_pc" where
  "hold_agent ag (Run_Started (Inr _)) = Run_Started (Inr ag)"
| "hold_agent ag (Stop_Claimed _) = Stop_Claimed ag"
| "hold_agent ag pc = pc"

text \<open>What the main thread does on waking at \<open>now\<close>; a panic ends it.\<close>

definition agent_wake ::
    "('w, 's, 'u, 'x, 'os) ffi_env \<Rightarrow> system_time \<Rightarrow> ('w, 's) profilers \<Rightarrow> 'x agent \<Rightarrow>
     ('w, 's, 'x, 'os) ffi_world \<Rightarrow> 'x agent \<times> ('w, 's, 'x, 'os) ffi_world" where
  "agent_wake F now after_panic ag w =
     (case main_loop (fe_agent F) (agent_reporter ag) (ag_config ag) [Timed_Out now]
             (fw_watch w, profilers_in w, ag_manager ag) of
        None \<Rightarrow> (ag\<lparr>ag_started := False\<rparr>, put_profilers after_panic w)
      | Some (res, sw, p, m) \<Rightarrow>
          (ag\<lparr>ag_manager := m, ag_started := (res = None)\<rparr>, put_profilers p (w\<lparr>fw_watch := sw\<rparr>)))"

text \<open>A panic of a snapshot leaves the hooks and the sampler where one of its steps left them.\<close>

definition panic_leaves ::
    "('w, 's, 'u, 'x) agent_env \<Rightarrow> ('w, 's) profilers \<Rightarrow> ('w, 's) profilers \<Rightarrow> bool" where
  "panic_leaves A p p' \<longleftrightarrow>
     pf_memalloc p' \<in> {pf_memalloc p, snd (memalloc_heap_py (ae_memalloc A) (pf_memalloc p))} \<and>
     pf_stack p' \<in> {pf_stack p, snd (report_sampling_thread_error (ae_engine A) (pf_stack p))}"

inductive ffi_step ::
    "('w, 's, 'u, 'x, 'os) ffi_env \<Rightarrow> (nat \<Rightarrow> 'x thread_pc) \<times> ('w, 's, 'x, 'os) ffi_world \<Rightarrow>
     (nat \<Rightarrow> 'x thread_pc) \<times> ('w, 's, 'x, 'os) ffi_world \<Rightarrow> bool" for F where
  Run_Claim: "pcs t = At_Rest \<Longrightarrow> run_claim (fw_state w) = (Inr (), st) \<Longrightarrow>
    ffi_step F (pcs, w) (pcs(t := Run_Claimed ab), w\<lparr>fw_state := st\<rparr>)"
| Run_Start: "pcs t = Run_Claimed ab \<Longrightarrow> run_started F i ab w = Some (r, w') \<Longrightarrow>
    ffi_step F (pcs, w) (pcs(t := Run_Started r), w')"
| Run_Panic: "pcs t = Run_Claimed ab \<Longrightarrow> run_started F i ab w = None \<Longrightarrow>
    start_profilers F i (ab_config ab) (fw_profilers w) = (r, p) \<Longrightarrow>
    ffi_step F (pcs, w) (pcs(t := At_Rest), w\<lparr>fw_profilers := p, fw_backend := bw\<rparr>)"
| Run_Finish: "pcs t = Run_Started r \<Longrightarrow> run_finish F r w = Some (res, w') \<Longrightarrow>
    ffi_step F (pcs, w) (pcs(t := At_Rest), w')"
| Stop_Claim: "pcs t = At_Rest \<Longrightarrow> stop_claim (fw_state w) = (Inr ag, st) \<Longrightarrow>
    ffi_step F (pcs, w) (pcs(t := Stop_Claimed ag), w\<lparr>fw_state := st\<rparr>)"
| Stop_Join: "pcs t = Stop_Claimed ag \<Longrightarrow> panic_leaves (fe_agent F) (profilers_in w) p \<Longrightarrow>
    stop_join F now joined p ag w = (res, w') \<Longrightarrow> ffi_step F (pcs, w) (pcs(t := Stop_Joined res), w')"
| Stop_Finish: "pcs t = Stop_Joined res \<Longrightarrow> stop_finish F res w = Some (r, w') \<Longrightarrow>
    ffi_step F (pcs, w) (pcs(t := At_Rest), w')"
| Add_Tag: "pcs t = At_Rest \<Longrightarrow> ffikit_add_thread_tag tid tg (fw_state w) = (r, st) \<Longrightarrow>
    ffi_step F (pcs, w) (pcs, w\<lparr>fw_state := st\<rparr>)"
| Remove_Tag: "pcs t = At_Rest \<Longrightarrow> ffikit_remove_thread_tag tid tg (fw_state w) = (r, st) \<Longrightarrow>
    ffi_step F (pcs, w) (pcs, w\<lparr>fw_state := st\<rparr>)"
| Main_Wake: "mutex_value (fw_state w) = Running ag \<Longrightarrow> ag_started ag \<Longrightarrow>
    panic_leaves (fe_agent F) (profilers_in w) p \<Longrightarrow> agent_wake F now p ag w = (ag', w') \<Longrightarrow>
    ffi_step F (pcs, w) (pcs, w'\<lparr>fw_state := (fw_state w')\<lparr>mutex_value := Running ag'\<rparr>\<rparr>)"
| Manager_Turn: "mutex_value (fw_state w) = Running ag \<Longrightarrow>
    ag' = ag\<lparr>ag_manager := manager_turn (ae_upload (fe_agent F)) (ag_manager ag)\<rparr> \<Longrightarrow>
    ffi_step F (pcs, w) (pcs, w\<lparr>fw_state := (fw_state w)\<lparr>mutex_value := Running ag'\<rparr>\<rparr>)"
| Held_Wake: "held_agent (pcs t) = Some ag \<Longrightarrow> ag_started ag \<Longrightarrow>
    panic_leaves (fe_agent F) (profilers_in w) p \<Longrightarrow> agent_wake F now p ag w = (ag', w') \<Longrightarrow>
    ffi_step F (pcs, w) (pcs(t := hold_agent ag' (pcs t)), w')"
| Held_Turn: "held_agent (pcs t) = Some ag \<Longrightarrow>
    ag' = ag\<lparr>ag_manager := manager_turn (ae_upload (fe_agent F)) (ag_manager ag)\<rparr> \<Longrightarrow>
    ffi_step F (pcs, w) (pcs(t := hold_agent ag' (pcs t)), w)"
| Native_Calls: "native_calls_run cs (pf_native (fw_profilers w)) = Some n \<Longrightarrow>
    ffi_step F (pcs, w) (pcs, w\<lparr>fw_profilers := (fw_profilers w)\<lparr>pf_native := n\<rparr>\<rparr>)"
| Sampler_Moves: "eng_moves (ae_engine (fe_agent F)) (sk_engine (pf_stack (fw_profilers w))) eng \<Longrightarrow>
    s = (pf_stack (fw_profilers w))\<lparr>sk_engine := eng\<rparr> \<Longrightarrow>
    ffi_step F (pcs, w) (pcs, w\<lparr>fw_profilers := (fw_profilers w)\<lparr>pf_stack := s\<rparr>\<rparr>)"

text \<open>
  \<open>on_m\<close> and \<open>on_s\<close> say whether the allocation hooks are installed and the sampler is at work.
\<close>

inductive ffi_reachable ::
    "('w, 's, 'u, 'x, 'os) ffi_env \<Rightarrow> ('w \<Rightarrow> bool) \<Rightarrow> ('s \<Rightarrow> bool) \<Rightarrow>
     (nat \<Rightarrow> 'x thread_pc) \<times> ('w, 's, 'x, 'os) ffi_world \<Rightarrow> bool" for F on_m on_s where
  Start: "fw_state w = mutex_new Idle \<Longrightarrow> \<not> on_m (pf_memalloc (fw_profilers w)) \<Longrightarrow>
    pf_stack (fw_profilers w) = stack_state_new eng \<Longrightarrow> \<not> on_s eng \<Longrightarrow>
    ffi_reachable F on_m on_s (\<lambda>_. At_Rest, w)"
| Next: "ffi_reachable F on_m on_s c \<Longrightarrow> ffi_step F c c' \<Longrightarrow> ffi_reachable F on_m on_s c'"

subsection \<open>The invariant\<close>

text \<open>
  The hooks are as a configuration asks and the sampler was started if it asks for it, or both are
  off (\<open>None\<close>).
\<close>

definition profilers_on ::
    "('w \<Rightarrow> bool) \<Rightarrow> pyroscope_config option \<Rightarrow> ('w, 's) profilers \<Rightarrow> bool" where
  "profilers_on on_m config p \<longleftrightarrow>
     on_m (pf_memalloc p) = (case config of None \<Rightarrow> False | Some c \<Rightarrow> mem_enabled (mem_config c)) \<and>
     STARTED (pf_stack p) = (case config of None \<Rightarrow> False | Some c \<Rightarrow> st_enabled (cf_stack_config c))"

fun pc_profilers :: "('w \<Rightarrow> bool) \<Rightarrow> 'x thread_pc \<Rightarrow> ('w, 's) profilers \<Rightarrow> bool" where
  "pc_profilers on_m (Run_Claimed ab) p = profilers_on on_m None p"
| "pc_profilers on_m (Run_Started (Inr ag)) p = profilers_on on_m (Some (ag_config ag)) p"
| "pc_profilers on_m (Stop_Claimed ag) p = profilers_on on_m (Some (ag_config ag)) p"
| "pc_profilers on_m _ p = True"

definition claim_inv ::
    "('w \<Rightarrow> bool) \<Rightarrow> ('s \<Rightarrow> bool) \<Rightarrow> (nat \<Rightarrow> 'x thread_pc) \<times> ('w, 's, 'x, 'os) ffi_world \<Rightarrow> bool" where
  "claim_inv on_m on_s c \<longleftrightarrow>
     (let (pcs, w) = c; p = fw_profilers w in
      \<not> mutex_poisoned (fw_state w) \<and> stack_inv on_s (pf_stack p) \<and>
      (case mutex_value (fw_state w) of
         Idle \<Rightarrow> pcs = (\<lambda>_. At_Rest) \<and> profilers_on on_m None p
       | Busy \<Rightarrow> (\<exists>t. (\<forall>u. u \<noteq> t \<longrightarrow> pcs u = At_Rest) \<and> pc_profilers on_m (pcs t) p)
       | Running ag \<Rightarrow> pcs = (\<lambda>_. At_Rest) \<and> profilers_on on_m (Some (ag_config ag)) p))"

lemma profilers_on_cong:
  "on_m (pf_memalloc p') = on_m (pf_memalloc p) \<Longrightarrow> STARTED (pf_stack p') = STARTED (pf_stack p) \<Longrightarrow>
   profilers_on on_m c p' = profilers_on on_m c p"
  by (simp add: profilers_on_def)

lemma profilers_in_simps [simp]:
  "pf_memalloc (profilers_in w) = pf_memalloc (fw_profilers w)" "pf_stack (profilers_in w) = pf_stack (fw_profilers w)"
  "pf_native (profilers_in w) = pf_native (fw_profilers w)" "pf_buffer (profilers_in w) = pf_buffer (fw_profilers w)"
  by (simp_all add: profilers_in_def)

lemma put_profilers_simps [simp]:
  "fw_profilers (put_profilers p w) = p" "fw_state (put_profilers p w) = fw_state w"
  by (simp_all add: put_profilers_def Let_def)

lemma memory_dump_hooks:
  assumes "memalloc_hooks M on_m" "memory_dump_pprof M wire heap tr (w, n) = Some (r, w', n')"
  shows "on_m w' = on_m w"
proof -
  have "w' = w \<or> w' = snd (memalloc_heap_py M w)"
    using assms(2) by (auto simp: memory_dump_pprof_def split: if_splits prod.splits Option.bind_splits)
  then show ?thesis using assms(1) by (auto simp: memalloc_hooks_def)
qed

lemma sampling_error_inv:
  assumes "engine_runs E on_s" "stack_inv on_s s"
  shows "stack_inv on_s (snd (report_sampling_thread_error E s)) \<and>
    STARTED (snd (report_sampling_thread_error E s)) = STARTED s"
  using assms by (auto simp: report_sampling_thread_error_def stack_inv_def engine_runs_def case_prod_beta)

lemma snapshot_keeps:
  assumes "memalloc_hooks (ae_memalloc A) on_m" "engine_runs (ae_engine A) on_s"
    and "stack_inv on_s (pf_stack p)" "snapshot A reporter config now (sw, p, m) = Some (r, sw', p', m')"
  shows "on_m (pf_memalloc p') = on_m (pf_memalloc p) \<and> stack_inv on_s (pf_stack p') \<and>
    STARTED (pf_stack p') = STARTED (pf_stack p)"
proof -
  have 1: "on_m (pf_memalloc p1) = on_m (pf_memalloc p) \<and> pf_stack p1 = pf_stack p"
    if "snapshot_memory A config tr p = Some (b, p1)" for tr b p1
    using that by (auto simp: snapshot_memory_def memory_dump_hooks [OF assms(1)] split: if_splits Option.bind_splits)
  have 2: "pf_memalloc p2 = pf_memalloc p1 \<and> stack_inv on_s (pf_stack p2) \<and> STARTED (pf_stack p2) = STARTED (pf_stack p1)"
    if "snapshot_stack A config tr p1 = Some (b, p2)" "stack_inv on_s (pf_stack p1)" for tr b p1 p2
    using that sampling_error_inv [OF assms(2) that(2)]
    by (auto simp: snapshot_stack_def Let_def split: if_splits Option.bind_splits prod.splits)
  have 3: "pf_memalloc p3 = pf_memalloc p2 \<and> pf_stack p3 = pf_stack p2"
    if "snapshot_reporter A reporter config tr p2 = Some (q, p3)" for tr q p2 p3
    using that by (auto simp: snapshot_reporter_def split: option.splits Option.bind_splits)
  show ?thesis
    using assms(3,4) 1 2 3
    by (fastforce simp: snapshot_def Let_def split: sum.splits Option.bind_splits if_splits prod.splits)
qed

lemma panic_keeps:
  assumes "memalloc_hooks (ae_memalloc A) on_m" "engine_runs (ae_engine A) on_s"
    and "stack_inv on_s (pf_stack p)" "panic_leaves A p p'"
  shows "on_m (pf_memalloc p') = on_m (pf_memalloc p) \<and> stack_inv on_s (pf_stack p') \<and>
    STARTED (pf_stack p') = STARTED (pf_stack p)"
  using assms(1,3,4) sampling_error_inv [OF assms(2,3)]
  by (auto simp: panic_leaves_def memalloc_hooks_def)

lemma agent_build_config:
  "agent_build S ab client bw = Some (Inr ag, bw') \<Longrightarrow> ag_config ag = ab_config ab"
  by (auto simp: agent_build_def split: Option.bind_splits sum.splits)

lemma share_buffer_simps [simp]:
  "pf_memalloc (share_buffer ag p) = pf_memalloc p" "pf_stack (share_buffer ag p) = pf_stack p"
  by (simp_all add: share_buffer_def split: option.splits)

lemma start_profilers_inv:
  assumes M: "memalloc_hooks (ae_memalloc (fe_agent F)) on_m" and E: "engine_runs (ae_engine (fe_agent F)) on_s"
    and I: "stack_inv on_s (pf_stack p)" "profilers_on on_m None p"
    and r: "start_profilers F i config p = (r, p')"
  shows "stack_inv on_s (pf_stack p') \<and> (r = Inr () \<longrightarrow> profilers_on on_m (Some config) p' \<and>
    on_s (sk_engine (pf_stack p')) = st_enabled (cf_stack_config config))"
proof -
  define A where "A = fe_agent F"
  obtain rm mw n where m: "memory_start (ae_memalloc A) (mem_config config) (pf_memalloc p, pf_native p) = (rm, mw, n)"
    by (metis surj_pair)
  obtain rs s where s: "stack_start (ae_engine A) (fe_round F) (si_hooks i) (cf_stack_config config)
      (sample_rate config) (pf_stack p) = (rs, s)" by fastforce
  have off: "\<not> on_m (pf_memalloc p)" "\<not> STARTED (pf_stack p)" using I(2) by (simp_all add: profilers_on_def)
  have on: "rm = Inr () \<Longrightarrow> on_m mw = mem_enabled (mem_config config)"
    using memory_profiler.start_on [OF M [folded A_def] _ m] off(1) by simp
  have st: "stack_inv on_s s \<and> (rs = Inr () \<longrightarrow> STARTED s = st_enabled (cf_stack_config config) \<and>
      on_s (sk_engine s) = st_enabled (cf_stack_config config))"
    using stack_start_inv [OF E [folded A_def] I(1) off(2) s] .
  note R = r [unfolded start_profilers_def, folded A_def, unfolded Let_def m prod.case]
  show ?thesis
  proof (cases rm)
    case (Inl e)
    then show ?thesis using R I(1) by auto
  next
    case (Inr u)
    then show ?thesis using R s st on by (cases rs) (auto simp: profilers_on_def)
  qed
qed

lemma run_started_inv:
  assumes M: "memalloc_hooks (ae_memalloc (fe_agent F)) on_m" and E: "engine_runs (ae_engine (fe_agent F)) on_s"
    and I: "stack_inv on_s (pf_stack (fw_profilers w))" "profilers_on on_m None (fw_profilers w)"
    and r: "run_started F i ab w = Some (r, w')"
  shows "fw_state w' = fw_state w \<and> stack_inv on_s (pf_stack (fw_profilers w')) \<and>
    (\<forall>ag. r = Inr ag \<longrightarrow> ag_config ag = ab_config ab \<and> profilers_on on_m (Some (ab_config ab)) (fw_profilers w') \<and>
       on_s (sk_engine (pf_stack (fw_profilers w'))) = st_enabled (cf_stack_config (ab_config ab)))"
proof -
  obtain q p where p: "start_profilers F i (ab_config ab) (fw_profilers w) = (q, p)" by fastforce
  note S = start_profilers_inv [OF M E I p]
  have share: "profilers_on on_m c (share_buffer ag p) = profilers_on on_m c p" for c and ag :: "'d agent"
    by (rule profilers_on_cong) simp_all
  show ?thesis
    using r S unfolding run_started_def p
    by (auto simp: share agent_start_def dest: agent_build_config split: sum.splits Option.bind_splits)
qed

text \<open>Stopping never fails, whatever state the profilers are in.\<close>

lemma stop_profilers_any:
  assumes M: "memalloc_hooks (ae_memalloc (fe_agent F)) on_m" and E: "engine_runs (ae_engine (fe_agent F)) on_s"
  shows "\<exists>p'. stop_profilers F p = Some p' \<and> profilers_on on_m None p' \<and>
    interned (nt_interner (pf_native p')) = [('''', 0)] \<and>
    (\<forall>bt. \<not> mutex_poisoned (builder_for bt (pf_native p)) \<longrightarrow> window (builder_for bt (pf_native p')) []) \<and>
    (stack_inv on_s (pf_stack p) \<longrightarrow> stack_inv on_s (pf_stack p')) \<and>
    ((on_s (sk_engine (pf_stack p)) \<longrightarrow> STARTED (pf_stack p)) \<longrightarrow> \<not> on_s (sk_engine (pf_stack p')))"
proof -
  obtain mw n where m: "memory_stop (ae_memalloc (fe_agent F)) (pf_memalloc p, pf_native p) = (mw, n)"
    by (metis surj_pair)
  obtain s n' where s: "stack_stop (ae_engine (fe_agent F)) (pf_stack p, n) = (s, n')" by (metis surj_pair)
  have off: "\<not> on_m mw" using memory_profiler.stop_off [OF M, of "(pf_memalloc p, pf_native p)"] m by simp
  have S: "\<not> STARTED s" "(on_s (sk_engine (pf_stack p)) \<longrightarrow> STARTED (pf_stack p)) \<longrightarrow> \<not> on_s (sk_engine s)"
    using s E by (auto simp: stack_stop_def engine_runs_def Let_def split: if_splits)
  have SI: "stack_inv on_s (pf_stack p) \<longrightarrow> stack_inv on_s s"
    using stack_sampler.stop_off [where s = "(pf_stack p, n)" and E = "ae_engine (fe_agent F)" and running = on_s] E s by simp
  have n': "n' = stack_clear_samples (memory_clear_samples (pf_native p))"
    using m s by (auto simp: memory_stop_def stack_stop_def Let_def)
  have w: "window (builder_for bt (n'\<lparr>nt_interner := i\<rparr>)) []" if "\<not> mutex_poisoned (builder_for bt (pf_native p))" for bt i
    using that window_clear [of "nt_memory (pf_native p)"] window_clear [of "nt_cpu_wall (pf_native p)"]
      window_clear [of "nt_oncpu (pf_native p)"]
    by (cases bt) (simp_all add: n' builder_for_def stack_clear_samples_def memory_clear_samples_def)
  show ?thesis
    using off S SI w by (simp add: stop_profilers_def m s interner_clear_def st_new_eq profilers_on_def Let_def)
qed

lemma stop_profilers_off:
  assumes "memalloc_hooks (ae_memalloc (fe_agent F)) on_m" "engine_runs (ae_engine (fe_agent F)) on_s"
    and "stack_inv on_s (pf_stack p)"
  shows "\<exists>p'. stop_profilers F p = Some p' \<and> stack_inv on_s (pf_stack p') \<and> profilers_on on_m None p' \<and>
    interned (nt_interner (pf_native p')) = [('''', 0)]"
  using stop_profilers_any [OF assms(1,2), of p] assms(3) by blast

lemma start_profilers_stack:
  assumes "\<not> st_enabled (cf_stack_config config)" "start_profilers F i config p = (r, p')"
  shows "pf_stack p' = pf_stack p"
  using assms by (auto simp: start_profilers_def stack_start_def Let_def split: prod.splits sum.splits)

lemma wake_keeps:
  assumes "memalloc_hooks (ae_memalloc (fe_agent F)) on_m" "engine_runs (ae_engine (fe_agent F)) on_s"
    and "stack_inv on_s (pf_stack (fw_profilers w))" "panic_leaves (fe_agent F) (profilers_in w) p"
    and "agent_wake F now p ag w = (ag', w')"
  shows "fw_state w' = fw_state w \<and> ag_config ag' = ag_config ag \<and>
    on_m (pf_memalloc (fw_profilers w')) = on_m (pf_memalloc (fw_profilers w)) \<and>
    stack_inv on_s (pf_stack (fw_profilers w')) \<and> STARTED (pf_stack (fw_profilers w')) = STARTED (pf_stack (fw_profilers w))"
proof -
  have i: "stack_inv on_s (pf_stack (profilers_in w))" using assms(3) by simp
  show ?thesis
  proof (cases "main_loop (fe_agent F) (agent_reporter ag) (ag_config ag) [Timed_Out now]
             (fw_watch w, profilers_in w, ag_manager ag)")
    case None
    then show ?thesis using panic_keeps [OF assms(1,2) i assms(4)] assms(5) by (auto simp: agent_wake_def)
  next
    case (Some x)
    obtain res sw q m where x: "x = (res, sw, q, m)" by (cases x)
    obtain r where "snapshot (fe_agent F) (agent_reporter ag) (ag_config ag) now
        (fw_watch w, profilers_in w, ag_manager ag) = Some (r, sw, q, m)"
      using Some by (auto simp: x split: Option.bind_splits sum.splits)
    from snapshot_keeps [OF assms(1,2) i this] show ?thesis
      using Some assms(5) by (auto simp: agent_wake_def x)
  qed
qed

lemma stop_join_keeps:
  assumes "memalloc_hooks (ae_memalloc (fe_agent F)) on_m" "engine_runs (ae_engine (fe_agent F)) on_s"
    and "stack_inv on_s (pf_stack (fw_profilers w))" "panic_leaves (fe_agent F) (profilers_in w) p"
    and "stop_join F now joined p ag w = (res, w')"
  shows "res = Inr () \<and> fw_state w' = fw_state w \<and> stack_inv on_s (pf_stack (fw_profilers w'))"
proof -
  have i: "stack_inv on_s (pf_stack (profilers_in w))" using assms(3) by simp
  obtain res2 q a bw where s: "agent_stop (fe_agent F) (fe_signal F) (agent_reporter ag) now joined p
      (fw_watch w, profilers_in w) ag (fw_backend w) = (res2, q, a, bw)" by (metis prod_cases4)
  have q: "res2 = Inr () \<and> stack_inv on_s (pf_stack q)"
  proof (cases "ag_started ag")
    case False
    then show ?thesis using s i by (auto simp: agent_stop_def split: prod.splits)
  next
    case True
    show ?thesis
    proof (cases "main_loop (fe_agent F) (agent_reporter ag) (ag_config ag) [Disconnected now]
             (fw_watch w, profilers_in w, ag_manager ag)")
      case None
      then show ?thesis using s True panic_keeps [OF assms(1,2) i assms(4)]
        by (auto simp: agent_stop_def split: prod.splits)
    next
      case (Some x)
      obtain r sw q' m where x: "x = (r, sw, q', m)" by (cases x)
      obtain r1 where "snapshot (fe_agent F) (agent_reporter ag) (ag_config ag) now
          (fw_watch w, profilers_in w, ag_manager ag) = Some (r1, sw, q', m)"
        using Some by (auto simp: x split: Option.bind_splits)
      from snapshot_keeps [OF assms(1,2) i this] show ?thesis
        using s True Some by (auto simp: agent_stop_def x simp del: main_loop.simps split: prod.splits)
    qed
  qed
  show ?thesis using assms(5) q by (auto simp: stop_join_def no_dispatch_semaphore_def s)
qed

inductive_cases ffi_stepE: "ffi_step F (pcs, w) c'"

lemma busy_thread:
  assumes "claim_inv on_m on_s (pcs, w)" "pcs t \<noteq> At_Rest"
  shows "mutex_value (fw_state w) = Busy \<and> (\<forall>u. u \<noteq> t \<longrightarrow> pcs u = At_Rest) \<and>
    pc_profilers on_m (pcs t) (fw_profilers w)"
proof -
  have "mutex_value (fw_state w) = Busy"
    using assms by (cases "mutex_value (fw_state w)") (simp_all add: claim_inv_def Let_def)
  moreover obtain v where v: "\<forall>u. u \<noteq> v \<longrightarrow> pcs u = At_Rest" "pc_profilers on_m (pcs v) (fw_profilers w)"
    using assms(1) calculation by (auto simp: claim_inv_def Let_def)
  moreover have "v = t" using v(1) assms(2) by metis
  ultimately show ?thesis by blast
qed

lemma claim_inv_busyI:
  assumes "\<not> mutex_poisoned (fw_state w)" "stack_inv on_s (pf_stack (fw_profilers w))"
    and "mutex_value (fw_state w) = Busy" "\<forall>u. u \<noteq> t \<longrightarrow> pcs u = At_Rest" "pc_profilers on_m pc (fw_profilers w)"
  shows "claim_inv on_m on_s (pcs(t := pc), w)"
proof -
  have "(\<forall>u. u \<noteq> t \<longrightarrow> (pcs(t := pc)) u = At_Rest) \<and> pc_profilers on_m ((pcs(t := pc)) t) (fw_profilers w)"
    using assms(4,5) by simp
  then show ?thesis unfolding claim_inv_def using assms(1-3) by auto
qed

text \<open>The invariant reads of the profilers only the hooks and the state of the sampler.\<close>

lemma pc_profilers_cong:
  "on_m (pf_memalloc p') = on_m (pf_memalloc p) \<Longrightarrow> STARTED (pf_stack p') = STARTED (pf_stack p) \<Longrightarrow>
   pc_profilers on_m pc p' = pc_profilers on_m pc p"
  using profilers_on_cong [of on_m p' p] by (cases pc rule: held_agent.cases) simp_all

lemma claim_inv_profilers:
  assumes "claim_inv on_m on_s (pcs, w)" "on_m (pf_memalloc p) = on_m (pf_memalloc (fw_profilers w))"
    and "STARTED (pf_stack p) = STARTED (pf_stack (fw_profilers w))" "stack_inv on_s (pf_stack p)"
  shows "claim_inv on_m on_s (pcs, w\<lparr>fw_profilers := p\<rparr>)"
  using assms(1,4) profilers_on_cong [OF assms(2,3)] pc_profilers_cong [OF assms(2,3)]
  by (cases "mutex_value (fw_state w)") (auto simp: claim_inv_def Let_def)

lemma hold_agent_profilers:
  assumes "held_agent pc = Some ag" "ag_config ag' = ag_config ag" "pc_profilers on_m pc p"
    and "on_m (pf_memalloc p') = on_m (pf_memalloc p)" "STARTED (pf_stack p') = STARTED (pf_stack p)"
  shows "pc_profilers on_m (hold_agent ag' pc) p'"
  using assms(1-3) profilers_on_cong [OF assms(4,5)]
  by (cases pc rule: held_agent.cases) simp_all

lemma rest_again: "\<forall>u. u \<noteq> t \<longrightarrow> pcs u = At_Rest \<Longrightarrow> pcs(t := At_Rest) = (\<lambda>_. At_Rest)"
  by auto

lemma tag_step_inv:
  assumes "claim_inv on_m on_s (pcs, w)"
    and "ffikit_add_thread_tag tid tg (fw_state w) = (r, st) \<or> ffikit_remove_thread_tag tid tg (fw_state w) = (r, st)"
  shows "claim_inv on_m on_s (pcs, w\<lparr>fw_state := st\<rparr>)"
  using assms
  by (auto simp: claim_inv_def Let_def ffikit_add_thread_tag_def ffikit_remove_thread_tag_def
      agent_add_thread_tag_def agent_remove_thread_tag_def split: agent_state.splits prod.splits)

lemma ffi_step_inv:
  assumes M: "memalloc_hooks (ae_memalloc (fe_agent F)) on_m" and E: "engine_runs (ae_engine (fe_agent F)) on_s"
    and I: "claim_inv on_m on_s c" and s: "ffi_step F c c'"
  shows "claim_inv on_m on_s c'"
  using s I
proof (cases rule: ffi_step.cases)
  case (Run_Claim pcs t w st ab)
  have v: "mutex_value (fw_state w) = Idle" "st = (fw_state w)\<lparr>mutex_value := Busy\<rparr>"
    using Run_Claim(4) by (auto simp: run_claim_def split: if_splits agent_state.splits)
  show ?thesis unfolding Run_Claim(2)
    by (rule claim_inv_busyI) (use I v Run_Claim in \<open>auto simp: claim_inv_def Let_def\<close>)
next
  case (Run_Start pcs t ab i w r w')
  note B = busy_thread [OF I [unfolded Run_Start(1)], of t, unfolded Run_Start(3), simplified]
  have i: "stack_inv on_s (pf_stack (fw_profilers w))" "\<not> mutex_poisoned (fw_state w)"
    using I Run_Start(1) by (simp_all add: claim_inv_def Let_def)
  note R = run_started_inv [OF M E i(1) _ Run_Start(4)]
  show ?thesis unfolding Run_Start(2)
    by (rule claim_inv_busyI) (use R B i in \<open>cases r; auto\<close>)+
next
  case (Run_Panic pcs t ab i w r p bw)
  note B = busy_thread [OF I [unfolded Run_Panic(1)], of t, unfolded Run_Panic(3), simplified]
  have i: "stack_inv on_s (pf_stack (fw_profilers w))" "\<not> mutex_poisoned (fw_state w)"
    using I Run_Panic(1) by (simp_all add: claim_inv_def Let_def)
  note S = start_profilers_inv [OF M E i(1) _ Run_Panic(5)]
  show ?thesis unfolding Run_Panic(2)
    by (rule claim_inv_busyI) (use B S i in auto)
next
  case (Run_Finish pcs t r w res w')
  note B = busy_thread [OF I [unfolded Run_Finish(1)], of t, unfolded Run_Finish(3), simplified]
  have i: "stack_inv on_s (pf_stack (fw_profilers w))" "\<not> mutex_poisoned (fw_state w)"
    using I Run_Finish(1) by (simp_all add: claim_inv_def Let_def)
  note O = stop_profilers_off [OF M E i(1)]
  have z: "pcs(t := At_Rest) = (\<lambda>_. At_Rest)" using B by (intro rest_again) simp
  show ?thesis using Run_Finish(4) B i O unfolding Run_Finish(2) z
    by (cases r) (auto simp: run_finish_def set_state_def claim_inv_def Let_def)
next
  case (Stop_Claim pcs t w ag st)
  have v: "mutex_value (fw_state w) = Running ag" "st = (fw_state w)\<lparr>mutex_value := Busy\<rparr>"
    using Stop_Claim(4) by (auto simp: stop_claim_def split: if_splits agent_state.splits)
  show ?thesis unfolding Stop_Claim(2)
    by (rule claim_inv_busyI) (use I v Stop_Claim in \<open>auto simp: claim_inv_def Let_def\<close>)
next
  case (Stop_Join pcs t ag w p now joined res w')
  note B = busy_thread [OF I [unfolded Stop_Join(1)], of t, unfolded Stop_Join(3), simplified]
  have i: "stack_inv on_s (pf_stack (fw_profilers w))" "\<not> mutex_poisoned (fw_state w)"
    using I Stop_Join(1) by (simp_all add: claim_inv_def Let_def)
  note J = stop_join_keeps [OF M E i(1) Stop_Join(4,5)]
  show ?thesis unfolding Stop_Join(2)
    by (rule claim_inv_busyI) (use J B i in auto)
next
  case (Stop_Finish pcs t res w r w')
  note B = busy_thread [OF I [unfolded Stop_Finish(1)], of t, unfolded Stop_Finish(3), simplified]
  have i: "stack_inv on_s (pf_stack (fw_profilers w))" "\<not> mutex_poisoned (fw_state w)"
    using I Stop_Finish(1) by (simp_all add: claim_inv_def Let_def)
  note O = stop_profilers_off [OF M E i(1)]
  have z: "pcs(t := At_Rest) = (\<lambda>_. At_Rest)" using B by (intro rest_again) simp
  show ?thesis using Stop_Finish(4) B i O unfolding Stop_Finish(2) z
    by (auto simp: stop_finish_def set_state_def claim_inv_def Let_def)
next
  case (Add_Tag pcs t tid tg w r st)
  then show ?thesis using tag_step_inv [of on_m on_s pcs w tid tg r st] I by simp
next
  case (Remove_Tag pcs t tid tg w r st)
  then show ?thesis using tag_step_inv [of on_m on_s pcs w tid tg r st] I by simp
next
  case (Main_Wake w ag p now ag' w' pcs)
  have i: "stack_inv on_s (pf_stack (fw_profilers w))" using I Main_Wake(1) by (simp add: claim_inv_def Let_def)
  note K = wake_keeps [OF M E i Main_Wake(5,6)]
  show ?thesis unfolding Main_Wake(2)
    using I K Main_Wake(1,3) by (simp add: claim_inv_def Let_def profilers_on_def)
next
  case (Manager_Turn w ag ag' pcs)
  then show ?thesis using I by (simp add: claim_inv_def Let_def)
next
  case (Held_Wake pcs t ag w p now ag' w')
  have i: "stack_inv on_s (pf_stack (fw_profilers w))" "\<not> mutex_poisoned (fw_state w)"
    using I Held_Wake(1) by (simp_all add: claim_inv_def Let_def)
  have "pcs t \<noteq> At_Rest" using Held_Wake(3) by auto
  note B = busy_thread [OF I [unfolded Held_Wake(1)] this]
  note K = wake_keeps [OF M E i(1) Held_Wake(5,6)]
  have "pc_profilers on_m (hold_agent ag' (pcs t)) (fw_profilers w')"
    by (rule hold_agent_profilers [OF Held_Wake(3)]) (use B K in \<open>simp_all\<close>)
  then show ?thesis unfolding Held_Wake(2)
    by (intro claim_inv_busyI) (use B K i in simp_all)
next
  case (Held_Turn pcs t ag ag' w)
  have i: "stack_inv on_s (pf_stack (fw_profilers w))" "\<not> mutex_poisoned (fw_state w)"
    using I Held_Turn(1) by (simp_all add: claim_inv_def Let_def)
  have "pcs t \<noteq> At_Rest" using Held_Turn(3) by auto
  note B = busy_thread [OF I [unfolded Held_Turn(1)] this]
  have "pc_profilers on_m (hold_agent ag' (pcs t)) (fw_profilers w)"
    by (rule hold_agent_profilers [OF Held_Turn(3)]) (use B Held_Turn(4) in \<open>simp_all\<close>)
  then show ?thesis unfolding Held_Turn(2)
    by (intro claim_inv_busyI) (use B i in simp_all)
next
  case (Native_Calls cs w n pcs)
  show ?thesis unfolding Native_Calls(2)
    by (rule claim_inv_profilers [OF I [unfolded Native_Calls(1)]])
      (use I Native_Calls(1) in \<open>simp_all add: claim_inv_def Let_def\<close>)
next
  case (Sampler_Moves w eng s pcs)
  have "stack_inv on_s (pf_stack (fw_profilers w))" using I Sampler_Moves(1) by (simp add: claim_inv_def Let_def)
  from stack_moves_inv [OF E this Sampler_Moves(3)] show ?thesis unfolding Sampler_Moves(2)
    by (intro claim_inv_profilers [OF I [unfolded Sampler_Moves(1)]]) (simp_all add: Sampler_Moves(4))
qed

lemma ffi_reachable_inv:
  assumes "memalloc_hooks (ae_memalloc (fe_agent F)) on_m" "engine_runs (ae_engine (fe_agent F)) on_s"
    and "ffi_reachable F on_m on_s c"
  shows "claim_inv on_m on_s c"
  using assms(3)
proof (induction rule: ffi_reachable.induct)
  case (Start w eng)
  then show ?case
    by (simp add: claim_inv_def Let_def mutex_new_def profilers_on_def stack_inv_def stack_state_new_def)
next
  case (Next c c')
  then show ?case using ffi_step_inv [OF assms(1,2)] by blast
qed

subsection \<open>Whole calls\<close>

lemma profilers_in_state [simp]: "profilers_in (w\<lparr>fw_state := st\<rparr>) = profilers_in w"
  by (simp add: profilers_in_def)

text \<open>A call that returns is a sequence of the steps above.\<close>

lemma run_steps:
  assumes t: "pcs t = At_Rest" and r: "ffikit_run F i ab w = Some (r, w')"
  shows "(ffi_step F)\<^sup>*\<^sup>* (pcs, w) (pcs, w')"
proof (cases "run_claim (fw_state w)")
  case (Pair q st)
  show ?thesis
  proof (cases q)
    case (Inl e)
    then have "st = fw_state w" using Pair by (auto simp: run_claim_def split: if_splits agent_state.splits)
    then show ?thesis using r Pair Inl by (simp add: ffikit_run_def)
  next
    case (Inr u)
    obtain s w1 where s: "run_started F i ab (w\<lparr>fw_state := st\<rparr>) = Some (s, w1)" "run_finish F s w1 = Some (r, w')"
      using r Pair Inr by (auto simp: ffikit_run_def split: Option.bind_splits)
    have "ffi_step F (pcs, w) (pcs(t := Run_Claimed ab), w\<lparr>fw_state := st\<rparr>)"
      by (rule ffi_step.Run_Claim [of pcs t w st, OF t]) (use Pair Inr in simp)
    moreover have "ffi_step F (pcs(t := Run_Claimed ab), w\<lparr>fw_state := st\<rparr>) (pcs(t := Run_Started s), w1)"
      using ffi_step.Run_Start [where pcs = "pcs(t := Run_Claimed ab)" and t = t, OF _ s(1)] by simp
    moreover have "ffi_step F (pcs(t := Run_Started s), w1) (pcs, w')"
      using ffi_step.Run_Finish [where pcs = "pcs(t := Run_Started s)" and t = t, OF _ s(2)] t
      by (simp add: fun_upd_idem)
    ultimately show ?thesis by (meson converse_rtranclp_into_rtranclp rtranclp.rtrancl_refl)
  qed
qed

lemma stop_steps:
  assumes t: "pcs t = At_Rest"
    and p: "panic_leaves (fe_agent F) (profilers_in w) p" and r: "ffikit_stop F now joined p w = Some (r, w')"
  shows "(ffi_step F)\<^sup>*\<^sup>* (pcs, w) (pcs, w')"
proof (cases "stop_claim (fw_state w)")
  case (Pair q st)
  show ?thesis
  proof (cases q)
    case (Inl e)
    then have "st = fw_state w" using Pair by (auto simp: stop_claim_def split: if_splits agent_state.splits)
    then show ?thesis using r Pair Inl by (simp add: ffikit_stop_def)
  next
    case (Inr ag)
    obtain res w1 where s: "stop_join F now joined p ag (w\<lparr>fw_state := st\<rparr>) = (res, w1)" "stop_finish F res w1 = Some (r, w')"
      using r Pair Inr by (auto simp: ffikit_stop_def split: prod.splits)
    have "ffi_step F (pcs, w) (pcs(t := Stop_Claimed ag), w\<lparr>fw_state := st\<rparr>)"
      by (rule ffi_step.Stop_Claim [of pcs t w ag st, OF t]) (use Pair Inr in simp)
    moreover have "ffi_step F (pcs(t := Stop_Claimed ag), w\<lparr>fw_state := st\<rparr>) (pcs(t := Stop_Joined res), w1)"
      using ffi_step.Stop_Join [where pcs = "pcs(t := Stop_Claimed ag)" and t = t, OF _ _ s(1)] p by simp
    moreover have "ffi_step F (pcs(t := Stop_Joined res), w1) (pcs, w')"
      using ffi_step.Stop_Finish [where pcs = "pcs(t := Stop_Joined res)" and t = t, OF _ s(2)] t
      by (simp add: fun_upd_idem)
    ultimately show ?thesis by (meson converse_rtranclp_into_rtranclp rtranclp.rtrancl_refl)
  qed
qed

lemma steps_reachable: "(ffi_step F)\<^sup>*\<^sup>* c c' \<Longrightarrow> ffi_reachable F on_m on_s c \<Longrightarrow> ffi_reachable F on_m on_s c'"
  by (induction rule: rtranclp_induct) (auto intro: ffi_reachable.Next)

lemma steps_inv:
  assumes "memalloc_hooks (ae_memalloc (fe_agent F)) on_m" "engine_runs (ae_engine (fe_agent F)) on_s"
  shows "(ffi_step F)\<^sup>*\<^sup>* c c' \<Longrightarrow> claim_inv on_m on_s c \<Longrightarrow> claim_inv on_m on_s c'"
  by (induction rule: rtranclp_induct) (auto intro: ffi_step_inv [OF assms])

lemma run_state:
  assumes "\<not> mutex_poisoned (fw_state w)" "mutex_value (fw_state w) = Idle"
    and M: "memalloc_hooks (ae_memalloc (fe_agent F)) on_m" and E: "engine_runs (ae_engine (fe_agent F)) on_s"
    and I: "stack_inv on_s (pf_stack (fw_profilers w))" "profilers_on on_m None (fw_profilers w)"
  shows "case ffikit_run F i ab w of
      None \<Rightarrow> \<exists>c. ab_cpu_config ab = Some (CpuSignal c)
    | Some (Inl e, w') \<Rightarrow> mutex_value (fw_state w') = Idle
    | Some (Inr _, w') \<Rightarrow> (\<exists>ag. mutex_value (fw_state w') = Running ag \<and> ag_config ag = ab_config ab) \<and>
        on_s (sk_engine (pf_stack (fw_profilers w'))) = st_enabled (cf_stack_config (ab_config ab))"
proof -
  define st where "st = (fw_state w)\<lparr>mutex_value := Busy\<rparr>"
  have c: "run_claim (fw_state w) = (Inr (), st)" using assms(1,2) by (simp add: run_claim_def st_def)
  have np: "\<not> mutex_poisoned st" using assms(1) by (simp add: st_def)
  show ?thesis
  proof (cases "run_started F i ab (w\<lparr>fw_state := st\<rparr>)")
    case None
    then have "\<exists>c. ab_cpu_config ab = Some (CpuSignal c)"
      by (auto simp: run_started_def agent_build_def backend_new_def
          split: prod.splits sum.splits option.splits cpu_config.splits Option.bind_splits)
    then show ?thesis using c None by (simp add: ffikit_run_def)
  next
    case (Some x)
    obtain s w1 where x: "x = (s, w1)" by (cases x)
    have I': "stack_inv on_s (pf_stack (fw_profilers (w\<lparr>fw_state := st\<rparr>)))"
      "profilers_on on_m None (fw_profilers (w\<lparr>fw_state := st\<rparr>))" using I by simp_all
    note R = run_started_inv [OF M E I' Some [unfolded x]]
    have R1: "fw_state w1 = st" "stack_inv on_s (pf_stack (fw_profilers w1))" using R by simp_all
    from stop_profilers_off [OF M E R1(2)] R R1 np c Some show ?thesis
      by (cases s) (auto simp: ffikit_run_def x run_finish_def set_state_def)
  qed
qed

lemma stop_state:
  assumes "\<not> mutex_poisoned (fw_state w)" "mutex_value (fw_state w) = Running ag"
    and M: "memalloc_hooks (ae_memalloc (fe_agent F)) on_m" and E: "engine_runs (ae_engine (fe_agent F)) on_s"
    and I: "stack_inv on_s (pf_stack (fw_profilers w))" and p: "panic_leaves (fe_agent F) (profilers_in w) p"
  shows "\<exists>w'. ffikit_stop F now joined p w = Some (Inr (), w') \<and> mutex_value (fw_state w') = Idle \<and>
    profilers_on on_m None (fw_profilers w') \<and> interned (nt_interner (pf_native (fw_profilers w'))) = [('''', 0)]"
proof -
  define st where "st = (fw_state w)\<lparr>mutex_value := Busy\<rparr>"
  have c: "stop_claim (fw_state w) = (Inr ag, st)" using assms(1,2) by (simp add: stop_claim_def st_def)
  have I': "stack_inv on_s (pf_stack (fw_profilers (w\<lparr>fw_state := st\<rparr>)))" using I by simp
  have p': "panic_leaves (fe_agent F) (profilers_in (w\<lparr>fw_state := st\<rparr>)) p" using p by simp
  obtain res w1 where j: "stop_join F now joined p ag (w\<lparr>fw_state := st\<rparr>) = (res, w1)" by fastforce
  note J = stop_join_keeps [OF M E I' p' j]
  have "stack_inv on_s (pf_stack (fw_profilers w1))" using J by simp
  from stop_profilers_off [OF M E this] J c j assms(1) show ?thesis
    by (auto simp: ffikit_stop_def stop_finish_def set_state_def st_def)
qed

subsection \<open>Properties\<close>

text \<open>
  C7: one operation at a time, and the state tells what is on. However calls of any number of
  threads, wakes of the agent's main thread, turns of its session manager, pushes of native samples
  and the sampler's own moves interleave: at most one thread is inside \<open>run\<close> or \<open>stop\<close>, and the others
  are refused with the error that names the state. While the state is \<open>Idle\<close> neither the allocation
  hooks nor the CPU sampler are on. While an agent runs, and while a thread that started or claimed
  one works on it, the hooks are installed exactly if its configuration enables them and the sampler
  was started, and is marked to be stopped, exactly if its configuration enables it; it is at work
  only then, and may have stopped by itself. A thread that has claimed a start finds everything off.
\<close>

theorem ffikit_exclusive:
  assumes "memalloc_hooks (ae_memalloc (fe_agent F)) on_m" and "engine_runs (ae_engine (fe_agent F)) on_s"
    and "ffi_reachable F on_m on_s (pcs, w)"
  shows "(\<forall>t u. pcs t \<noteq> At_Rest \<and> pcs u \<noteq> At_Rest \<longrightarrow> t = u) \<and>
    fst (run_claim (fw_state w)) = (case mutex_value (fw_state w) of
      Idle \<Rightarrow> Inr () | Busy \<Rightarrow> Inl ConcurrentOperation | Running _ \<Rightarrow> Inl AgentAlreadyRunning) \<and>
    fst (stop_claim (fw_state w)) = (case mutex_value (fw_state w) of
      Idle \<Rightarrow> Inl AgentNotRunning | Busy \<Rightarrow> Inl ConcurrentOperation | Running ag \<Rightarrow> Inr ag) \<and>
    (on_s (sk_engine (pf_stack (fw_profilers w))) \<longrightarrow> STARTED (pf_stack (fw_profilers w))) \<and>
    (case mutex_value (fw_state w) of
       Idle \<Rightarrow> (\<forall>t. pcs t = At_Rest) \<and> \<not> on_m (pf_memalloc (fw_profilers w)) \<and>
         \<not> STARTED (pf_stack (fw_profilers w)) \<and> \<not> on_s (sk_engine (pf_stack (fw_profilers w)))
     | Busy \<Rightarrow>
         (\<forall>t ab. pcs t = Run_Claimed ab \<longrightarrow>
            \<not> on_m (pf_memalloc (fw_profilers w)) \<and> \<not> STARTED (pf_stack (fw_profilers w))) \<and>
         (\<forall>t ag. held_agent (pcs t) = Some ag \<longrightarrow>
            on_m (pf_memalloc (fw_profilers w)) = mem_enabled (mem_config (ag_config ag)) \<and>
            STARTED (pf_stack (fw_profilers w)) = st_enabled (cf_stack_config (ag_config ag)))
     | Running ag \<Rightarrow> (\<forall>t. pcs t = At_Rest) \<and>
         on_m (pf_memalloc (fw_profilers w)) = mem_enabled (mem_config (ag_config ag)) \<and>
         STARTED (pf_stack (fw_profilers w)) = st_enabled (cf_stack_config (ag_config ag)))"
proof -
  note I = ffi_reachable_inv [OF assms]
  have one: "t = u" if "pcs t \<noteq> At_Rest" "pcs u \<noteq> At_Rest" for t u
    using busy_thread [OF I that(1)] that(2) by metis
  have pc: "pc_profilers on_m (pcs t) (fw_profilers w)" if "pcs t \<noteq> At_Rest" for t
    using busy_thread [OF I that] by blast
  have np: "\<not> mutex_poisoned (fw_state w)" using I by (simp add: claim_inv_def Let_def)
  have claimed: "profilers_on on_m None (fw_profilers w)" if "pcs t = Run_Claimed ab" for t ab
    using pc [of t] that by simp
  have held: "profilers_on on_m (Some (ag_config ag)) (fw_profilers w)" if "held_agent (pcs t) = Some ag" for t ag
    using pc [of t] that by (cases "pcs t" rule: held_agent.cases) simp_all
  have on: "on_s (sk_engine (pf_stack (fw_profilers w))) \<longrightarrow> STARTED (pf_stack (fw_profilers w))"
    using I by (simp add: claim_inv_def stack_inv_def Let_def)
  show ?thesis
    using one np on I claimed held
    by (cases "mutex_value (fw_state w)")
      (auto simp: run_claim_def stop_claim_def claim_inv_def profilers_on_def Let_def)
qed

text \<open>
  C22: \<open>run\<close> and \<open>stop\<close> succeed or clean up. From a reachable idle state, \<open>run\<close> either publishes an
  agent with the builder's configuration and exactly the profilers it enables, and from there \<open>stop\<close>
  always returns without an error, with the state idle again, every profiler off and the string
  table fresh; or it returns an error with the state idle and everything off. Only building the
  signal backend can panic.
\<close>

theorem ffikit_run_stop_outcome:
  assumes "memalloc_hooks (ae_memalloc (fe_agent F)) on_m" and "engine_runs (ae_engine (fe_agent F)) on_s"
    and "ffi_reachable F on_m on_s (pcs, w)" and "mutex_value (fw_state w) = Idle"
  shows "case ffikit_run F i ab w of
      None \<Rightarrow> \<exists>c. ab_cpu_config ab = Some (CpuSignal c)
    | Some (Inl e, w') \<Rightarrow> mutex_value (fw_state w') = Idle \<and> profilers_on on_m None (fw_profilers w')
    | Some (Inr _, w') \<Rightarrow> \<exists>ag. mutex_value (fw_state w') = Running ag \<and> ag_config ag = ab_config ab \<and>
        profilers_on on_m (Some (ab_config ab)) (fw_profilers w') \<and>
        (\<forall>now joined p. panic_leaves (fe_agent F) (profilers_in w') p \<longrightarrow>
          (\<exists>w''. ffikit_stop F now joined p w' = Some (Inr (), w'') \<and> mutex_value (fw_state w'') = Idle \<and>
             profilers_on on_m None (fw_profilers w'') \<and>
             interned (nt_interner (pf_native (fw_profilers w''))) = [('''', 0)]))"
proof -
  note I = ffi_reachable_inv [OF assms(1-3), unfolded claim_inv_def, simplified, simplified assms(4)]
  have np: "\<not> mutex_poisoned (fw_state w)" and st: "stack_inv on_s (pf_stack (fw_profilers w))"
    and off: "profilers_on on_m None (fw_profilers w)" and rest: "pcs = (\<lambda>_. At_Rest)"
    using I by (simp_all add: Let_def)
  note S = run_state [OF np assms(4) assms(1,2) st off, where i = i and ab = ab]
  show ?thesis
  proof (cases "ffikit_run F i ab w")
    case None
    then show ?thesis using S by simp
  next
    case (Some x)
    obtain r w' where x: "x = (r, w')" by (cases x)
    have "ffi_reachable F on_m on_s (pcs, w')"
      by (rule steps_reachable [OF run_steps [of pcs 0, OF _ Some [unfolded x]] assms(3)]) (simp add: rest)
    note I' = ffi_reachable_inv [OF assms(1,2) this, unfolded claim_inv_def Let_def prod.case]
    show ?thesis
    proof (cases r)
      case (Inl e)
      then show ?thesis using S I' Some x by simp
    next
      case (Inr u)
      then obtain ag where ag: "mutex_value (fw_state w') = Running ag" "ag_config ag = ab_config ab"
        using S Some x by auto
      have J: "\<not> mutex_poisoned (fw_state w')" "stack_inv on_s (pf_stack (fw_profilers w'))"
        "profilers_on on_m (Some (ab_config ab)) (fw_profilers w')" using I' ag by simp_all
      show ?thesis
        using stop_state [OF J(1) ag(1) assms(1,2) J(2)] J(3) ag Some x Inr by simp
    qed
  qed
qed

subsection \<open>Witnesses\<close>

definition example_ffi_env :: "'os signal_env \<Rightarrow> (bool, bool, string, nat, 'os) ffi_env" where
  "example_ffi_env S = \<lparr>fe_agent = example_agent_env, fe_signal = S, fe_round = Finite\<rparr>"

definition example_world :: "'os backend_world \<Rightarrow> (bool, bool, nat, 'os) ffi_world" where
  "example_world bw = \<lparr>fw_state = mutex_new Idle, fw_profilers = example_profilers,
     fw_watch = stop_watch_new 0, fw_backend = bw\<rparr>"

definition example_builder :: agent_builder where
  "example_builder = agent_builder_new
     (example_config\<lparr>mem_config := \<lparr>mem_enabled = True, enable_mem_domain = False, max_nframe = 9, heap_sample_size = 512\<rparr>\<rparr>)
     None \<lparr>report_thread_id = False, report_thread_name = False, report_pid = False\<rparr> thread_tags_new"

lemma example_env_laws:
  "memalloc_hooks (ae_memalloc (fe_agent (example_ffi_env S))) (\<lambda>w. w)"
  "engine_runs (ae_engine (fe_agent (example_ffi_env S))) (\<lambda>s. s)"
  using example_engine_runs
  by (simp_all add: example_ffi_env_def example_agent_env_def memalloc_hooks_def example_memalloc_def)

lemma example_reachable:
  "ffi_reachable (example_ffi_env S) (\<lambda>w. w) (\<lambda>s. s) (\<lambda>_. At_Rest, example_world bw)"
  by (rule ffi_reachable.Start [where eng = False]) (simp_all add: example_world_def example_profilers_def)

lemma example_runs:
  "\<exists>w'. ffikit_run (example_ffi_env S) \<lparr>si_hooks = ([], True), si_client = Inr 0, si_now = 0\<rparr> example_builder
     (example_world bw) = Some (Inr (), w')"
  by (simp add: ffikit_run_def run_claim_def run_started_def run_finish_def set_state_def example_world_def mutex_new_def
      start_profilers_def memory_start_def example_ffi_env_def example_agent_env_def example_memalloc_def example_builder_def
      agent_builder_new_def stack_start_def example_config_def config_new_def create_http_client_def
      no_dispatch_semaphore_def agent_build_def backend_new_def Let_def)

text \<open>An agent with the CPU sampler runs, and the sampler dies under it.\<close>

definition example_stack_builder :: agent_builder where
  "example_stack_builder = agent_builder_new
     (example_config\<lparr>cf_stack_config := \<lparr>st_enabled = True, st_oncpu = True\<rparr>\<rparr>)
     None \<lparr>report_thread_id = False, report_thread_name = False, report_pid = False\<rparr> thread_tags_new"

lemma example_stack_runs:
  "\<exists>w' ag. ffikit_run (example_ffi_env S) \<lparr>si_hooks = ([], True), si_client = Inr 0, si_now = 0\<rparr> example_stack_builder
     (example_world bw) = Some (Inr (), w') \<and> mutex_value (fw_state w') = Running ag \<and> STARTED (pf_stack (fw_profilers w'))"
  by (simp add: ffikit_run_def run_claim_def run_started_def run_finish_def set_state_def example_world_def mutex_new_def
      start_profilers_def memory_start_def example_ffi_env_def example_agent_env_def example_memalloc_def
      example_stack_builder_def agent_builder_new_def stack_start_def stack_install_def example_engine_def get_options_def
      example_profilers_def stack_state_new_def share_buffer_def agent_start_def example_config_def config_new_def
      create_http_client_def no_dispatch_semaphore_def agent_build_def backend_new_def Let_def)

theorem ffikit_exclusive_witness:
  "\<forall>(S :: nat signal_env) bw. \<exists>w'. ffi_reachable (example_ffi_env S) (\<lambda>w. w) (\<lambda>s. s) (\<lambda>_. At_Rest, w') \<and>
     fst (run_claim (fw_state w')) = Inl AgentAlreadyRunning \<and> STARTED (pf_stack (fw_profilers w')) \<and>
     \<not> sk_engine (pf_stack (fw_profilers w'))"
proof (intro allI)
  fix S :: "nat signal_env" and bw
  obtain w ag where w: "ffikit_run (example_ffi_env S) \<lparr>si_hooks = ([], True), si_client = Inr 0, si_now = 0\<rparr>
      example_stack_builder (example_world bw) = Some (Inr (), w)" "mutex_value (fw_state w) = Running ag"
      "STARTED (pf_stack (fw_profilers w))"
    using example_stack_runs by blast
  have r: "ffi_reachable (example_ffi_env S) (\<lambda>w. w) (\<lambda>s. s) (\<lambda>_. At_Rest, w)"
    by (rule steps_reachable [OF run_steps [OF _ w(1)] example_reachable]) simp
  let ?s = "(pf_stack (fw_profilers w))\<lparr>sk_engine := False\<rparr>"
  let ?w = "w\<lparr>fw_profilers := (fw_profilers w)\<lparr>pf_stack := ?s\<rparr>\<rparr>"
  have "ffi_step (example_ffi_env S) (\<lambda>_. At_Rest, w) (\<lambda>_. At_Rest, ?w)"
    by (rule ffi_step.Sampler_Moves [OF _ refl]) (simp add: example_ffi_env_def example_agent_env_def example_engine_def)
  then have d: "ffi_reachable (example_ffi_env S) (\<lambda>w. w) (\<lambda>s. s) (\<lambda>_. At_Rest, ?w)" by (rule ffi_reachable.Next [OF r])
  with ffikit_exclusive [OF example_env_laws d] w(2,3)
  show "\<exists>w'. ffi_reachable (example_ffi_env S) (\<lambda>w. w) (\<lambda>s. s) (\<lambda>_. At_Rest, w') \<and>
     fst (run_claim (fw_state w')) = Inl AgentAlreadyRunning \<and> STARTED (pf_stack (fw_profilers w')) \<and>
     \<not> sk_engine (pf_stack (fw_profilers w'))"
    by (intro exI [of _ ?w]) simp
qed

theorem ffikit_run_stop_outcome_witness:
  "\<forall>(S :: nat signal_env) bw. \<exists>w' w''.
     ffikit_run (example_ffi_env S) \<lparr>si_hooks = ([], True), si_client = Inr 0, si_now = 0\<rparr> example_builder
       (example_world bw) = Some (Inr (), w') \<and> pf_memalloc (fw_profilers w') \<and>
     ffikit_stop (example_ffi_env S) 7 None (profilers_in w') w' = Some (Inr (), w'') \<and>
     \<not> pf_memalloc (fw_profilers w'')"
proof (intro allI)
  fix S :: "nat signal_env" and bw
  let ?i = "\<lparr>si_hooks = ([], True), si_client = Inr 0, si_now = 0\<rparr>"
  obtain w' where w: "ffikit_run (example_ffi_env S) ?i example_builder (example_world bw) = Some (Inr (), w')"
    using example_runs by blast
  have i: "mutex_value (fw_state (example_world bw)) = Idle" by (simp add: example_world_def mutex_new_def)
  have p: "panic_leaves (fe_agent (example_ffi_env S)) (profilers_in w') (profilers_in w')"
    by (simp add: panic_leaves_def)
  note T = ffikit_run_stop_outcome [where F = "example_ffi_env S", OF example_env_laws example_reachable i,
      where i = ?i and ab = example_builder, unfolded w]
  have on: "pf_memalloc (fw_profilers w')"
    using T by (auto simp: profilers_on_def example_builder_def agent_builder_new_def)
  obtain w'' where "ffikit_stop (example_ffi_env S) 7 None (profilers_in w') w' = Some (Inr (), w'')"
    "profilers_on (\<lambda>w. w) None (fw_profilers w'')" using T p by simp blast
  then show "\<exists>w' w''. ffikit_run (example_ffi_env S) ?i example_builder (example_world bw) = Some (Inr (), w') \<and>
      pf_memalloc (fw_profilers w') \<and> ffikit_stop (example_ffi_env S) 7 None (profilers_in w') w' = Some (Inr (), w'') \<and>
      \<not> pf_memalloc (fw_profilers w'')"
    using w on by (auto simp: profilers_on_def)
qed

end
