(* ===== verification/Lib.thy ===== *)
theory Lib
  imports Ffikit
begin

text \<open>
  \<open>rust/src/lib.rs\<close>: the functions of the Python module. Their effects outside the agent are the
  flag \<open>AGENT_RUNNING\<close>, the environment variable \<open>RUST_LOG\<close>, the logger, which keeps the level of its
  first installation, and the hooks that follow Python threads. A panic is \<open>None\<close>.
\<close>

subsection \<open>Arguments\<close>

datatype profiler_implementation = ImplPySpy | ImplStack | ImplSignal

datatype py_signal_timer = PyITimer | PyCTimer

definition timer_into :: "py_signal_timer \<Rightarrow> signal_timer" where
  "timer_into val = (case val of PyITimer \<Rightarrow> SITimer | PyCTimer \<Rightarrow> SCTimer)"

definition line_no_into :: "line_no \<Rightarrow> lines" where
  "line_no_into val =
     (case val of line_no.LastInstruction \<Rightarrow> lines.LastInstruction | FirstLine \<Rightarrow> First | line_no.NoLine \<Rightarrow> lines.NoLine)"

record agent_args =
  aa_application_name :: string
  aa_server_address :: string
  aa_basic_auth_username :: string
  aa_basic_auth_password :: string
  aa_sample_rate :: nat
  aa_oncpu :: bool
  aa_gil_only :: bool
  aa_report_pid :: bool
  aa_report_thread_id :: bool
  aa_report_thread_name :: bool
  aa_runtime_name :: string
  aa_runtime_version :: string
  aa_tags :: "(string \<times> string) list"
  aa_tenant_id :: string
  aa_http_headers :: "(string \<times> string) list"
  aa_line_no :: line_no
  aa_upload_interval :: nat
  aa_mem_enabled :: bool
  aa_mem_max_nframe :: nat
  aa_mem_heap_sample_size :: nat
  aa_mem_enable_mem_domain :: bool
  aa_cpu_enabled :: bool
  aa_cpu_implementation :: profiler_implementation
  aa_signal_timer :: py_signal_timer

text \<open>
  What a call gets from the process: its id, the running interpreter's version, and for the \<open>CTimer\<close>
  hooks the threads registered by the call into Python and whether it returns.
\<close>

record 'x call_inputs =
  ci_start :: "'x start_inputs"
  ci_process_id :: nat
  ci_version :: py_version
  ci_ctimer_hooks :: "(nat \<times> nat) list \<times> bool"

definition PYSPY_NAME :: string where "PYSPY_NAME = ''pyspy''"

text \<open>\<open>CARGO_PKG_VERSION\<close>, from \<open>rust/Cargo.toml\<close>.\<close>

definition PYSPY_VERSION :: string where "PYSPY_VERSION = ''1.4.0''"

subsection \<open>The configuration of an agent\<close>

definition agent_backend_config :: "agent_args \<Rightarrow> backend_config" where
  "agent_backend_config a = \<lparr>report_thread_id = aa_report_thread_id a,
     report_thread_name = aa_report_thread_name a, report_pid = aa_report_pid a\<rparr>"

definition agent_signal_config :: "py_version \<Rightarrow> agent_args \<Rightarrow> cpu_config option" where
  "agent_signal_config version a =
     (if aa_cpu_enabled a \<and> aa_cpu_implementation a = ImplSignal
      then Some (CpuSignal \<lparr>python_version = version, sampling_rate = aa_sample_rate a,
             signal_timer = timer_into (aa_signal_timer a), lines = line_no_into (aa_line_no a)\<rparr>)
      else None)"

definition agent_pyspy_config :: "nat \<Rightarrow> agent_args \<Rightarrow> spy_config option" where
  "agent_pyspy_config process_id a =
     (if aa_cpu_enabled a \<and> aa_cpu_implementation a = ImplPySpy
      then Some \<lparr>non_blocking = True, native_stacks = False, strict_types = True, cfg_pid = Some (int process_id), cfg_sampling_rate = aa_sample_rate a,
             include_idle = \<not> aa_oncpu a, include_thread_ids = True,
             collect_thread_names = aa_report_thread_name a, subprocesses = False,
             gil_only = aa_gil_only a, lineno = aa_line_no a, unlimited = True\<rparr>
      else None)"

definition agent_cpu_config :: "'x call_inputs \<Rightarrow> agent_args \<Rightarrow> cpu_config option" where
  "agent_cpu_config i a =
     (case map_option CpuPySpy (agent_pyspy_config (ci_process_id i) a) of
        Some c \<Rightarrow> Some c
      | None \<Rightarrow> agent_signal_config (ci_version i) a)"

definition agent_config :: "agent_args \<Rightarrow> pyroscope_config" where
  "agent_config a =
     (let b = with_upload_interval (1000 * aa_upload_interval a)
            (with_runtime (aa_runtime_name a) (aa_runtime_version a)
              (with_tags (aa_tags a)
                (config_new (aa_server_address a) (aa_application_name a) (aa_sample_rate a) PYSPY_NAME PYSPY_VERSION
                  \<lparr>mem_enabled = aa_mem_enabled a, enable_mem_domain = aa_mem_enable_mem_domain a,
                   max_nframe = aa_mem_max_nframe a, heap_sample_size = aa_mem_heap_sample_size a\<rparr>
                  \<lparr>st_enabled = aa_cpu_enabled a \<and> aa_cpu_implementation a = ImplStack, st_oncpu = aa_oncpu a\<rparr>)));
          b = (if aa_basic_auth_username a \<noteq> [] \<and> aa_basic_auth_password a \<noteq> []
               then with_basic_auth (aa_basic_auth_username a) (aa_basic_auth_password a) b else b);
          b = (if aa_tenant_id a \<noteq> [] then with_tenant_id (aa_tenant_id a) b else b)
      in with_http_headers (aa_http_headers a) b)"

subsection \<open>The functions of the module\<close>

text \<open>\<open>py_leaked\<close>: the timer of an agent that was leaked on a fork, which the hooks still hold.\<close>

record ('w, 's, 'x, 'os) py_world =
  py_ffi :: "('w, 's, 'x, 'os) ffi_world"
  AGENT_RUNNING :: bool
  py_leaked :: "timer_backend option"
  RUST_LOG :: "string option"
  py_logger :: "string option"

definition hooked_timer :: "('w, 's, 'x, 'os) py_world \<Rightarrow> timer_backend option" where
  "hooked_timer w =
     (case mutex_value (fw_state (py_ffi w)) of
        Running ag \<Rightarrow>
          (case ag_backend ag of Some (BackendSignal _ s _ _) \<Rightarrow> session_timer s | _ \<Rightarrow> py_leaked w)
      | _ \<Rightarrow> py_leaked w)"

definition with_hooked_timer ::
    "timer_backend option \<Rightarrow> ('w, 's, 'x, 'os) py_world \<Rightarrow> ('w, 's, 'x, 'os) py_world" where
  "with_hooked_timer slot w =
     (case mutex_value (fw_state (py_ffi w)) of
        Running ag \<Rightarrow>
          (case ag_backend ag of
             Some (BackendSignal c s bf h) \<Rightarrow>
               w\<lparr>py_ffi := (py_ffi w)\<lparr>fw_state := (fw_state (py_ffi w))\<lparr>mutex_value :=
                 Running (ag\<lparr>ag_backend := Some (BackendSignal c (s\<lparr>session_timer := slot\<rparr>) bf h)\<rparr>)\<rparr>\<rparr>\<rparr>
           | _ \<Rightarrow> w\<lparr>py_leaked := slot\<rparr>)
      | _ \<Rightarrow> w\<lparr>py_leaked := slot\<rparr>)"

text \<open>\<open>signal_backend::threads::install\<close> on the process.\<close>

definition install_ctimer_hooks ::
    "('w, 's, 'u, 'x, 'os) ffi_env \<Rightarrow> 'x call_inputs \<Rightarrow> ('w, 's, 'x, 'os) py_world \<Rightarrow>
     bool \<times> ('w, 's, 'x, 'os) py_world" where
  "install_ctimer_hooks F i w =
     (let bw = fw_backend (py_ffi w); tw = timers (bw_process bw);
          (ok, r, slot, k) = install_hooks (sg_os (fe_signal F)) (ci_process_id i) (ci_ctimer_hooks i)
            (bw_registry bw, hooked_timer w, kernel tw);
          bw = bw\<lparr>bw_registry := r, bw_process := (bw_process bw)\<lparr>timers := tw\<lparr>kernel := k\<rparr>\<rparr>\<rparr>
      in (ok, with_hooked_timer slot (w\<lparr>py_ffi := (py_ffi w)\<lparr>fw_backend := bw\<rparr>\<rparr>)))"

definition initialize_agent ::
    "('w, 's, 'u, 'x, 'os) ffi_env \<Rightarrow> 'x call_inputs \<Rightarrow> agent_args \<Rightarrow> ('w, 's, 'x, 'os) py_world \<Rightarrow>
     (bool \<times> ('w, 's, 'x, 'os) py_world) option" where
  "initialize_agent F i a w =
     (if \<not> aa_cpu_enabled a \<and> \<not> aa_mem_enabled a then Some (False, w)
      else if aa_cpu_enabled a \<and> aa_cpu_implementation a = ImplStack \<and> \<not> aa_oncpu a then Some (False, w)
      else if aa_cpu_enabled a \<and> aa_cpu_implementation a = ImplSignal \<and> \<not> aa_oncpu a then Some (False, w)
      else
        let (ok, w) =
          (if aa_signal_timer a = PyCTimer \<and> agent_signal_config (ci_version i) a \<noteq> None
           then install_ctimer_hooks F i w else (True, w))
        in if \<not> ok then Some (False, w)
           else
             do { (result, fw) \<leftarrow> ffikit_run F (ci_start i)
                    (agent_builder_new (agent_config a) (agent_cpu_config i a) (agent_backend_config a) thread_tags_new)
                    (py_ffi w);
                  Some (case result of
                          Inr _ \<Rightarrow> (True, w\<lparr>py_ffi := fw, AGENT_RUNNING := True\<rparr>)
                        | Inl _ \<Rightarrow> (False, w\<lparr>py_ffi := fw\<rparr>)) })"

definition drop_agent ::
    "('w, 's, 'u, 'x, 'os) ffi_env \<Rightarrow> system_time \<Rightarrow> (pyroscope_error + unit) option \<Rightarrow> ('w, 's) profilers \<Rightarrow>
     ('w, 's, 'x, 'os) py_world \<Rightarrow> (bool \<times> ('w, 's, 'x, 'os) py_world) option" where
  "drop_agent F now joined after_panic w =
     do { (r, fw) \<leftarrow> ffikit_stop F now joined after_panic (py_ffi w);
          let dropped = is_ok r;
          let w = w\<lparr>py_ffi := fw\<rparr>;
          Some (dropped, if dropped then w\<lparr>AGENT_RUNNING := False\<rparr> else w) }"

definition at_exit ::
    "('w, 's, 'u, 'x, 'os) ffi_env \<Rightarrow> system_time \<Rightarrow> (pyroscope_error + unit) option \<Rightarrow> ('w, 's) profilers \<Rightarrow>
     ('w, 's, 'x, 'os) py_world \<Rightarrow> ('w, 's, 'x, 'os) py_world option" where
  "at_exit F now joined after_panic w = map_option snd (drop_agent F now joined after_panic w)"

text \<open>\<open>tid\<close> is the calling thread's \<open>pthread_self\<close>.\<close>

definition py_add_thread_tag ::
    "nat \<Rightarrow> string \<Rightarrow> string \<Rightarrow> ('w, 's, 'x, 'os) py_world \<Rightarrow> bool \<times> ('w, 's, 'x, 'os) py_world" where
  "py_add_thread_tag tid k v w =
     (let (r, st) = ffikit_add_thread_tag tid (Tag k v) (fw_state (py_ffi w))
      in (is_ok r, w\<lparr>py_ffi := (py_ffi w)\<lparr>fw_state := st\<rparr>\<rparr>))"

definition py_remove_thread_tag ::
    "nat \<Rightarrow> string \<Rightarrow> string \<Rightarrow> ('w, 's, 'x, 'os) py_world \<Rightarrow> bool \<times> ('w, 's, 'x, 'os) py_world" where
  "py_remove_thread_tag tid k v w =
     (let (r, st) = ffikit_remove_thread_tag tid (Tag k v) (fw_state (py_ffi w))
      in (is_ok r, w\<lparr>py_ffi := (py_ffi w)\<lparr>fw_state := st\<rparr>\<rparr>))"

definition log_filter :: "nat \<Rightarrow> string" where
  "log_filter level =
     (if level = 50 then ''off'' else if level = 40 then ''error'' else if level = 30 then ''warn''
      else if level = 20 then ''info'' else ''debug'')"

definition initialize_logging :: "nat \<Rightarrow> ('w, 's, 'x, 'os) py_world \<Rightarrow> bool \<times> ('w, 's, 'x, 'os) py_world" where
  "initialize_logging level w =
     (let w = w\<lparr>RUST_LOG := Some (log_filter level)\<rparr>
      in (True, case py_logger w of None \<Rightarrow> w\<lparr>py_logger := RUST_LOG w\<rparr> | Some _ \<Rightarrow> w))"

definition configure_experimental_stack_profiler ::
    "(f64 \<Rightarrow> string) \<Rightarrow> nat \<Rightarrow> nat \<Rightarrow> bool \<Rightarrow> f64 \<Rightarrow> nat \<Rightarrow> f64 \<Rightarrow> nat \<Rightarrow> f64 \<Rightarrow> bool \<Rightarrow> nat \<Rightarrow>
     ('w, 's, 'x, 'os) py_world \<Rightarrow> bool \<times> ('w, 's, 'x, 'os) py_world" where
  "configure_experimental_stack_profiler show_f64 nframe nthreads adaptive overhead max_interval baseline window_s
     percentile timer interval_ms w =
     (let f = py_ffi w; p = fw_profilers f;
          (ok, s) = set_options show_f64
            (options_default\<lparr>opt_max_nframe := nframe, opt_max_threads := nthreads, adaptive_sampling := adaptive,
               adaptive_target_overhead := overhead, adaptive_max_interval_us := max_interval,
               adaptive_baseline := baseline, adaptive_p_stable_window_s := window_s,
               adaptive_p_stable_percentile := percentile, cpu_timer_enabled := timer,
               cpu_timer_interval_ms := interval_ms\<rparr>) (pf_stack p)
      in (ok, w\<lparr>py_ffi := f\<lparr>fw_profilers := p\<lparr>pf_stack := s\<rparr>\<rparr>\<rparr>))"

subsection \<open>Forks\<close>

text \<open>The message of the warning, if one is given; the hook in the parent is this function.\<close>

definition warn_about_fork :: "nat \<Rightarrow> ('w, 's, 'x, 'os) py_world \<Rightarrow> string option" where
  "warn_about_fork proc w =
     (if \<not> AGENT_RUNNING w then None
      else Some (''This process (pid='' @ to_decimal proc @ '') is running Pyroscope, use of fork() may lead to '' @
        ''deadlocks in the child. Forking after Pyroscope starts is unsupported; '' @
        ''configure Pyroscope after forking or call pyroscope.shutdown() before forking. '' @
        ''See https://github.com/grafana/pyroscope-python/issues/122 for details.''))"

definition at_fork_after_in_parent :: "nat \<Rightarrow> ('w, 's, 'x, 'os) py_world \<Rightarrow> string option" where
  "at_fork_after_in_parent proc w = warn_about_fork proc w"

definition at_fork_after_in_child ::
    "('w, 's, 'u, 'x, 'os) ffi_env \<Rightarrow> ('w, 's, 'x, 'os) py_world \<Rightarrow> ('w, 's, 'x, 'os) py_world option" where
  "at_fork_after_in_child F w =
     (let f = py_ffi w; p = fw_profilers f;
          (mw, n) = memory_postfork_child (ae_memalloc (fe_agent F)) (pf_memalloc p, pf_native p);
          n = stack_postfork_child n
      in do { i \<leftarrow> interner_postfork (nt_interner n);
              p \<leftarrow> stop_profilers F (p\<lparr>pf_memalloc := mw, pf_native := n\<lparr>nt_interner := i\<rparr>\<rparr>);
              Some (w\<lparr>py_ffi := f\<lparr>fw_profilers := p, fw_state := ffikit_at_fork_after_in_child (fw_state f)\<rparr>,
                      AGENT_RUNNING := False, py_leaked := hooked_timer w\<rparr>) })"

subsection \<open>Any sequence of calls\<close>

text \<open>
  The calls of a Python program, one after the other, with the background steps of a running agent
  between them. A panic while an agent is built is raised to Python, which can go on. A fork may find
  other threads anywhere inside a start or a stop: it starts from a state that the steps of \<open>Ffikit\<close>
  lead to. In the child, which has the forking thread only, the sequence goes on. What the child has
  of the signal profiler is left open (\<open>bw\<close>, \<open>slot\<close>): the kernel's timers are its own matter, and a
  timer may belong to an agent that a call was working on.
\<close>

inductive py_step ::
    "('w, 's, 'u, 'x, 'os) ffi_env \<Rightarrow> ('w, 's, 'x, 'os) py_world \<Rightarrow> ('w, 's, 'x, 'os) py_world \<Rightarrow> bool" for F where
  Initialize: "initialize_agent F i a w = Some (ok, w') \<Longrightarrow> py_step F w w'"
| Initialize_Panic: "initialize_agent F i a w = None \<Longrightarrow> run_claim (fw_state (py_ffi w)) = (Inr (), st) \<Longrightarrow>
    start_profilers F (ci_start i) (agent_config a) (fw_profilers (py_ffi w)) = (r, p) \<Longrightarrow>
    py_step F w (w\<lparr>py_ffi := (py_ffi w)\<lparr>fw_state := st, fw_profilers := p, fw_backend := bw\<rparr>, py_leaked := slot\<rparr>)"
| Drop: "panic_leaves (fe_agent F) (profilers_in (py_ffi w)) p \<Longrightarrow> drop_agent F now joined p w = Some (ok, w') \<Longrightarrow>
    py_step F w w'"
| Add_Tag: "py_add_thread_tag tid k v w = (ok, w') \<Longrightarrow> py_step F w w'"
| Remove_Tag: "py_remove_thread_tag tid k v w = (ok, w') \<Longrightarrow> py_step F w w'"
| Logging: "initialize_logging level w = (ok, w') \<Longrightarrow> py_step F w w'"
| Configure: "configure_experimental_stack_profiler show_f64 nframe nthreads adaptive overhead max_interval baseline
    window_s percentile timer interval_ms w = (ok, w') \<Longrightarrow> py_step F w w'"
| Background: "ffi_step F (\<lambda>_. At_Rest, py_ffi w) (\<lambda>_. At_Rest, fw) \<Longrightarrow> py_step F w (w\<lparr>py_ffi := fw\<rparr>)"
| Fork: "(ffi_step F)\<^sup>*\<^sup>* (\<lambda>_. At_Rest, py_ffi w) (pcs, f) \<Longrightarrow>
    at_fork_after_in_child F (w\<lparr>py_ffi := f\<lparr>fw_backend := bw\<rparr>\<rparr>) = Some w' \<Longrightarrow> py_step F w (w'\<lparr>py_leaked := slot\<rparr>)"

inductive py_reachable ::
    "('w, 's, 'u, 'x, 'os) ffi_env \<Rightarrow> ('w \<Rightarrow> bool) \<Rightarrow> ('s \<Rightarrow> bool) \<Rightarrow> ('w, 's, 'x, 'os) py_world \<Rightarrow> bool"
    for F on_m on_s where
  Load: "fw_state (py_ffi w) = mutex_new Idle \<Longrightarrow> \<not> on_m (pf_memalloc (fw_profilers (py_ffi w))) \<Longrightarrow>
    pf_stack (fw_profilers (py_ffi w)) = stack_state_new eng \<Longrightarrow> \<not> on_s eng \<Longrightarrow> \<not> AGENT_RUNNING w \<Longrightarrow>
    py_reachable F on_m on_s w"
| Call: "py_reachable F on_m on_s w \<Longrightarrow> py_step F w w' \<Longrightarrow> py_reachable F on_m on_s w'"

text \<open>Between calls the state is claimed only after a panic, which the signal profiler alone can cause.\<close>

definition py_inv :: "('w \<Rightarrow> bool) \<Rightarrow> ('s \<Rightarrow> bool) \<Rightarrow> ('w, 's, 'x, 'os) py_world \<Rightarrow> bool" where
  "py_inv on_m on_s w \<longleftrightarrow> claim_inv on_m on_s (\<lambda>_. At_Rest, py_ffi w) \<and>
     (AGENT_RUNNING w \<longleftrightarrow> (\<exists>ag. mutex_value (fw_state (py_ffi w)) = Running ag)) \<and>
     (mutex_value (fw_state (py_ffi w)) = Busy \<longrightarrow> \<not> STARTED (pf_stack (fw_profilers (py_ffi w))))"

lemma hooked_timer_inv:
  assumes "claim_inv on_m on_s (\<lambda>_. At_Rest, py_ffi w)"
  shows "claim_inv on_m on_s (\<lambda>_. At_Rest, py_ffi (with_hooked_timer slot w)) \<and>
    AGENT_RUNNING (with_hooked_timer slot w) = AGENT_RUNNING w \<and>
    (\<exists>ag. mutex_value (fw_state (py_ffi (with_hooked_timer slot w))) = Running ag) =
      (\<exists>ag. mutex_value (fw_state (py_ffi w)) = Running ag) \<and>
    (mutex_value (fw_state (py_ffi (with_hooked_timer slot w))) = Idle) = (mutex_value (fw_state (py_ffi w)) = Idle) \<and>
    (mutex_value (fw_state (py_ffi (with_hooked_timer slot w))) = Busy) = (mutex_value (fw_state (py_ffi w)) = Busy) \<and>
    fw_profilers (py_ffi (with_hooked_timer slot w)) = fw_profilers (py_ffi w)"
  using assms
  by (auto simp: with_hooked_timer_def claim_inv_def Let_def split: agent_state.splits option.splits backend.splits)

text \<open>Two worlds that agree on the claim and on the profilers.\<close>

definition same_claim :: "('w, 's, 'x, 'os) py_world \<Rightarrow> ('w, 's, 'x, 'os) py_world \<Rightarrow> bool" where
  "same_claim w w' \<longleftrightarrow>
     (mutex_value (fw_state (py_ffi w')) = Idle) = (mutex_value (fw_state (py_ffi w)) = Idle) \<and>
     (mutex_value (fw_state (py_ffi w')) = Busy) = (mutex_value (fw_state (py_ffi w)) = Busy) \<and>
     fw_profilers (py_ffi w') = fw_profilers (py_ffi w)"

lemma install_ctimer_inv:
  assumes "py_inv on_m on_s w" "install_ctimer_hooks F i w = (ok, w')"
  shows "py_inv on_m on_s w' \<and> same_claim w w'"
proof -
  obtain slot bw where w': "w' = with_hooked_timer slot (w\<lparr>py_ffi := (py_ffi w)\<lparr>fw_backend := bw\<rparr>\<rparr>)"
    using assms(2) by (auto simp: install_ctimer_hooks_def Let_def split: prod.splits)
  have "claim_inv on_m on_s (\<lambda>_. At_Rest, py_ffi (w\<lparr>py_ffi := (py_ffi w)\<lparr>fw_backend := bw\<rparr>\<rparr>))"
    using assms(1) by (auto simp: py_inv_def claim_inv_def Let_def split: agent_state.splits)
  from hooked_timer_inv [OF this, of slot] show ?thesis
    using assms(1) by (simp add: py_inv_def w' same_claim_def)
qed

text \<open>The part of a call that reaches \<open>run\<close>.\<close>

lemma initialize_cases:
  assumes "initialize_agent F i a w = q" "py_inv on_m on_s w"
  obtains (Refused) "q = Some (False, w)"
  | (Hooks) w1 where "py_inv on_m on_s w1" "q = Some (False, w1)" "same_claim w w1"
  | (Run) w1 where "py_inv on_m on_s w1" "same_claim w w1"
      "aa_cpu_enabled a \<or> aa_mem_enabled a"
      "aa_cpu_enabled a \<Longrightarrow> aa_cpu_implementation a \<noteq> ImplPySpy \<Longrightarrow> aa_oncpu a"
      "q = do { (result, fw) \<leftarrow> ffikit_run F (ci_start i)
                  (agent_builder_new (agent_config a) (agent_cpu_config i a) (agent_backend_config a) thread_tags_new)
                  (py_ffi w1);
                Some (case result of
                        Inr _ \<Rightarrow> (True, w1\<lparr>py_ffi := fw, AGENT_RUNNING := True\<rparr>)
                      | Inl _ \<Rightarrow> (False, w1\<lparr>py_ffi := fw\<rparr>)) }"
proof -
  obtain ok w1 where h: "(if aa_signal_timer a = PyCTimer \<and> agent_signal_config (ci_version i) a \<noteq> None
           then install_ctimer_hooks F i w else (True, w)) = (ok, w1)" by fastforce
  have h': "py_inv on_m on_s w1 \<and> same_claim w w1"
    using h assms(2) install_ctimer_inv [OF assms(2)] by (auto simp: same_claim_def split: if_splits)
  note Q = assms(1) [unfolded initialize_agent_def h Let_def prod.case]
  show thesis
  proof (cases "(\<not> aa_cpu_enabled a \<and> \<not> aa_mem_enabled a) \<or> (aa_cpu_enabled a \<and> aa_cpu_implementation a = ImplStack \<and> \<not> aa_oncpu a) \<or>
      (aa_cpu_enabled a \<and> aa_cpu_implementation a = ImplSignal \<and> \<not> aa_oncpu a)")
    case True
    then show thesis using assms(1) Refused by (auto simp: initialize_agent_def)
  next
    case False
    have o: "aa_cpu_enabled a \<Longrightarrow> aa_cpu_implementation a \<noteq> ImplPySpy \<Longrightarrow> aa_oncpu a"
      using False by (cases "aa_cpu_implementation a") auto
    show thesis
    proof (cases ok)
      case True
      show thesis
        by (rule Run [of w1]) (use h' o False True Q in auto)
    next
      case nok: False
      show thesis
        by (rule Hooks [of w1]) (use h' False nok Q in auto)
    qed
  qed
qed

lemma agent_cpu_signal:
  "agent_cpu_config i a = Some (CpuSignal c) \<Longrightarrow> aa_cpu_enabled a \<and> aa_cpu_implementation a = ImplSignal"
  by (auto simp: agent_cpu_config_def agent_pyspy_config_def agent_signal_config_def split: if_splits)

lemma claim_invD:
  assumes "claim_inv on_m on_s (\<lambda>_. At_Rest, f)"
  shows "\<not> mutex_poisoned (fw_state f)" "stack_inv on_s (pf_stack (fw_profilers f))"
    "mutex_value (fw_state f) = Idle \<Longrightarrow> profilers_on on_m None (fw_profilers f)"
    "mutex_value (fw_state f) = Running ag \<Longrightarrow> profilers_on on_m (Some (ag_config ag)) (fw_profilers f)"
  using assms by (auto simp: claim_inv_def Let_def split: agent_state.splits)

lemma run_py:
  assumes M: "memalloc_hooks (ae_memalloc (fe_agent F)) on_m" and E: "engine_runs (ae_engine (fe_agent F)) on_s"
    and I: "claim_inv on_m on_s (\<lambda>_. At_Rest, f)" and r: "ffikit_run F i ab f = Some (r, f')"
  shows "claim_inv on_m on_s (\<lambda>_. At_Rest, f') \<and>
    (\<exists>ag. mutex_value (fw_state f') = Running ag) = (r = Inr () \<or> (\<exists>ag. mutex_value (fw_state f) = Running ag)) \<and>
    (mutex_value (fw_state f') = Busy \<longrightarrow> f' = f)"
proof -
  have "claim_inv on_m on_s (\<lambda>_. At_Rest, f')"
    by (rule steps_inv [OF M E run_steps [of "\<lambda>_. At_Rest" 0, OF _ r] I]) simp
  moreover have "(\<exists>ag. mutex_value (fw_state f') = Running ag) = (r = Inr () \<or> (\<exists>ag. mutex_value (fw_state f) = Running ag)) \<and>
      (mutex_value (fw_state f') = Busy \<longrightarrow> f' = f)"
  proof (cases "mutex_value (fw_state f) = Idle")
    case True
    show ?thesis
      using run_state [OF claim_invD(1) [OF I] True M E claim_invD(2,3) [OF I], where i = i and ab = ab] True
      by (auto simp: r split: sum.splits)
  next
    case False
    then have "f' = f \<and> r \<noteq> Inr ()"
      using r by (auto simp: ffikit_run_def run_claim_def split: if_splits agent_state.splits)
    then show ?thesis by simp
  qed
  ultimately show ?thesis by blast
qed

lemma stop_py:
  assumes M: "memalloc_hooks (ae_memalloc (fe_agent F)) on_m" and E: "engine_runs (ae_engine (fe_agent F)) on_s"
    and I: "claim_inv on_m on_s (\<lambda>_. At_Rest, f)" and p: "panic_leaves (fe_agent F) (profilers_in f) p"
    and r: "ffikit_stop F now joined p f = Some (r, f')"
  shows "claim_inv on_m on_s (\<lambda>_. At_Rest, f') \<and> \<not> (\<exists>ag. mutex_value (fw_state f') = Running ag) \<and>
    (r = Inr ()) = (\<exists>ag. mutex_value (fw_state f) = Running ag) \<and> (mutex_value (fw_state f') = Busy \<longrightarrow> f' = f)"
proof -
  have "claim_inv on_m on_s (\<lambda>_. At_Rest, f')"
    by (rule steps_inv [OF M E stop_steps [of "\<lambda>_. At_Rest" 0, OF _ p r] I]) simp
  moreover have "\<not> (\<exists>ag. mutex_value (fw_state f') = Running ag) \<and> (r = Inr ()) = (\<exists>ag. mutex_value (fw_state f) = Running ag) \<and>
      (mutex_value (fw_state f') = Busy \<longrightarrow> f' = f)"
  proof (cases "mutex_value (fw_state f)")
    case (Running ag)
    then show ?thesis
      using stop_state [OF claim_invD(1) [OF I] Running M E claim_invD(2) [OF I] p, of now joined] r by auto
  qed (use r in \<open>auto simp: ffikit_stop_def stop_claim_def split: if_splits\<close>)
  ultimately show ?thesis by blast
qed

text \<open>What the child's hook makes of any state at all, also one in the middle of a call.\<close>

lemma fork_child_fresh:
  assumes M: "memalloc_hooks (ae_memalloc (fe_agent F)) on_m" and E: "engine_runs (ae_engine (fe_agent F)) on_s"
  shows "\<exists>c. at_fork_after_in_child F v = Some c \<and> fw_state (py_ffi c) = mutex_new Idle \<and> \<not> AGENT_RUNNING c \<and>
    profilers_on on_m None (fw_profilers (py_ffi c)) \<and> native_inv (pf_native (fw_profilers (py_ffi c))) (\<lambda>_. []) \<and>
    interned (nt_interner (pf_native (fw_profilers (py_ffi c)))) = [('''', 0)] \<and>
    ((on_s (sk_engine (pf_stack (fw_profilers (py_ffi v)))) \<longrightarrow> STARTED (pf_stack (fw_profilers (py_ffi v)))) \<longrightarrow>
      \<not> on_s (sk_engine (pf_stack (fw_profilers (py_ffi c))))) \<and>
    fw_backend (py_ffi c) = fw_backend (py_ffi v) \<and> py_leaked c = hooked_timer v \<and>
    (stack_inv on_s (pf_stack (fw_profilers (py_ffi v))) \<longrightarrow> py_inv on_m on_s (c\<lparr>py_leaked := slot\<rparr>))"
proof -
  define p where "p = fw_profilers (py_ffi v)"
  obtain mw n where m: "memory_postfork_child (ae_memalloc (fe_agent F)) (pf_memalloc p, pf_native p) = (mw, n)"
    by fastforce
  define q where "q = p\<lparr>pf_memalloc := mw, pf_native := (stack_postfork_child n)\<lparr>nt_interner := \<lparr>interned = [('''', 0)], table_poisoned = False\<rparr>\<rparr>\<rparr>"
  have pq: "pf_stack q = pf_stack p" by (simp add: q_def)
  from stop_profilers_any [OF M E, of q] obtain p' where p': "stop_profilers F q = Some p'"
    "profilers_on on_m None p'" "interned (nt_interner (pf_native p')) = [('''', 0)]"
    "\<And>bt. \<not> mutex_poisoned (builder_for bt (pf_native q)) \<Longrightarrow> window (builder_for bt (pf_native p')) []"
    "stack_inv on_s (pf_stack p) \<Longrightarrow> stack_inv on_s (pf_stack p')"
    "(on_s (sk_engine (pf_stack p)) \<longrightarrow> STARTED (pf_stack p)) \<longrightarrow> \<not> on_s (sk_engine (pf_stack p'))"
    unfolding pq by blast
  have np: "\<not> mutex_poisoned (builder_for bt (pf_native q))" for bt
    using m by (cases bt) (auto simp: q_def builder_for_def stack_postfork_child_def memory_postfork_child_def mutex_new_def)
  have "table_poisoned (nt_interner (pf_native p')) = False"
    using p'(1) by (auto simp: stop_profilers_def memory_stop_def stack_stop_def memory_clear_samples_def
        stack_clear_samples_def interner_clear_def q_def Let_def split: Option.bind_splits prod.splits)
  moreover have "st_wf [('''', 0 :: nat)]" by (rule st_new_wf [OF st_new_eq])
  ultimately have n: "native_inv (pf_native p') (\<lambda>_. [])"
    using p'(3) p'(4) [OF np] by (simp add: native_inv_def named_def)
  obtain c where c: "at_fork_after_in_child F v = Some c" "fw_profilers (py_ffi c) = p'"
    "fw_state (py_ffi c) = mutex_new Idle" "\<not> AGENT_RUNNING c" "fw_backend (py_ffi c) = fw_backend (py_ffi v)"
    "py_leaked c = hooked_timer v"
    using p'(1) m by (simp add: at_fork_after_in_child_def interner_postfork_def st_new_eq ffikit_at_fork_after_in_child_def
        q_def p_def Let_def)
  have "py_inv on_m on_s (c\<lparr>py_leaked := slot\<rparr>)" if "stack_inv on_s (pf_stack p)"
    using p'(2) p'(5) [OF that] c(2-4) by (simp add: py_inv_def claim_inv_def mutex_new_def)
  then show ?thesis
    using p'(2,3,6) n c by (simp add: p_def)
qed

lemma rest_upd: "((\<lambda>_. At_Rest) = (\<lambda>_. At_Rest)(t := pc)) = (pc = At_Rest)"
  by (metis fun_upd_same fun_upd_triv)

lemma tag_running:
  "ffikit_add_thread_tag tid tg st = (r, st') \<Longrightarrow>
   (\<exists>ag. mutex_value st' = Running ag) = (\<exists>ag. mutex_value st = Running ag)"
  "ffikit_remove_thread_tag tid tg st = (r, st') \<Longrightarrow>
   (\<exists>ag. mutex_value st' = Running ag) = (\<exists>ag. mutex_value st = Running ag)"
  by (auto simp: ffikit_add_thread_tag_def ffikit_remove_thread_tag_def
      split: if_splits agent_state.splits prod.splits)

lemma background_running:
  assumes "ffi_step F (\<lambda>_. At_Rest, f) (\<lambda>_. At_Rest, f')"
  shows "(\<exists>ag. mutex_value (fw_state f') = Running ag) = (\<exists>ag. mutex_value (fw_state f) = Running ag)"
  using assms
  by (cases rule: ffi_step.cases)
    (auto simp: rest_upd tag_running agent_wake_def split: option.splits)

text \<open>The background steps of a claimed state touch neither the claim nor the sampler's mark.\<close>

lemma background_busy:
  assumes "ffi_step F (\<lambda>_. At_Rest, f) (\<lambda>_. At_Rest, f')" "mutex_value (fw_state f') = Busy"
  shows "mutex_value (fw_state f) = Busy \<and> STARTED (pf_stack (fw_profilers f')) = STARTED (pf_stack (fw_profilers f))"
  using assms
  by (cases rule: ffi_step.cases)
    (auto simp: rest_upd ffikit_add_thread_tag_def ffikit_remove_thread_tag_def
      split: if_splits agent_state.splits prod.splits)

lemma agent_config_simps:
  "mem_enabled (mem_config (agent_config a)) = aa_mem_enabled a"
  "st_enabled (cf_stack_config (agent_config a)) = (aa_cpu_enabled a \<and> aa_cpu_implementation a = ImplStack)"
  "sample_rate (agent_config a) = aa_sample_rate a" "cf_tags (agent_config a) = aa_tags a"
  "cf_basic_auth (agent_config a) =
     (if aa_basic_auth_username a = [] \<or> aa_basic_auth_password a = [] then None
      else Some \<lparr>username = aa_basic_auth_username a, password = aa_basic_auth_password a\<rparr>)"
  "tenant_id (agent_config a) = (if aa_tenant_id a = [] then None else Some (aa_tenant_id a))"
  by (simp_all add: agent_config_def with_upload_interval_def with_runtime_def with_tags_def with_basic_auth_def
      with_tenant_id_def with_http_headers_def config_new_def Let_def)

text \<open>A panicked start leaves the sampler as it was: only the signal profiler panics.\<close>

lemma initialize_panic:
  assumes M: "memalloc_hooks (ae_memalloc (fe_agent F)) on_m" and E: "engine_runs (ae_engine (fe_agent F)) on_s"
    and I: "py_inv on_m on_s w" and idle: "mutex_value (fw_state (py_ffi w)) = Idle"
    and n: "initialize_agent F i a w = None"
    and p: "start_profilers F i' (agent_config a) (fw_profilers (py_ffi w)) = (r, p)"
  shows "\<not> STARTED (pf_stack p)"
proof (cases rule: initialize_cases [OF n I, case_names Refused Hooks Run])
  case (Run w1)
  let ?ab = "agent_builder_new (agent_config a) (agent_cpu_config i a) (agent_backend_config a) thread_tags_new"
  have C: "claim_inv on_m on_s (\<lambda>_. At_Rest, py_ffi w1)" and idle1: "mutex_value (fw_state (py_ffi w1)) = Idle"
    using Run(1,2) idle by (simp_all add: py_inv_def same_claim_def)
  have "ffikit_run F (ci_start i) ?ab (py_ffi w1) = None" using Run(5) by (auto split: Option.bind_splits)
  then have "aa_cpu_implementation a = ImplSignal"
    using run_state [OF claim_invD(1) [OF C] idle1 M E claim_invD(2,3) [OF C], where i = "ci_start i" and ab = ?ab]
      agent_cpu_signal [of i a] idle1 by (auto simp: agent_builder_new_def)
  then have "\<not> st_enabled (cf_stack_config (agent_config a))" by (simp add: agent_config_simps)
  moreover have "\<not> STARTED (pf_stack (fw_profilers (py_ffi w)))"
    using I idle by (auto simp: py_inv_def profilers_on_def dest: claim_invD(3))
  ultimately show ?thesis using start_profilers_stack [OF _ p] by simp
qed simp_all

lemma tag_py:
  assumes "py_inv on_m on_s w" "py_add_thread_tag tid k v w = (ok, w') \<or> py_remove_thread_tag tid k v w = (ok, w')"
  shows "py_inv on_m on_s w'"
proof -
  obtain r st where t: "ffikit_add_thread_tag tid (Tag k v) (fw_state (py_ffi w)) = (r, st) \<or>
      ffikit_remove_thread_tag tid (Tag k v) (fw_state (py_ffi w)) = (r, st)"
    and w': "w' = w\<lparr>py_ffi := (py_ffi w)\<lparr>fw_state := st\<rparr>\<rparr>"
    using assms(2) by (auto simp: py_add_thread_tag_def py_remove_thread_tag_def split: prod.splits)
  have "claim_inv on_m on_s (\<lambda>_. At_Rest, (py_ffi w)\<lparr>fw_state := st\<rparr>)"
    using tag_step_inv [OF _ t] assms(1) by (simp add: py_inv_def)
  moreover have "(\<exists>ag. mutex_value st = Running ag) = (\<exists>ag. mutex_value (fw_state (py_ffi w)) = Running ag)"
    using t tag_running by blast
  moreover have "mutex_value (fw_state (py_ffi w)) = Busy" if "mutex_value st = Busy"
    using t that by (auto simp: ffikit_add_thread_tag_def ffikit_remove_thread_tag_def
        split: if_splits agent_state.splits prod.splits)
  ultimately show ?thesis using assms(1) by (simp add: py_inv_def w')
qed

lemma py_step_inv:
  assumes M: "memalloc_hooks (ae_memalloc (fe_agent F)) on_m" and E: "engine_runs (ae_engine (fe_agent F)) on_s"
    and s: "py_step F w w'" and I: "py_inv on_m on_s w"
  shows "py_inv on_m on_s w'"
  using s I
proof (cases rule: py_step.cases)
  case (Initialize i a ok)
  show ?thesis
  proof (cases rule: initialize_cases [OF Initialize(1) I, case_names Refused Hooks Run])
    case Refused
    then show ?thesis using I by simp
  next
    case (Hooks w1)
    then show ?thesis by simp
  next
    case (Run w1)
    have C: "claim_inv on_m on_s (\<lambda>_. At_Rest, py_ffi w1)" using Run(1) by (simp add: py_inv_def)
    obtain r fw where r: "ffikit_run F (ci_start i)
        (agent_builder_new (agent_config a) (agent_cpu_config i a) (agent_backend_config a) thread_tags_new)
        (py_ffi w1) = Some (r, fw)" using Run(5) by (auto split: Option.bind_splits)
    show ?thesis
      using run_py [OF M E C r] Run(1,5) r by (cases r) (auto simp: py_inv_def)
  qed
next
  case (Initialize_Panic i a st r p bw slot)
  have v: "mutex_value (fw_state (py_ffi w)) = Idle" "st = (fw_state (py_ffi w))\<lparr>mutex_value := Busy\<rparr>"
    using Initialize_Panic(3) by (auto simp: run_claim_def split: if_splits agent_state.splits)
  have C: "claim_inv on_m on_s (\<lambda>_. At_Rest, py_ffi w)" using I by (simp add: py_inv_def)
  note S = start_profilers_inv [OF M E claim_invD(2) [OF C] claim_invD(3) [OF C v(1)] Initialize_Panic(4)]
  show ?thesis unfolding Initialize_Panic(1)
    using S I v claim_invD(1) [OF C] initialize_panic [OF M E I v(1) Initialize_Panic(2,4)]
    by (simp add: py_inv_def claim_inv_def)
next
  case (Drop p now joined ok)
  have C: "claim_inv on_m on_s (\<lambda>_. At_Rest, py_ffi w)" using I by (simp add: py_inv_def)
  obtain r fw where r: "ffikit_stop F now joined p (py_ffi w) = Some (r, fw)"
    "w' = (if is_ok r then w\<lparr>py_ffi := fw, AGENT_RUNNING := False\<rparr> else w\<lparr>py_ffi := fw\<rparr>)"
    using Drop(2) by (auto simp: drop_agent_def Let_def split: Option.bind_splits)
  show ?thesis
    using stop_py [OF M E C Drop(1) r(1)] I r(2) by (cases r) (auto simp: py_inv_def is_ok_def)
next
  case (Add_Tag tid k v ok)
  then show ?thesis using tag_py [OF I] by blast
next
  case (Remove_Tag tid k v ok)
  then show ?thesis using tag_py [OF I] by blast
next
  case (Logging level ok)
  then show ?thesis using I by (auto simp: py_inv_def initialize_logging_def Let_def split: option.splits)
next
  case (Configure show_f64 nframe nthreads adaptive overhead max_interval baseline window_s percentile timer interval_ms ok)
  then show ?thesis
    using I by (auto simp: py_inv_def configure_experimental_stack_profiler_def Let_def claim_inv_def
        set_options_def profilers_on_def stack_inv_def set_options_in_cases split: agent_state.splits prod.splits if_splits)
next
  case (Background fw)
  have C: "claim_inv on_m on_s (\<lambda>_. At_Rest, py_ffi w)" using I by (simp add: py_inv_def)
  have "claim_inv on_m on_s (\<lambda>_. At_Rest, fw)" by (rule ffi_step_inv [OF M E C Background(2)])
  then show ?thesis
    using I background_running [OF Background(2)] background_busy [OF Background(2)] Background(1)
    by (simp add: py_inv_def)
next
  case (Fork pcs f bw c slot)
  have "claim_inv on_m on_s (\<lambda>_. At_Rest, py_ffi w)" using I by (simp add: py_inv_def)
  from steps_inv [OF M E Fork(2) this] have "stack_inv on_s (pf_stack (fw_profilers f))"
    by (simp add: claim_inv_def Let_def)
  then show ?thesis
    using fork_child_fresh [OF M E, of "w\<lparr>py_ffi := f\<lparr>fw_backend := bw\<rparr>\<rparr>" slot] Fork(1,3) by auto
qed

lemma py_reachable_inv:
  assumes "memalloc_hooks (ae_memalloc (fe_agent F)) on_m" "engine_runs (ae_engine (fe_agent F)) on_s"
    and "py_reachable F on_m on_s w"
  shows "py_inv on_m on_s w"
  using assms(3)
proof (induction rule: py_reachable.induct)
  case (Load w eng)
  then show ?case
    by (simp add: py_inv_def claim_inv_def mutex_new_def profilers_on_def stack_inv_def stack_state_new_def)
next
  case (Call w w')
  then show ?case using py_step_inv [OF assms(1,2)] by blast
qed

text \<open>What an agent that was started was built from.\<close>

definition backend_matches :: "cpu_config option \<Rightarrow> backend option \<Rightarrow> bool" where
  "backend_matches cpu b =
     (case cpu of
        None \<Rightarrow> b = None
      | Some (CpuPySpy c) \<Rightarrow> \<exists>bf h. b = Some (BackendPySpy c bf h)
      | Some (CpuSignal c) \<Rightarrow> \<exists>s bf h. b = Some (BackendSignal c s bf h))"

lemma agent_build_matches:
  "agent_build S ab client bw = Some (Inr ag, bw') \<Longrightarrow>
   backend_matches (ab_cpu_config ab) (ag_backend ag) \<and> ag_config ag = ab_config ab \<and>
   ag_ruleset ag = ab_ruleset ab \<and> manager_open (ag_manager ag)"
  by (auto simp: agent_build_def backend_new_def backend_matches_def manager_open_def manager_inv_def manager_new_def
      split: Option.bind_splits sum.splits option.splits cpu_config.splits prod.splits)

lemma run_matches:
  assumes "mutex_value (fw_state f) = Idle" and "ffikit_run F i ab f = Some (Inr (), f')"
  shows "\<exists>ag. mutex_value (fw_state f') = Running ag \<and> ag_started ag \<and> backend_matches (ab_cpu_config ab) (ag_backend ag) \<and>
    ag_config ag = ab_config ab \<and> ag_ruleset ag = ab_ruleset ab \<and> manager_open (ag_manager ag)"
proof -
  obtain st w1 s where s: "run_started F i ab (f\<lparr>fw_state := st\<rparr>) = Some (s, w1)" "run_finish F s w1 = Some (Inr (), f')"
    using assms(2) by (auto simp: ffikit_run_def split: prod.splits sum.splits Option.bind_splits)
  obtain ag where ag: "s = Inr ag" "mutex_value (fw_state f') = Running ag"
    using s(2) by (auto simp: run_finish_def set_state_def split: sum.splits if_splits Option.bind_splits)
  have "\<exists>c bw bw' ag0. agent_build (fe_signal F) ab c bw = Some (Inr ag0, bw') \<and> ag = agent_start ag0"
    using s(1) ag(1) by (auto simp: run_started_def split: prod.splits sum.splits Option.bind_splits)
  then show ?thesis using ag(2) agent_build_matches by (fastforce simp: agent_start_def)
qed

text \<open>A claimed state refuses every start and stop.\<close>

lemma busy_refused:
  assumes I: "py_inv on_m on_s w" and busy: "mutex_value (fw_state (py_ffi w)) = Busy"
  shows "(\<exists>w'. initialize_agent F i a w = Some (False, w') \<and> mutex_value (fw_state (py_ffi w')) = Busy \<and>
      fw_profilers (py_ffi w') = fw_profilers (py_ffi w)) \<and>
    drop_agent F now joined p w = Some (False, w)"
proof -
  have np: "\<not> mutex_poisoned (fw_state (py_ffi w))" using I by (auto simp: py_inv_def dest: claim_invD(1))
  define q where "q = initialize_agent F i a w"
  have "\<exists>w'. q = Some (False, w') \<and> mutex_value (fw_state (py_ffi w')) = Busy \<and>
      fw_profilers (py_ffi w') = fw_profilers (py_ffi w)"
  proof (cases rule: initialize_cases [OF q_def [symmetric] I, case_names Refused Hooks Run])
    case (Run w1)
    have "\<not> mutex_poisoned (fw_state (py_ffi w1))" using Run(1) by (auto simp: py_inv_def dest: claim_invD(1))
    then show ?thesis
      using Run(2,5) busy by (simp add: same_claim_def ffikit_run_def run_claim_def)
  qed (use busy in \<open>auto simp: same_claim_def\<close>)
  moreover have "drop_agent F now joined p w = Some (False, w)"
    using np busy by (simp add: drop_agent_def ffikit_stop_def stop_claim_def is_ok_def)
  ultimately show ?thesis by (simp add: q_def)
qed

subsection \<open>Properties\<close>

text \<open>
  C6: what the module says of the agent between its calls, and what a fork makes of it. After any
  calls, one after the other in any order and with any arguments, failed or panicked starts and
  forks included, also forks that found other threads inside a start or stop: \<open>AGENT_RUNNING\<close>, and
  with it the fork warning, says exactly whether an agent runs. With no agent and no claim left both
  native profilers are off; while an agent runs the hooks are installed and the sampler was started
  exactly as its configuration asks; the sampler is at work only if it was started. A panicked start
  leaves the state claimed for good: every later start or stop returns false and it stays claimed,
  the sampler is off, but the allocation hooks stay as the start left them. The hook in the child of
  a fork returns whatever the state was at the fork, in the middle of any call too: then the state
  is idle, the flag off, both native profilers off, all buffers and the string table empty and
  usable; only a sampler that was at work without its mark (a fork between the two in \<open>stack::stop\<close>)
  is not told to stop. The signal profiler it leaves as it finds it, with its marks \<open>ACTIVE\<close> and
  \<open>HANDLED_SIGNALS\<close>, its handler and its registry of threads, as the TODO in the hook says.
\<close>

theorem python_calls_and_forks:
  assumes "memalloc_hooks (ae_memalloc (fe_agent F)) on_m" and "engine_runs (ae_engine (fe_agent F)) on_s"
    and "py_reachable F on_m on_s w"
  shows "(AGENT_RUNNING w \<longleftrightarrow> (\<exists>ag. mutex_value (fw_state (py_ffi w)) = Running ag)) \<and>
    (warn_about_fork proc w = None \<longleftrightarrow> \<not> (\<exists>ag. mutex_value (fw_state (py_ffi w)) = Running ag)) \<and>
    (on_s (sk_engine (pf_stack (fw_profilers (py_ffi w)))) \<longrightarrow> STARTED (pf_stack (fw_profilers (py_ffi w)))) \<and>
    (case mutex_value (fw_state (py_ffi w)) of
       Idle \<Rightarrow> profilers_on on_m None (fw_profilers (py_ffi w))
     | Busy \<Rightarrow> \<not> STARTED (pf_stack (fw_profilers (py_ffi w))) \<and>
         (\<forall>i a. \<exists>w'. initialize_agent F i a w = Some (False, w') \<and> mutex_value (fw_state (py_ffi w')) = Busy \<and>
            fw_profilers (py_ffi w') = fw_profilers (py_ffi w)) \<and>
         (\<forall>now joined p. drop_agent F now joined p w = Some (False, w))
     | Running ag \<Rightarrow> profilers_on on_m (Some (ag_config ag)) (fw_profilers (py_ffi w))) \<and>
    (case at_fork_after_in_child F v of
       None \<Rightarrow> False
     | Some c \<Rightarrow> fw_state (py_ffi c) = mutex_new Idle \<and> \<not> AGENT_RUNNING c \<and>
         profilers_on on_m None (fw_profilers (py_ffi c)) \<and>
         native_inv (pf_native (fw_profilers (py_ffi c))) (\<lambda>_. []) \<and>
         interned (nt_interner (pf_native (fw_profilers (py_ffi c)))) = [('''', 0)] \<and>
         ((on_s (sk_engine (pf_stack (fw_profilers (py_ffi v)))) \<longrightarrow> STARTED (pf_stack (fw_profilers (py_ffi v)))) \<longrightarrow>
            \<not> on_s (sk_engine (pf_stack (fw_profilers (py_ffi c))))) \<and>
         fw_backend (py_ffi c) = fw_backend (py_ffi v) \<and> py_leaked c = hooked_timer v)"
proof -
  note I = py_reachable_inv [OF assms]
  then have C: "claim_inv on_m on_s (\<lambda>_. At_Rest, py_ffi w)" by (simp add: py_inv_def)
  have on: "on_s (sk_engine (pf_stack (fw_profilers (py_ffi w)))) \<longrightarrow> STARTED (pf_stack (fw_profilers (py_ffi w)))"
    using claim_invD(2) [OF C] by (simp add: stack_inv_def)
  obtain c where c: "at_fork_after_in_child F v = Some c" "fw_state (py_ffi c) = mutex_new Idle" "\<not> AGENT_RUNNING c"
    "profilers_on on_m None (fw_profilers (py_ffi c))" "native_inv (pf_native (fw_profilers (py_ffi c))) (\<lambda>_. [])"
    "interned (nt_interner (pf_native (fw_profilers (py_ffi c)))) = [('''', 0)]"
    "(on_s (sk_engine (pf_stack (fw_profilers (py_ffi v)))) \<longrightarrow> STARTED (pf_stack (fw_profilers (py_ffi v)))) \<longrightarrow>
      \<not> on_s (sk_engine (pf_stack (fw_profilers (py_ffi c))))"
    "fw_backend (py_ffi c) = fw_backend (py_ffi v)" "py_leaked c = hooked_timer v"
    using fork_child_fresh [OF assms(1,2), of v] by blast
  show ?thesis
  proof (cases "mutex_value (fw_state (py_ffi w))")
    case Busy
    then show ?thesis
      using I on c busy_refused [OF I Busy, of F] by (simp add: py_inv_def warn_about_fork_def)
  qed (use I on c claim_invD(3,4) [OF C] in \<open>auto simp: py_inv_def warn_about_fork_def\<close>)
qed

text \<open>
  C23: what \<open>initialize_agent\<close> starts is what its arguments ask for. From an idle process it returns
  true only if CPU or memory profiling is asked for, and the \<open>Stack\<close> and \<open>Signal\<close> profilers only with
  \<open>oncpu\<close>; then an agent runs whose backend is the one CPU implementation asked for, or none, with the
  hooks and the sampler on exactly as asked, credentials only if both parts are given, a tenant only
  if one is given, no thread tags yet and a session manager that takes sessions. Otherwise it
  returns false with no agent and every profiler off. Only the signal profiler can panic.
\<close>

theorem initialize_agent_outcome:
  assumes "memalloc_hooks (ae_memalloc (fe_agent F)) on_m" and "engine_runs (ae_engine (fe_agent F)) on_s"
    and "py_reachable F on_m on_s w" and "mutex_value (fw_state (py_ffi w)) = Idle"
  shows "case initialize_agent F i a w of
      None \<Rightarrow> aa_cpu_enabled a \<and> aa_cpu_implementation a = ImplSignal
    | Some (False, w') \<Rightarrow> mutex_value (fw_state (py_ffi w')) = Idle \<and> \<not> AGENT_RUNNING w' \<and>
        profilers_on on_m None (fw_profilers (py_ffi w'))
    | Some (True, w') \<Rightarrow>
        (aa_cpu_enabled a \<or> aa_mem_enabled a) \<and>
        (aa_cpu_enabled a \<and> aa_cpu_implementation a \<noteq> ImplPySpy \<longrightarrow> aa_oncpu a) \<and> AGENT_RUNNING w' \<and>
        on_m (pf_memalloc (fw_profilers (py_ffi w'))) = aa_mem_enabled a \<and>
        on_s (sk_engine (pf_stack (fw_profilers (py_ffi w')))) =
          (aa_cpu_enabled a \<and> aa_cpu_implementation a = ImplStack) \<and>
        (\<exists>ag. mutex_value (fw_state (py_ffi w')) = Running ag \<and> ag_started ag \<and> ag_config ag = agent_config a \<and>
           (if aa_cpu_enabled a \<and> aa_cpu_implementation a = ImplPySpy
            then \<exists>c bf h. ag_backend ag = Some (BackendPySpy c bf h) \<and> cfg_sampling_rate c = aa_sample_rate a \<and>
              include_idle c = (\<not> aa_oncpu a) \<and> gil_only c = aa_gil_only a
            else if aa_cpu_enabled a \<and> aa_cpu_implementation a = ImplSignal
            then \<exists>c s bf h. ag_backend ag = Some (BackendSignal c s bf h) \<and> sampling_rate c = aa_sample_rate a
            else ag_backend ag = None) \<and>
           (cf_basic_auth (ag_config ag) = None \<longleftrightarrow> aa_basic_auth_username a = [] \<or> aa_basic_auth_password a = []) \<and>
           (tenant_id (ag_config ag) = None \<longleftrightarrow> aa_tenant_id a = []) \<and>
           ag_ruleset ag = thread_tags_new \<and> manager_open (ag_manager ag))"
proof -
  note I = py_reachable_inv [OF assms(1-3)]
  define q where "q = initialize_agent F i a w"
  note q = q_def [symmetric]
  show ?thesis
  proof (cases rule: initialize_cases [OF q I, case_names Refused Hooks Run])
    case Refused
    then show ?thesis
      using I assms(4) unfolding q by (auto simp: py_inv_def dest: claim_invD(3))
  next
    case (Hooks w1)
    then show ?thesis
      using assms(4) unfolding q by (auto simp: py_inv_def same_claim_def dest: claim_invD(3))
  next
    case (Run w1)
    let ?ab = "agent_builder_new (agent_config a) (agent_cpu_config i a) (agent_backend_config a) thread_tags_new"
    have C: "claim_inv on_m on_s (\<lambda>_. At_Rest, py_ffi w1)" and idle: "mutex_value (fw_state (py_ffi w1)) = Idle"
      using Run(1,2) assms(4) by (simp_all add: py_inv_def same_claim_def)
    have na: "\<not> AGENT_RUNNING w1" using Run(1) idle by (simp add: py_inv_def)
    note S = run_state [OF claim_invD(1) [OF C] idle assms(1,2) claim_invD(2) [OF C] claim_invD(3) [OF C idle],
        where i = "ci_start i" and ab = ?ab]
    show ?thesis
    proof (cases "ffikit_run F (ci_start i) ?ab (py_ffi w1)")
      case None
      then show ?thesis
        using S Run(5) agent_cpu_signal [of i a] unfolding q by (auto simp: agent_builder_new_def)
    next
      case (Some x)
      obtain r f where x: "x = (r, f)" by (cases x)
      note C' = conjunct1 [OF run_py [OF assms(1,2) C Some [unfolded x]]]
      show ?thesis
      proof (cases r)
        case (Inl e)
        then have "mutex_value (fw_state f) = Idle" using S Some x by simp
        then show ?thesis
          using Run(5) Some x Inl na claim_invD(3) [OF C'] unfolding q by simp
      next
        case (Inr u)
        obtain ag where ag: "mutex_value (fw_state f) = Running ag" "ag_started ag"
          "backend_matches (agent_cpu_config i a) (ag_backend ag)" "ag_config ag = agent_config a"
          "ag_ruleset ag = thread_tags_new" "manager_open (ag_manager ag)"
          using run_matches [OF idle, of F "ci_start i" ?ab f] Some x Inr by (auto simp: agent_builder_new_def)
        have on: "on_m (pf_memalloc (fw_profilers f)) = aa_mem_enabled a"
          "on_s (sk_engine (pf_stack (fw_profilers f))) = (aa_cpu_enabled a \<and> aa_cpu_implementation a = ImplStack)"
          using claim_invD(4) [OF C' ag(1)] S ag(4) Some x Inr
          by (simp_all add: profilers_on_def agent_config_simps agent_builder_new_def)
        have b: "if aa_cpu_enabled a \<and> aa_cpu_implementation a = ImplPySpy
            then \<exists>c bf h. ag_backend ag = Some (BackendPySpy c bf h) \<and> cfg_sampling_rate c = aa_sample_rate a \<and>
              include_idle c = (\<not> aa_oncpu a) \<and> gil_only c = aa_gil_only a
            else if aa_cpu_enabled a \<and> aa_cpu_implementation a = ImplSignal
            then \<exists>c s bf h. ag_backend ag = Some (BackendSignal c s bf h) \<and> sampling_rate c = aa_sample_rate a
            else ag_backend ag = None"
          using ag(3) by (auto simp: backend_matches_def agent_cpu_config_def agent_pyspy_config_def
              agent_signal_config_def split: if_splits)
        have "q = Some (True, w1\<lparr>py_ffi := f, AGENT_RUNNING := True\<rparr>)" using Run(5) Some x Inr by simp
        then show ?thesis
          unfolding q using Run(3,4) ag(1,2,4-6) on b by (simp add: agent_config_simps) (auto split: if_splits)
      qed
    qed
  qed
qed

subsection \<open>Witnesses\<close>

definition example_py_world :: "'os backend_world \<Rightarrow> (bool, bool, nat, 'os) py_world" where
  "example_py_world bw = \<lparr>py_ffi = example_world bw, AGENT_RUNNING = False, py_leaked = None, RUST_LOG = None,
     py_logger = None\<rparr>"

definition example_args :: agent_args where
  "example_args = \<lparr>aa_application_name = ''app'', aa_server_address = ''http://x'', aa_basic_auth_username = ''u'',
     aa_basic_auth_password = '''', aa_sample_rate = 100, aa_oncpu = True, aa_gil_only = True, aa_report_pid = False,
     aa_report_thread_id = False, aa_report_thread_name = False, aa_runtime_name = '''', aa_runtime_version = '''',
     aa_tags = [], aa_tenant_id = ''t'', aa_http_headers = [], aa_line_no = FirstLine, aa_upload_interval = 10,
     aa_mem_enabled = True, aa_mem_max_nframe = 9, aa_mem_heap_sample_size = 512, aa_mem_enable_mem_domain = False,
     aa_cpu_enabled = True, aa_cpu_implementation = ImplPySpy, aa_signal_timer = PyITimer\<rparr>"

definition example_inputs :: "nat call_inputs" where
  "example_inputs = \<lparr>ci_start = \<lparr>si_hooks = ([], True), si_client = Inr 0, si_now = 0\<rparr>, ci_process_id = 1,
     ci_version = (3, 12), ci_ctimer_hooks = ([], True)\<rparr>"

lemma example_py_reachable: "py_reachable (example_ffi_env S) (\<lambda>w. w) (\<lambda>s. s) (example_py_world bw)"
  by (rule py_reachable.Load [where eng = False])
    (simp_all add: example_py_world_def example_world_def example_profilers_def)

lemma example_initializes:
  "\<exists>w'. initialize_agent (example_ffi_env S) example_inputs example_args (example_py_world bw) = Some (True, w')"
  by (simp add: initialize_agent_def example_args_def example_inputs_def agent_config_def agent_cpu_config_def
      agent_pyspy_config_def example_py_world_def ffikit_run_def run_claim_def run_started_def run_finish_def
      set_state_def example_world_def mutex_new_def start_profilers_def memory_start_def example_ffi_env_def
      example_agent_env_def example_memalloc_def agent_builder_new_def stack_start_def config_new_def
      with_upload_interval_def with_runtime_def with_tags_def with_http_headers_def with_tenant_id_def
      create_http_client_def no_dispatch_semaphore_def agent_build_def backend_new_def pyspy_new_def Let_def)

theorem initialize_agent_outcome_witness:
  "\<forall>(S :: nat signal_env) bw. \<exists>w' ag.
     initialize_agent (example_ffi_env S) example_inputs example_args (example_py_world bw) = Some (True, w') \<and>
     mutex_value (fw_state (py_ffi w')) = Running ag \<and> (\<exists>c bf h. ag_backend ag = Some (BackendPySpy c bf h) \<and> gil_only c) \<and>
     cf_basic_auth (ag_config ag) = None \<and> tenant_id (ag_config ag) \<noteq> None"
proof (intro allI)
  fix S :: "nat signal_env" and bw
  obtain w' where w: "initialize_agent (example_ffi_env S) example_inputs example_args (example_py_world bw) = Some (True, w')"
    using example_initializes by blast
  have "mutex_value (fw_state (py_ffi (example_py_world bw))) = Idle"
    by (simp add: example_py_world_def example_world_def mutex_new_def)
  from initialize_agent_outcome [where F = "example_ffi_env S", OF example_env_laws example_py_reachable this,
      where i = example_inputs and a = example_args] w
  show "\<exists>w' ag. initialize_agent (example_ffi_env S) example_inputs example_args (example_py_world bw) = Some (True, w') \<and>
     mutex_value (fw_state (py_ffi w')) = Running ag \<and> (\<exists>c bf h. ag_backend ag = Some (BackendPySpy c bf h) \<and> gil_only c) \<and>
     cf_basic_auth (ag_config ag) = None \<and> tenant_id (ag_config ag) \<noteq> None"
    by (auto simp: example_args_def)
qed

theorem python_calls_and_forks_witness:
  "\<forall>(S :: nat signal_env) bw. \<exists>w' c.
     initialize_agent (example_ffi_env S) example_inputs example_args (example_py_world bw) = Some (True, w') \<and>
     warn_about_fork 1 w' \<noteq> None \<and> at_fork_after_in_child (example_ffi_env S) w' = Some c \<and>
     warn_about_fork 1 c = None"
proof (intro allI)
  fix S :: "nat signal_env" and bw
  obtain w' where w: "initialize_agent (example_ffi_env S) example_inputs example_args (example_py_world bw) = Some (True, w')"
    using example_initializes by blast
  have r: "py_reachable (example_ffi_env S) (\<lambda>w. w) (\<lambda>s. s) w'"
    by (rule py_reachable.Call [OF example_py_reachable py_step.Initialize [OF w]])
  have "AGENT_RUNNING w'"
    using w by (auto simp: initialize_agent_def Let_def split: if_splits sum.splits prod.splits Option.bind_splits)
  with python_calls_and_forks [where F = "example_ffi_env S", OF example_env_laws r, where proc = 1 and v = w'] w
  show "\<exists>w' c. initialize_agent (example_ffi_env S) example_inputs example_args (example_py_world bw) = Some (True, w') \<and>
     warn_about_fork 1 w' \<noteq> None \<and> at_fork_after_in_child (example_ffi_env S) w' = Some c \<and>
     warn_about_fork 1 c = None"
    by (auto simp: warn_about_fork_def split: option.splits)
qed

end
