(* ===== verification/Upload_Request.thy ===== *)
theory Upload_Request
  imports Lib
begin

text \<open>
  What an upload sends, and what a panic of it does, across \<open>session.rs\<close>, \<open>encode/pprof.rs\<close>,
  \<open>pyroscope.rs\<close> and \<open>lib.rs\<close>: \<open>Session::push\<close> as a whole, from the batches of a session to
  the request, and the agent after the upload thread has ended.
\<close>

subsection \<open>The series of a request\<close>

text \<open>The state after drawing identifiers for \<open>n\<close> series.\<close>

definition after_draws :: "('u, 'w) upload_env \<Rightarrow> nat \<Rightarrow> 'w \<Rightarrow> 'w" where
  "after_draws U n w = ((\<lambda>w. snd (ue_uuid U w)) ^^ n) w"

text \<open>
  The bytes a batch is sent as: those of a native profile, or the encoding of a profile that reads
  back as every stack, tag and value of the reports.
\<close>

definition carries :: "('u, 'w) upload_env \<Rightarrow> session_data \<Rightarrow> report_data \<Rightarrow> nat list \<Rightarrow> bool" where
  "carries U s d data \<longleftrightarrow>
     (case d of
        RawPprof bytes \<Rightarrow> data = bytes
      | Reports rs \<Rightarrow>
          \<exists>p. data = ue_wire_profile U p \<and> 0 < sample_rate (se_config s) \<and>
            pprof_sample_types p = Some [(''cpu'', ''nanoseconds'')] \<and>
            pprof_samples p = Some (List.map
              (\<lambda>(t, n). (frames t, tags (metadata t), [sample_total n (1000000000 div int (sample_rate (se_config s)))]))
              (concat (List.map report_data rs))))"

definition series_for :: "('u, 'w) upload_env \<Rightarrow> session_data \<Rightarrow> report_batch \<Rightarrow> raw_profile_series \<Rightarrow> bool" where
  "series_for U s b x \<longleftrightarrow>
     rp_labels x = labels_for_profile (se_config s) (profile_type b) \<and>
     (\<exists>data i. rp_samples x = [\<lparr>raw_profile = data, rs_id = i\<rparr>] \<and> carries U s (batch_data b) data)"

lemma raw_profile_carries: "raw_profile_of U s d = Some data \<Longrightarrow> carries U s d data"
proof (cases d)
  case (Reports rs)
  assume "raw_profile_of U s d = Some data"
  then obtain p where p: "encode rs (sample_rate (se_config s)) (se_time_range s) = Some p"
    "data = ue_wire_profile U p" using Reports by (auto simp: raw_profile_of_def)
  have "expected_sample (1000000000 div int (sample_rate (se_config s))) =
      (\<lambda>(t, n). (frames t, tags (metadata t), [sample_total n (1000000000 div int (sample_rate (se_config s)))]))"
    by (simp add: fun_eq_iff expected_sample_def)
  then show ?thesis using encode_ok [OF p(1)] p(2) Reports by (auto simp: carries_def)
qed (simp add: raw_profile_of_def carries_def)

lemma push_series_cases:
  "case push_series U s bs w of
     None \<Rightarrow> \<exists>b\<in>set bs. raw_profile_of U s (batch_data b) = None
   | Some (series, w') \<Rightarrow> w' = after_draws U (length bs) w \<and> list_all2 (series_for U s) bs series"
proof (induction bs arbitrary: w)
  case Nil
  then show ?case by (simp add: after_draws_def)
next
  case (Cons b bs)
  show ?case
  proof (cases "raw_profile_of U s (batch_data b)")
    case None
    then show ?thesis by simp
  next
    case (Some data)
    obtain i w1 where i: "ue_uuid U w = (i, w1)" by (cases "ue_uuid U w")
    have d: "after_draws U (length bs) w1 = after_draws U (length (b # bs)) w"
      by (simp add: after_draws_def i funpow_Suc_right del: funpow.simps)
    show ?thesis
    proof (cases "push_series U s bs w1")
      case None
      then show ?thesis using Cons.IH [where w = w1] Some i by simp
    next
      case (Some y)
      then show ?thesis
        using Cons.IH [where w = w1] \<open>raw_profile_of U s (batch_data b) = Some data\<close> raw_profile_carries i d
        by (cases y) (simp add: series_for_def)
    qed
  qed
qed

subsection \<open>Properties of the upload\<close>

text \<open>
  C3: An upload sends one request or none, and the request is the session. After drawing an
  identifier per series the upload calls the server at most once, on the push path of the
  configured URL, with the standard and the configured headers, and with a body that is the
  compressed encoding of one series per batch, in order: the labels of its profile type and one
  sample, which holds the native profile's bytes or reads back as the reports' stacks, tags
  and values. The server's answer, whatever its status, is a success; compression, a URL that
  does not parse and the transport give their errors. It panics only if reports cannot be encoded
  or the URL cannot have a path.
\<close>

theorem session_upload_request:
  "case session_push U s w of
     None \<Rightarrow> (\<exists>b\<in>set (se_batch s). raw_profile_of U s (batch_data b) = None) \<or>
       (\<exists>url. ue_parse_url U (cf_url (se_config s)) = Inr url \<and>
         Option.bind (ue_url_push U ''push.v1.PusherService'' url) (ue_url_push U ''Push'') = None)
   | Some (r, w') \<Rightarrow>
       \<exists>series. list_all2 (series_for U s) (se_batch s) series \<and>
         (let w1 = after_draws U (length (se_batch s)) w
          in case ue_gzip U (ue_wire_request U \<lparr>pr_series = series\<rparr>) of
               Inl e \<Rightarrow> r = Inl (Io e) \<and> w' = w1
             | Inr body \<Rightarrow>
                 (case ue_parse_url U (cf_url (se_config s)) of
                    Inl e \<Rightarrow> r = Inl (ParseError e) \<and> w' = w1
                  | Inr url \<Rightarrow>
                      \<exists>url'. Option.bind (ue_url_push U ''push.v1.PusherService'' url) (ue_url_push U ''Push'') = Some url' \<and>
                        (let sent = ue_send U \<lparr>rq_url = ue_url_text U url', rq_headers = request_headers (se_config s),
                               rq_basic_auth = map_option (\<lambda>a. (username a, password a)) (cf_basic_auth (se_config s)),
                               rq_body = body, rq_timeout_s = 10\<rparr> w1
                         in w' = snd sent \<and> r = (case fst sent of Inl e \<Rightarrow> Inl (Reqwest e) | Inr _ \<Rightarrow> Inr ()))))"
proof (cases "push_series U s (se_batch s) w")
  case None
  then show ?thesis using push_series_cases [where U = U and s = s and bs = "se_batch s" and w = w] by (simp add: session_push_def)
next
  case (Some y)
  obtain series w1 where y: "y = (series, w1)" by (cases y)
  have S: "w1 = after_draws U (length (se_batch s)) w" "list_all2 (series_for U s) (se_batch s) series"
    using push_series_cases [where U = U and s = s and bs = "se_batch s" and w = w] by (simp_all add: Some y)
  show ?thesis
  proof (cases "session_push U s w")
    case None
    then show ?thesis
      using Some by (auto simp: y session_push_def Let_def split: Option.bind_splits sum.splits prod.splits)
  next
    case out: (Some x)
    obtain r w' where x: "x = (r, w')" by (cases x)
    show ?thesis
      unfolding out x option.case prod.case
      by (rule exI [of _ series])
        (use Some out S(2) in \<open>auto simp: x y S(1) session_push_def Let_def split: Option.bind_splits sum.splits prod.splits\<close>)
  qed
qed

subsection \<open>When an upload panics\<close>

text \<open>A session that still has reports to encode, with the configuration of a zero sample rate.\<close>

definition unencodable :: "session_data \<Rightarrow> bool" where
  "unencodable s \<longleftrightarrow> sample_rate (se_config s) = 0 \<and> (\<exists>b\<in>set (se_batch s). \<exists>rs. batch_data b = Reports rs)"

lemma unencodable_ends_manager: "unencodable s \<Longrightarrow> ends_manager U (Upload s)"
proof -
  assume "unencodable s"
  then obtain b rs where b: "b \<in> set (se_batch s)" "batch_data b = Reports rs" "sample_rate (se_config s) = 0"
    by (auto simp: unencodable_def)
  obtain i where i: "i < length (se_batch s)" "se_batch s ! i = b" using b(1) by (auto simp: in_set_conv_nth)
  have no: "\<not> list_all2 (series_for U s) (se_batch s) series" for series
    using list_all2_nthD [of "series_for U s" "se_batch s" series, OF _ i(1)] i(2) b(2,3)
    by (auto simp: series_for_def carries_def)
  have "push_series U s (se_batch s) w = None" for w
    using push_series_cases [where U = U and s = s and bs = "se_batch s" and w = w] no by (auto split: option.splits)
  then show ?thesis by (simp add: ends_manager_def session_push_def)
qed

lemma send_waiting_done: "mg_done m \<Longrightarrow> send_waiting U sig m = (Inl (send_error ''sending on a closed channel''), m)"
  by (simp add: send_waiting_def manager_send_def)

lemma snapshot_done:
  assumes "mg_done m" and "snapshot A reporter config now (sw, p, m) = Some (r, sw', p', m')"
  shows "m' = m"
  using snapshot_cases [OF assms(2)] assms(1) by (auto simp: send_waiting_done split: sum.splits)

lemma main_loop_done:
  "mg_done m \<Longrightarrow> main_loop A reporter config ws (sw, p, m) = Some (res, sw', p', m') \<Longrightarrow> m' = m"
proof (induction ws arbitrary: sw p m)
  case (Cons x ws)
  show ?case
  proof (cases x)
    case (Timed_Out now)
    then obtain r sw1 p1 m1 where s: "snapshot A reporter config now (sw, p, m) = Some (r, sw1, p1, m1)"
      "(case r of Inl e \<Rightarrow> Some (Some (Inl e), sw1, p1, m1) | Inr _ \<Rightarrow> main_loop A reporter config ws (sw1, p1, m1)) =
       Some (res, sw', p', m')"
      using Cons.prems(2) by (auto split: Option.bind_splits)
    have "m1 = m" by (rule snapshot_done [OF Cons.prems(1) s(1)])
    then show ?thesis using s(2) Cons.IH [OF Cons.prems(1)] by (auto split: sum.splits)
  next
    case (Disconnected now)
    then show ?thesis using Cons.prems snapshot_done [OF Cons.prems(1)] by (auto split: Option.bind_splits)
  next
    case Message
    then show ?thesis using Cons.prems Cons.IH by simp
  qed
qed simp

lemma send_waiting_queue:
  assumes "manager_inv m" and "send_waiting U sig m = (Inr (), m')"
  shows "sig \<in> set (mg_queue m')"
proof (cases "manager_send sig m")
  case (Some rm)
  then show ?thesis using assms(2) by (auto simp: send_waiting_def manager_send_def split: if_splits)
next
  case None
  have "mg_sent m' \<noteq> mg_sent m" using send_waiting_cases [OF assms] by simp
  then show ?thesis using assms(2) None by (auto simp: send_waiting_def manager_send_def split: if_splits)
qed

lemma snapshot_keeps_buffer:
  "snapshot_memory A config tr p = Some (b, p') \<Longrightarrow> pf_buffer p' = pf_buffer p"
  "snapshot_stack A config tr p = Some (b, p') \<Longrightarrow> pf_buffer p' = pf_buffer p"
  by (auto simp: snapshot_memory_def snapshot_stack_def Let_def split: if_splits Option.bind_splits prod.splits)

lemma snapshot_sends_reports:
  assumes s: "snapshot A (Some None) config now (sw, p, m) = Some (Inr (), sw', p', m')"
    and "0 \<le> sw_start sw"
    and ne: "\<not> batch_is_empty \<lparr>profile_type = ''process_cpu'',
      batch_data = Reports (buffer_reports (ae_hash A) (mutex_value (pf_buffer p)))\<rparr>"
  shows "\<exists>x. send_waiting (ae_upload A) (Upload x) m = (Inr (), m') \<and> se_config x = config \<and>
    (\<exists>b\<in>set (se_batch x). \<exists>rs. batch_data b = Reports rs)"
proof -
  obtain tr where tr: "lap now sw = (Inr tr, sw\<lparr>sw_start := now\<rparr>)"
    using assms(2) by (simp add: lap_def time_range_new_def)
  obtain b1 p1 b2 p2 r p3 where x: "snapshot_memory A config tr p = Some (b1, p1)"
    "snapshot_stack A config tr p1 = Some (b2, p2)" "snapshot_reporter A (Some None) config tr p2 = Some (r, p3)"
    using s by (auto simp: snapshot_def tr split: Option.bind_splits)
  have buf: "pf_buffer p2 = pf_buffer p" using snapshot_keeps_buffer x(1,2) by metis
  show ?thesis
  proof (cases r)
    case (Inl e)
    then show ?thesis using s by (simp add: snapshot_def tr x)
  next
    case (Inr b3)
    then have "b3 = [\<lparr>profile_type = ''process_cpu'',
        batch_data = Reports (buffer_reports (ae_hash A) (mutex_value (pf_buffer p)))\<rparr>]"
      using x(3) ne by (auto simp: snapshot_reporter_def reporter_report_def with_lock_def buf split: if_splits)
    then show ?thesis
      using s Inr by (auto simp: snapshot_def tr x session_new_def Let_def split: prod.splits)
  qed
qed

text \<open>
  C24: An agent configured with a sample rate of zero stops profiling for good at its first report.
  \<open>initialize_agent\<close> passes the rate on unchecked; once a snapshot has queued a session with stacks of
  the py-spy backend, the upload thread ends within the turns it takes to reach it; from then on every
  send is refused and the main thread, whenever it wakes, sends nothing more.
\<close>

theorem zero_rate_ends_profiling:
  assumes "config = agent_config a" and "aa_sample_rate a = 0" and "manager_inv m" and "0 \<le> sw_start sw"
    and "snapshot A (Some None) config now (sw, p, m) = Some (Inr (), sw', p', m')"
    and "\<not> batch_is_empty \<lparr>profile_type = ''process_cpu'',
      batch_data = Reports (buffer_reports (ae_hash A) (mutex_value (pf_buffer p)))\<rparr>"
  shows "let m1 = (manager_turn (ae_upload A) ^^ length (mg_queue m')) m'
    in mg_done m1 \<and> send_waiting (ae_upload A) sig m1 = (Inl (send_error ''sending on a closed channel''), m1) \<and>
       (case main_loop A (Some None) config ws (sw', p', m1) of
          None \<Rightarrow> True | Some (_, _, _, m2) \<Rightarrow> m2 = m1)"
proof -
  define m1 where "m1 = (manager_turn (ae_upload A) ^^ length (mg_queue m')) m'"
  obtain x where x: "send_waiting (ae_upload A) (Upload x) m = (Inr (), m')" "se_config x = config"
    "\<exists>b\<in>set (se_batch x). \<exists>rs. batch_data b = Reports rs"
    using snapshot_sends_reports [OF assms(5,4,6)] by blast
  have "sample_rate config = 0" using assms(1,2) by (simp add: agent_config_simps)
  then have "unencodable x" using x(2,3) by (simp add: unencodable_def)
  then have d: "mg_done m1"
    unfolding m1_def by (rule manager_ends [OF send_waiting_queue [OF assms(3) x(1)] unencodable_ends_manager]) simp
  then show ?thesis
    unfolding m1_def [symmetric] Let_def
    using main_loop_done [OF d, of A "Some None" config ws sw' p'] by (auto simp: send_waiting_done split: option.splits)
qed

subsection \<open>Witnesses\<close>

definition zero_rate_args :: agent_args where
  "zero_rate_args = example_args\<lparr>aa_sample_rate := 0, aa_mem_enabled := False, aa_cpu_enabled := True,
     aa_cpu_implementation := ImplPySpy\<rparr>"

definition sampled_profilers :: "(bool, bool) profilers" where
  "sampled_profilers = example_profilers\<lparr>pf_buffer := mutex_new [(example_trace, 3)]\<rparr>"

theorem zero_rate_ends_profiling_witness:
  "\<exists>sw' p' m' m1. snapshot example_agent_env (Some None) (agent_config zero_rate_args) 5
       (stop_watch_new 2, sampled_profilers, manager_new 0) = Some (Inr (), sw', p', m') \<and>
     m1 = (manager_turn example_upload ^^ length (mg_queue m')) m' \<and> mg_done m1 \<and>
     send_waiting example_upload Kill m1 = (Inl (send_error ''sending on a closed channel''), m1)"
proof -
  let ?c = "agent_config zero_rate_args"
  let ?rs = "buffer_reports (\<lambda>_. 0) [(example_trace, 3)]"
  have c: "\<not> mem_enabled (mem_config ?c)" "\<not> st_enabled (cf_stack_config ?c)"
    by (simp_all add: agent_config_simps zero_rate_args_def)
  have one: "concat (List.map report_data ?rs) = [(example_trace, 3)]"
    by (simp add: buffer_reports_def group_step_def report_record_with_count_def report_with_metadata_def
        report_new_def entry_add_def usize_add_def)
  have "concat (List.map report_data ?rs) = []"
    if "batch_is_empty \<lparr>profile_type = ''process_cpu'', batch_data = Reports ?rs\<rparr>"
    using that by (simp add: batch_is_empty_def list_all_iff)
  then have ne: "\<not> batch_is_empty \<lparr>profile_type = ''process_cpu'', batch_data = Reports ?rs\<rparr>" using one by fastforce
  obtain sw' p' m' where s: "snapshot example_agent_env (Some None) ?c 5
      (stop_watch_new 2, sampled_profilers, manager_new 0) = Some (Inr (), sw', p', m')"
    using c ne by (simp add: snapshot_def lap_def time_range_new_def stop_watch_new_def snapshot_memory_def
        snapshot_stack_def report_sampling_thread_error_def sampled_profilers_def example_profilers_def
        stack_state_new_def snapshot_reporter_def reporter_report_def with_lock_def mutex_new_def
        example_agent_env_def send_waiting_def manager_send_def manager_new_def CHANNEL_SIZE_def)
  have i: "manager_inv (manager_new (0 :: nat))" "0 \<le> sw_start (stop_watch_new 2)" "aa_sample_rate zero_rate_args = 0"
    by (simp_all add: manager_inv_def manager_new_def stop_watch_new_def zero_rate_args_def)
  have ne': "\<not> batch_is_empty \<lparr>profile_type = ''process_cpu'', batch_data = Reports
      (buffer_reports (ae_hash example_agent_env) (mutex_value (pf_buffer sampled_profilers)))\<rparr>"
    using ne by (simp add: example_agent_env_def sampled_profilers_def mutex_new_def)
  have "ae_upload example_agent_env = example_upload" by (simp add: example_agent_env_def)
  with zero_rate_ends_profiling [OF refl i(3,1,2) s ne', of Kill "[]"] s show ?thesis by (auto simp: Let_def)
qed

end
