(* ===== verification/Snapshot_Complete.thy ===== *)
theory Snapshot_Complete
  imports Agent
begin

text \<open>
  What a snapshot of the agent's main thread sends: the dumps of the two native profilers and the
  report of the py-spy backend together, across \<open>Memory\<close>, \<open>Stack\<close>, \<open>Pyspy_Backend\<close> and \<open>Agent\<close>.
\<close>

text \<open>A batch with one profile that resolves to the samples of a window, or none for no samples.\<close>

definition ships ::
    "(profile \<Rightarrow> nat list) \<Rightarrow> string \<Rightarrow> string_table \<Rightarrow> (ffi_frame list \<times> int list) list \<Rightarrow> report_batch list \<Rightarrow> bool" where
  "ships wire ty st w bs \<longleftrightarrow>
     (if w = [] then bs = []
      else \<exists>q. bs = batch_of ty (Some (wire q)) \<and> native_samples q = window_text st w)"

lemma shipsI:
  assumes "case r of None \<Rightarrow> w = [] | Some q \<Rightarrow> w \<noteq> [] \<and> native_samples q = window_text st w"
  shows "ships wire ty st w (batch_of ty (map_option wire r))"
  using assms by (cases r) (auto simp: ships_def batch_of_def)

subsection \<open>The native profilers\<close>

lemma stack_sums_nil [simp]: "stack_sums bt [] w = w"
  by (simp add: stack_sums_def)

lemma add_value_type_growth: "add_value_type ty un st = Some (v, st') \<Longrightarrow> length st' \<le> length st + 2"
  by (auto simp: add_value_type_def dest!: st_add_length split: Option.bind_splits)

lemma memory_types_growth: "memory_profile_type heap p st = Some (p', st') \<Longrightarrow> length st' \<le> length st + 10"
  by (auto simp: memory_profile_type_def dest!: add_value_type_growth split: Option.bind_splits)

lemma dump_from_growth:
  assumes "dump_from set_type tr (i, m) = Some (r, i', m')"
    and "\<And>p st p' st'. set_type p st = Some (p', st') \<Longrightarrow> length st' \<le> length st + k"
  shows "length (interned i') \<le> length (interned i) + k"
proof -
  consider "i' = i"
    | a b where "set_type (b_profile (mutex_value m)) (interned i) = Some (a, b)" "interned i' = b"
    using assms(1) by (auto simp: dump_from_def split: if_splits Option.bind_splits)
  then show ?thesis using assms(2) by cases auto
qed

lemma native_dump:
  assumes I: "native_inv n ws" and ty: "sets_types set_type tys per" "type_strings_fit set_type k"
    and room: "length (interned (nt_interner n)) + k \<le> u32_max"
  shows "\<exists>r i m. dump_from set_type tr (nt_interner n, builder_for bt n) = Some (r, i, m) \<and>
    (\<forall>n'. nt_interner n' = i \<longrightarrow> builder_for bt n' = m \<longrightarrow> (\<forall>b. b \<noteq> bt \<longrightarrow> builder_for b n' = builder_for b n) \<longrightarrow>
       native_inv n' (ws(bt := []))) \<and>
    (\<forall>j s. st_string (interned (nt_interner n)) j = Some s \<longrightarrow> st_string (interned i) j = Some s) \<and>
    (case r of None \<Rightarrow> ws bt = []
     | Some q \<Rightarrow> ws bt \<noteq> [] \<and> native_samples q = window_text (interned (nt_interner n)) (ws bt))"
proof -
  have w: "window (builder_for bt n) (ws bt)" "st_wf (interned (nt_interner n))"
    "\<not> table_poisoned (nt_interner n)" "named (interned (nt_interner n)) (ws bt)"
    using I by (simp_all add: native_inv_def)
  obtain r i m where d: "dump_from set_type tr (nt_interner n, builder_for bt n) = Some (r, i, m)"
    using dump_from_total [OF w(1,2) room ty, of tr] by auto
  note D = dump_from_ok [OF w ty(1) d]
  have "native_inv n' (ws(bt := []))"
    if "nt_interner n' = i" "builder_for bt n' = m" "\<forall>b. b \<noteq> bt \<longrightarrow> builder_for b n' = builder_for b n" for n'
    using native_inv_dump [OF I ty(1) d that(1,2)] that(3) by blast
  then show ?thesis using d D by (auto split: option.splits)
qed

lemma snapshot_memory_on:
  assumes I: "native_inv (pf_native p) ws"
    and h: "memalloc_heap_py (ae_memalloc A) (pf_memalloc p) = (calls, mw)" "calls_named calls (pf_native p)"
      "can_attach (ae_memalloc A) (pf_memalloc p)"
    and room: "length (interned (nt_interner (pf_native p))) + length calls + 10 \<le> u32_max"
    and en: "mem_enabled (mem_config config)"
  shows "\<exists>bs p' n1. snapshot_memory A config tr p = Some (bs, p') \<and> native_calls_run calls (pf_native p) = Some n1 \<and>
    ships (ue_wire_profile (ae_upload A)) ''memory'' (interned (nt_interner n1)) (stack_sums Memory calls (ws Memory)) bs \<and>
    native_inv (pf_native p') ((\<lambda>bt. stack_sums bt calls (ws bt))(Memory := [])) \<and>
    (\<forall>j s. st_string (interned (nt_interner n1)) j = Some s \<longrightarrow>
       st_string (interned (nt_interner (pf_native p'))) j = Some s) \<and>
    length (interned (nt_interner (pf_native p'))) \<le> length (interned (nt_interner (pf_native p))) + length calls + 10 \<and>
    pf_stack p' = pf_stack p \<and> pf_buffer p' = pf_buffer p \<and> pf_metrics p' = pf_metrics p"
proof -
  obtain n1 where n1: "native_calls_run calls (pf_native p) = Some n1"
    "length (interned (nt_interner n1)) \<le> length (interned (nt_interner (pf_native p))) + length calls"
    using native_calls_total [OF I h(2)] room by auto
  have I1: "native_inv n1 (\<lambda>bt. stack_sums bt calls (ws bt))" by (rule native_calls_inv [OF I h(2) n1(1)])
  have "length (interned (nt_interner n1)) + 10 \<le> u32_max" using n1(2) room by simp
  from native_dump [OF I1 memory_sets_types memory_types_fit this] obtain r i m where
    d: "dump_from (memory_profile_type (heap_sample_size (mem_config config))) tr (nt_interner n1, builder_for Memory n1) = Some (r, i, m)"
    and n': "\<And>n'. nt_interner n' = i \<Longrightarrow> builder_for Memory n' = m \<Longrightarrow>
      (\<And>b. b \<noteq> Memory \<Longrightarrow> builder_for b n' = builder_for b n1) \<Longrightarrow>
      native_inv n' ((\<lambda>bt. stack_sums bt calls (ws bt))(Memory := []))"
    and keep: "\<forall>j s. st_string (interned (nt_interner n1)) j = Some s \<longrightarrow> st_string (interned i) j = Some s"
    and r: "case r of None \<Rightarrow> stack_sums Memory calls (ws Memory) = []
      | Some q \<Rightarrow> stack_sums Memory calls (ws Memory) \<noteq> [] \<and>
          native_samples q = window_text (interned (nt_interner n1)) (stack_sums Memory calls (ws Memory))"
    by blast
  have "length (interned i) \<le> length (interned (nt_interner n1)) + 10"
    by (rule dump_from_growth [OF d memory_types_growth])
  moreover have "native_inv (n1\<lparr>nt_interner := i, nt_memory := m\<rparr>) ((\<lambda>bt. stack_sums bt calls (ws bt))(Memory := []))"
    by (rule n') (simp_all add: builder_for_def split: builder_type.splits)
  ultimately show ?thesis
    using en h d n1 keep shipsI [OF r, of "ue_wire_profile (ae_upload A)" "''memory''"]
    by (simp add: snapshot_memory_def memory_dump_pprof_def builder_for_def)
qed

text \<open>The samples a snapshot takes of a kind: all of them, or none if the profiler is not enabled.\<close>

definition taken :: "bool \<Rightarrow> builder_type \<Rightarrow> (builder_type \<Rightarrow> (ffi_frame list \<times> int list) list) \<Rightarrow>
    (ffi_frame list \<times> int list) list" where
  "taken enabled bt w = (if enabled then w bt else [])"

definition left :: "bool \<Rightarrow> builder_type \<Rightarrow> (builder_type \<Rightarrow> (ffi_frame list \<times> int list) list) \<Rightarrow>
    builder_type \<Rightarrow> (ffi_frame list \<times> int list) list" where
  "left enabled bt w = (if enabled then w(bt := []) else w)"

lemma snapshot_memory_ships:
  assumes I: "native_inv (pf_native p) ws"
    and h: "calls = (if mem_enabled (mem_config config)
        then fst (memalloc_heap_py (ae_memalloc A) (pf_memalloc p)) else [])" "calls_named calls (pf_native p)"
      "mem_enabled (mem_config config) \<longrightarrow> can_attach (ae_memalloc A) (pf_memalloc p)"
    and room: "length (interned (nt_interner (pf_native p))) + length calls + 10 \<le> u32_max"
  shows "\<exists>bs p' n1. snapshot_memory A config tr p = Some (bs, p') \<and> native_calls_run calls (pf_native p) = Some n1 \<and>
    ships (ue_wire_profile (ae_upload A)) ''memory'' (interned (nt_interner n1))
      (taken (mem_enabled (mem_config config)) Memory (\<lambda>bt. stack_sums bt calls (ws bt))) bs \<and>
    native_inv (pf_native p') (left (mem_enabled (mem_config config)) Memory (\<lambda>bt. stack_sums bt calls (ws bt))) \<and>
    (\<forall>j s. st_string (interned (nt_interner n1)) j = Some s \<longrightarrow>
       st_string (interned (nt_interner (pf_native p'))) j = Some s) \<and>
    length (interned (nt_interner (pf_native p'))) \<le> length (interned (nt_interner (pf_native p))) + length calls + 10 \<and>
    pf_buffer p' = pf_buffer p \<and> pf_metrics p' = pf_metrics p"
proof (cases "mem_enabled (mem_config config)")
  case True
  obtain mw where m: "memalloc_heap_py (ae_memalloc A) (pf_memalloc p) = (calls, mw)"
    using h(1) True by (metis prod.collapse)
  show ?thesis
    using snapshot_memory_on [OF I m h(2) _ room True, of tr] h(3) True by (auto simp: taken_def left_def)
next
  case False
  then show ?thesis using h(1) I
    by (simp add: snapshot_memory_def ships_def taken_def left_def stack_sums_def)
qed

lemma snapshot_stack_on:
  assumes I: "native_inv (pf_native p) ws"
    and room: "length (interned (nt_interner (pf_native p))) + 6 \<le> u32_max"
    and en: "st_enabled (cf_stack_config config)"
  shows "\<exists>bs p'. snapshot_stack A config tr p = Some (bs, p') \<and>
    ships (ue_wire_profile (ae_upload A)) ''process_cpu'' (interned (nt_interner (pf_native p)))
      (ws (if st_oncpu (cf_stack_config config) then OnCpu else CpuWall)) bs \<and>
    native_inv (pf_native p') (ws((if st_oncpu (cf_stack_config config) then OnCpu else CpuWall) := [])) \<and>
    pf_buffer p' = pf_buffer p \<and> pf_metrics p' = pf_metrics p"
proof -
  obtain err s where s: "report_sampling_thread_error (ae_engine A) (pf_stack p) = (err, s)"
    by (cases "report_sampling_thread_error (ae_engine A) (pf_stack p)")
  define per where "per = period_ns (eng_interval_us (ae_engine A) (sk_engine s)) (sample_rate config)"
  have room4: "length (interned (nt_interner (pf_native p))) + 4 \<le> u32_max" using room by simp
  show ?thesis
  proof (cases "st_oncpu (cf_stack_config config)")
    case True
    obtain r i m where d: "dump_from (cpu_profile_type per) tr (nt_interner (pf_native p), builder_for OnCpu (pf_native p)) = Some (r, i, m)"
      and n': "\<And>n'. nt_interner n' = i \<Longrightarrow> builder_for OnCpu n' = m \<Longrightarrow>
        (\<And>b. b \<noteq> OnCpu \<Longrightarrow> builder_for b n' = builder_for b (pf_native p)) \<Longrightarrow> native_inv n' (ws(OnCpu := []))"
      and r: "case r of None \<Rightarrow> ws OnCpu = [] | Some q \<Rightarrow> ws OnCpu \<noteq> [] \<and>
        native_samples q = window_text (interned (nt_interner (pf_native p))) (ws OnCpu)"
      using native_dump [OF I cpu_sets_types [of per] cpu_types_fit room4, of tr OnCpu] by blast
    have "native_inv ((pf_native p)\<lparr>nt_interner := i, nt_oncpu := m\<rparr>) (ws(OnCpu := []))"
      by (rule n') (simp_all add: builder_for_def split: builder_type.splits)
    then show ?thesis
      using en d s True shipsI [OF r, of "ue_wire_profile (ae_upload A)" "''process_cpu''"]
      by (simp add: snapshot_stack_def stack_dump_pprof_def builder_for_def per_def Let_def)
  next
    case False
    obtain r i m where d: "dump_from (cpu_wall_profile_type per) tr (nt_interner (pf_native p), builder_for CpuWall (pf_native p)) = Some (r, i, m)"
      and n': "\<And>n'. nt_interner n' = i \<Longrightarrow> builder_for CpuWall n' = m \<Longrightarrow>
        (\<And>b. b \<noteq> CpuWall \<Longrightarrow> builder_for b n' = builder_for b (pf_native p)) \<Longrightarrow> native_inv n' (ws(CpuWall := []))"
      and r: "case r of None \<Rightarrow> ws CpuWall = [] | Some q \<Rightarrow> ws CpuWall \<noteq> [] \<and>
        native_samples q = window_text (interned (nt_interner (pf_native p))) (ws CpuWall)"
      using native_dump [OF I cpu_wall_sets_types [of per] cpu_wall_types_fit room, of tr CpuWall] by blast
    have "native_inv ((pf_native p)\<lparr>nt_interner := i, nt_cpu_wall := m\<rparr>) (ws(CpuWall := []))"
      by (rule n') (simp_all add: builder_for_def split: builder_type.splits)
    then show ?thesis
      using en d s False shipsI [OF r, of "ue_wire_profile (ae_upload A)" "''process_cpu''"]
      by (simp add: snapshot_stack_def stack_dump_pprof_def builder_for_def per_def Let_def)
  qed
qed

definition stack_kind :: "pyroscope_config \<Rightarrow> builder_type" where
  "stack_kind config = (if st_oncpu (cf_stack_config config) then OnCpu else CpuWall)"

lemma snapshot_stack_ships:
  assumes I: "native_inv (pf_native p) ws"
    and room: "length (interned (nt_interner (pf_native p))) + 6 \<le> u32_max"
  shows "\<exists>bs p'. snapshot_stack A config tr p = Some (bs, p') \<and>
    ships (ue_wire_profile (ae_upload A)) ''process_cpu'' (interned (nt_interner (pf_native p)))
      (taken (st_enabled (cf_stack_config config)) (stack_kind config) ws) bs \<and>
    native_inv (pf_native p') (left (st_enabled (cf_stack_config config)) (stack_kind config) ws) \<and>
    pf_buffer p' = pf_buffer p \<and> pf_metrics p' = pf_metrics p"
proof (cases "st_enabled (cf_stack_config config)")
  case True
  then show ?thesis
    using snapshot_stack_on [OF I room True, of A tr] by (simp add: taken_def left_def stack_kind_def)
next
  case False
  then show ?thesis
    using I by (simp add: snapshot_stack_def ships_def taken_def left_def case_prod_beta)
qed

subsection \<open>The whole snapshot\<close>

text \<open>
  What the reporter of the CPU backend adds: nothing without a backend; the reports of the buffer
  for py-spy; for the signal backend a profile that reads back as the buffered stacks and the
  losses, each with its count times the period. Nothing is added when there is nothing to report.
\<close>

definition loss_stacks :: "('w, 's, 'u, 'x) agent_env \<Rightarrow> backend_config \<Rightarrow> ('w, 's) profilers \<Rightarrow> stack_buffer" where
  "loss_stacks A bc p =
     record_dropped_stacks bc (ae_process_id A) (fst (take_drop_counts (pf_metrics p))) (mutex_value (pf_buffer p))"

definition reports_sent ::
    "('w, 's, 'u, 'x) agent_env \<Rightarrow> backend_config option option \<Rightarrow> nat \<Rightarrow> ('w, 's) profilers \<Rightarrow>
     report_batch list \<Rightarrow> bool" where
  "reports_sent A reporter rate p bs \<longleftrightarrow>
     (case reporter of
        None \<Rightarrow> bs = []
      | Some None \<Rightarrow>
          (let rs = buffer_reports (ae_hash A) (mutex_value (pf_buffer p))
           in bs = (if rs = [] then [] else [\<lparr>profile_type = ''process_cpu'', batch_data = Reports rs\<rparr>]))
      | Some (Some bc) \<Rightarrow>
          if loss_stacks A bc p = [] then bs = []
          else \<exists>q. bs = batch_of ''process_cpu'' (Some (ue_wire_profile (ae_upload A) q)) \<and>
            pprof_samples q = Some (List.map
              (\<lambda>(t, n). (frames t, tags (metadata t), [sample_total n (1000000000 div int rate)]))
              (concat (List.map report_data (buffer_reports (ae_hash A) (loss_stacks A bc p))))))"

text \<open>
  What a report needs: a buffer that is not poisoned and well formed; for the signal backend also a
  positive rate, strings that fit the table, and an encoding that is not empty.
\<close>

definition reporter_ready ::
    "('w, 's, 'u, 'x) agent_env \<Rightarrow> backend_config option option \<Rightarrow> nat \<Rightarrow> ('w, 's) profilers \<Rightarrow> bool" where
  "reporter_ready A reporter rate p \<longleftrightarrow>
     (case reporter of
        None \<Rightarrow> True
      | Some None \<Rightarrow> buffer_ok (pf_buffer p)
      | Some (Some bc) \<Rightarrow> \<not> mutex_poisoned (pf_buffer p) \<and> 0 < rate \<and> (\<forall>q. ue_wire_profile (ae_upload A) q \<noteq> []) \<and>
          5 + (\<Sum>tn\<leftarrow>concat (List.map report_data (buffer_reports (ae_hash A) (loss_stacks A bc p))).
            strings_needed (fst tn)) \<le> u32_max)"

text \<open>What the reporter leaves: an empty buffer and, for the signal backend, no losses.\<close>

definition after_report :: "backend_config option option \<Rightarrow> ('w, 's) profilers \<Rightarrow> ('w, 's) profilers \<Rightarrow> bool" where
  "after_report reporter p p' \<longleftrightarrow>
     pf_buffer p' = (if reporter = None then pf_buffer p else (pf_buffer p)\<lparr>mutex_value := []\<rparr>) \<and>
     pf_metrics p' = (case reporter of Some (Some _) \<Rightarrow> metrics_zero | _ \<Rightarrow> pf_metrics p)"

lemma snapshot_reporter_sends:
  assumes "reporter_ready A reporter (sample_rate config) p"
  shows "\<exists>bs p'. snapshot_reporter A reporter config tr p = Some (Inr bs, p') \<and>
    reports_sent A reporter (sample_rate config) p bs \<and> after_report reporter p p' \<and> pf_native p' = pf_native p"
proof (cases reporter)
  case None
  then show ?thesis by (simp add: snapshot_reporter_def reports_sent_def after_report_def)
next
  case (Some r)
  show ?thesis
  proof (cases r)
    case None
    then have ok: "buffer_ok (pf_buffer p)" using assms Some by (simp add: reporter_ready_def)
    have "list_all (\<lambda>r. report_data r = []) (buffer_reports (ae_hash A) (mutex_value (pf_buffer p))) \<longleftrightarrow>
        buffer_reports (ae_hash A) (mutex_value (pf_buffer p)) = []"
      using ok buffer_reports_counts [of "mutex_value (pf_buffer p)", where hash = "ae_hash A"]
      by (cases "buffer_reports (ae_hash A) (mutex_value (pf_buffer p))")
        (auto simp: buffer_ok_def counts_bounded_def)
    then show ?thesis
      using ok by (simp add: Some None snapshot_reporter_def reporter_report_def with_lock_def batch_is_empty_def
          buffer_ok_def reports_sent_def after_report_def Let_def)
  next
    case bc: (Some bc)
    have c: "\<not> mutex_poisoned (pf_buffer p)" "0 < sample_rate config" "\<And>q. ue_wire_profile (ae_upload A) q \<noteq> []"
      "5 + (\<Sum>tn\<leftarrow>concat (List.map report_data (buffer_reports (ae_hash A) (loss_stacks A bc p))).
        strings_needed (fst tn)) \<le> u32_max"
      using assms by (simp_all add: Some bc reporter_ready_def)
    from signal_report [OF c(1,2) loss_stacks_def [of A bc p] c(4), of "ue_wire_profile (ae_upload A)" tr]
    obtain b where b: "reporter_report (ae_hash A) (ue_wire_profile (ae_upload A)) (ae_process_id A) (Some bc)
        (sample_rate config) tr (pf_buffer p, pf_metrics p) = Some (Inr b, (pf_buffer p)\<lparr>mutex_value := []\<rparr>, metrics_zero)"
      "loss_stacks A bc p = [] \<longrightarrow> batch_is_empty b"
      "loss_stacks A bc p \<noteq> [] \<longrightarrow> (\<exists>q. batch_data b = RawPprof (ue_wire_profile (ae_upload A) q) \<and>
         pprof_samples q = Some (List.map
           (\<lambda>(t, n). (frames t, tags (metadata t), [sample_total n (1000000000 div int (sample_rate config))]))
           (concat (List.map report_data (buffer_reports (ae_hash A) (loss_stacks A bc p))))))"
      by blast
    have "profile_type b = ''process_cpu''"
      using b(1) by (auto simp: reporter_report_def Let_def split: sum.splits Option.bind_splits prod.splits if_splits)
    then show ?thesis
      using b c(3) by (cases "loss_stacks A bc p = []")
        (auto simp: Some bc snapshot_reporter_def reports_sent_def after_report_def batch_of_def batch_is_empty_def
          intro!: report_batch.equality)
  qed
qed

lemma snapshot_ships:
  assumes "native_inv (pf_native p) ws"
    and "calls = (if mem_enabled (mem_config config)
        then fst (memalloc_heap_py (ae_memalloc A) (pf_memalloc p)) else [])"
    and "calls_named calls (pf_native p)"
    and "mem_enabled (mem_config config) \<longrightarrow> can_attach (ae_memalloc A) (pf_memalloc p)"
    and "length (interned (nt_interner (pf_native p))) + length calls + 16 \<le> u32_max"
    and "reporter_ready A reporter (sample_rate config) p" and "0 \<le> start"
  shows "\<exists>n1 mem cpu rep r p' m'.
    snapshot A reporter config now (stop_watch_new start, p, m) = Some (r, stop_watch_new now, p', m') \<and>
    native_calls_run calls (pf_native p) = Some n1 \<and>
    (let w = \<lambda>bt. stack_sums bt calls (ws bt);
         mem_on = mem_enabled (mem_config config);
         cpu_on = st_enabled (cf_stack_config config);
         wire = ue_wire_profile (ae_upload A);
         tr = (nat start, if now < start then 0 else nat (now - start))
     in ships wire ''memory'' (interned (nt_interner n1)) (taken mem_on Memory w) mem \<and>
        ships wire ''process_cpu'' (interned (nt_interner n1)) (taken cpu_on (stack_kind config) w) cpu \<and>
        reports_sent A reporter (sample_rate config) p rep \<and>
        (if mem @ cpu @ rep = [] then r = Inr () \<and> m' = m
         else send_waiting (ae_upload A) (Upload (session_new tr config (mem @ cpu @ rep))) m = (r, m')) \<and>
        native_inv (pf_native p') (left cpu_on (stack_kind config) (left mem_on Memory w)) \<and>
        after_report reporter p p')"
proof -
  let ?tr = "(nat start, if now < start then 0 else nat (now - start))"
  let ?wire = "ue_wire_profile (ae_upload A)"
  let ?mem_on = "mem_enabled (mem_config config)"
  let ?cpu_on = "st_enabled (cf_stack_config config)"
  define w where w: "w = (\<lambda>bt. stack_sums bt calls (ws bt))"
  note I = assms(1)
  have "length (interned (nt_interner (pf_native p))) + length calls + 10 \<le> u32_max" using assms(5) by simp
  from snapshot_memory_ships [OF I assms(2-4) this, of ?tr] obtain mem p1 n1 where
    m1: "snapshot_memory A config ?tr p = Some (mem, p1)" "native_calls_run calls (pf_native p) = Some n1"
      "ships ?wire ''memory'' (interned (nt_interner n1)) (taken ?mem_on Memory w) mem"
      "native_inv (pf_native p1) (left ?mem_on Memory w)" "pf_buffer p1 = pf_buffer p" "pf_metrics p1 = pf_metrics p"
    and keep: "\<And>j s. st_string (interned (nt_interner n1)) j = Some s \<Longrightarrow>
        st_string (interned (nt_interner (pf_native p1))) j = Some s"
    and g: "length (interned (nt_interner (pf_native p1))) \<le>
        length (interned (nt_interner (pf_native p))) + length calls + 10"
    unfolding w by blast
  have "length (interned (nt_interner (pf_native p1))) + 6 \<le> u32_max" using g assms(5) by simp
  from snapshot_stack_ships [OF m1(4) this, of A config ?tr] obtain cpu p2 where
    m2: "snapshot_stack A config ?tr p1 = Some (cpu, p2)"
      "ships ?wire ''process_cpu'' (interned (nt_interner (pf_native p1)))
         (taken ?cpu_on (stack_kind config) (left ?mem_on Memory w)) cpu"
      "native_inv (pf_native p2) (left ?cpu_on (stack_kind config) (left ?mem_on Memory w))"
      "pf_buffer p2 = pf_buffer p1" "pf_metrics p2 = pf_metrics p1"
    by blast
  have k: "taken ?cpu_on (stack_kind config) (left ?mem_on Memory w) = taken ?cpu_on (stack_kind config) w"
    by (simp add: taken_def left_def stack_kind_def)
  have "named (interned (nt_interner n1)) (taken ?cpu_on (stack_kind config) w)"
    using native_calls_inv [OF I assms(3) m1(2)] unfolding w native_inv_def taken_def
    by (auto simp: named_def)
  from named_mono(2) [OF keep this]
  have cpu: "ships ?wire ''process_cpu'' (interned (nt_interner n1)) (taken ?cpu_on (stack_kind config) w) cpu"
    using m2(2) unfolding ships_def k by (simp only:)
  have tr: "lap now (stop_watch_new start) = (Inr ?tr, stop_watch_new now)"
    using assms(7) by (simp add: lap_def time_range_new_def stop_watch_new_def)
  have f: "pf_buffer p2 = pf_buffer p" "pf_metrics p2 = pf_metrics p" using m1(5,6) m2(4,5) by simp_all
  have ls: "loss_stacks A bc p2 = loss_stacks A bc p" for bc by (simp add: loss_stacks_def f)
  have same: "reports_sent A reporter rate p2 = reports_sent A reporter rate p"
    "reporter_ready A reporter rate p2 = reporter_ready A reporter rate p"
    "after_report reporter p2 = after_report reporter p" for rate
    unfolding reports_sent_def reporter_ready_def after_report_def fun_eq_iff ls f by (rule refl | intro allI)+
  obtain rep p3 where m3: "snapshot_reporter A reporter config ?tr p2 = Some (Inr rep, p3)"
    "reports_sent A reporter (sample_rate config) p rep" "after_report reporter p p3" "pf_native p3 = pf_native p2"
    using snapshot_reporter_sends [of A reporter config p2 ?tr] assms(6) unfolding same by blast
  define bs where "bs = mem @ cpu @ rep"
  obtain r m' where rm: "(if bs = [] then (Inr (), m)
      else send_waiting (ae_upload A) (Upload (session_new ?tr config bs)) m) = (r, m')" by fastforce
  have "snapshot A reporter config now (stop_watch_new start, p, m) = Some (r, stop_watch_new now, p3, m')"
    using rm unfolding snapshot_def
    by (simp add: tr m1(1) m2(1) m3(1) bs_def [symmetric] Let_def del: append_is_Nil_conv split: if_splits)
  note s = this m1(2,3) cpu m2(3) m3(2-4) rm
  show ?thesis
    unfolding Let_def w [symmetric]
    by (rule exI [of _ n1], rule exI [of _ mem], rule exI [of _ cpu], rule exI [of _ rep], rule exI [of _ r],
      rule exI [of _ p3], rule exI [of _ m'])
      (use s in \<open>simp add: bs_def [symmetric] del: append_is_Nil_conv split: if_splits\<close>)
qed

text \<open>Stopping a started agent, in terms of its last snapshot.\<close>

lemma agent_stop_snapshot:
  assumes "ag_started ag" and "snapshot A reporter (ag_config ag) now (sw, p, ag_manager ag) = Some (r, sw', p', m')"
  shows "agent_stop A S reporter now joined after_panic (sw, p) ag bw =
    (let (ag, bw) = agent_shutdown S (ae_upload A) joined (ag\<lparr>ag_manager := m'\<rparr>) bw in (Inr (), p', ag, bw))"
  using assms by (simp add: agent_stop_def)

lemma stop_after_send:
  assumes o: "manager_open m" and s: "if bs = [] then r = Inr () \<and> m' = m
      else send_waiting U (Upload (session_new tr config bs)) m = (r, m')"
    and a: "agent_shutdown S U joined (ag\<lparr>ag_manager := m'\<rparr>) bw = (ag', bw')"
    and u: "uploads_return U (ag_manager ag')"
  shows "mg_taken (ag_manager ag') =
    mg_sent m @ (if bs = [] then [] else [Upload (session_new tr config bs)]) @ [Kill]"
proof -
  have i: "manager_inv m" using o by (simp add: manager_open_def)
  have i': "manager_inv m'" "set (mg_sent m) \<subseteq> set (mg_sent m')"
    using s send_waiting_cases [OF i, of U "Upload (session_new tr config bs)" r m'] i
    by (cases r; auto split: if_splits)+
  have sent: "set (mg_sent m') \<subseteq> set (mg_sent (ag_manager ag'))"
    using shutdown_sent [of "ag\<lparr>ag_manager := m'\<rparr>" S U joined bw] i'(1) by (simp add: a)
  have um: "uploads_return U m'" "uploads_return U m" using u sent i'(2) by (auto simp: uploads_return_def)
  have m': "manager_open m' \<and> mg_sent m' = mg_sent m @ (if bs = [] then [] else [Upload (session_new tr config bs)])"
  proof (cases "bs = []")
    case True
    then show ?thesis using s o by simp
  next
    case False
    then show ?thesis
      using s send_waiting_open [OF um(2) o, of "Upload (session_new tr config bs)"] o
      by (auto simp: manager_open_def)
  qed
  then show ?thesis
    using shutdown_all [of "ag\<lparr>ag_manager := m'\<rparr>" U S joined bw] um(1) by (simp add: a)
qed

subsection \<open>Properties\<close>

text \<open>
  C2: One snapshot sends everything that is pending, whichever profilers are configured. Provided
  the native profilers keep their invariant, the report is ready and the string table has room, a
  snapshot neither panics nor fails on the way: the window since the last lap gets a session with
  the memory samples, those of the flush included, the CPU samples of the configured kind and the
  backend's report, each at most once, in this order and only if there is something in it, every
  native frame under the names it was interned with. A profiler that is not enabled adds nothing
  and keeps its samples. No session is sent only if nothing is pending. What was sent is gone.
\<close>

theorem snapshot_ships_everything:
  assumes "native_inv (pf_native p) ws"
    and "calls = (if mem_enabled (mem_config config)
        then fst (memalloc_heap_py (ae_memalloc A) (pf_memalloc p)) else [])"
    and "calls_named calls (pf_native p)"
    and "mem_enabled (mem_config config) \<longrightarrow> can_attach (ae_memalloc A) (pf_memalloc p)"
    and "length (interned (nt_interner (pf_native p))) + length calls + 16 \<le> u32_max"
    and "reporter_ready A reporter (sample_rate config) p" and "0 \<le> start"
  shows "\<exists>n1 mem cpu rep r p' m'.
    snapshot A reporter config now (stop_watch_new start, p, m) = Some (r, stop_watch_new now, p', m') \<and>
    native_calls_run calls (pf_native p) = Some n1 \<and>
    (let w = \<lambda>bt. stack_sums bt calls (ws bt);
         mem_on = mem_enabled (mem_config config);
         cpu_on = st_enabled (cf_stack_config config);
         wire = ue_wire_profile (ae_upload A);
         tr = (nat start, if now < start then 0 else nat (now - start))
     in ships wire ''memory'' (interned (nt_interner n1)) (taken mem_on Memory w) mem \<and>
        ships wire ''process_cpu'' (interned (nt_interner n1)) (taken cpu_on (stack_kind config) w) cpu \<and>
        reports_sent A reporter (sample_rate config) p rep \<and>
        (if mem @ cpu @ rep = [] then r = Inr () \<and> m' = m
         else send_waiting (ae_upload A) (Upload (session_new tr config (mem @ cpu @ rep))) m = (r, m')) \<and>
        native_inv (pf_native p') (left cpu_on (stack_kind config) (left mem_on Memory w)) \<and>
        after_report reporter p p')"
  by (rule snapshot_ships [OF assms])

text \<open>
  C1: Nothing that was sampled before a stop is lost. Stopping a running agent whose uploads
  return ends with everything uploaded: all sessions sent before, then, unless nothing was pending,
  one session of the window since the last lap with the memory samples, the CPU samples and the
  backend's report that were pending, then the \<open>Kill\<close>.
\<close>

theorem stop_delivers_pending:
  assumes "ag_started ag" and "manager_open (ag_manager ag)"
    and "native_inv (pf_native p) ws"
    and "calls = (if mem_enabled (mem_config (ag_config ag))
        then fst (memalloc_heap_py (ae_memalloc A) (pf_memalloc p)) else [])"
    and "calls_named calls (pf_native p)"
    and "mem_enabled (mem_config (ag_config ag)) \<longrightarrow> can_attach (ae_memalloc A) (pf_memalloc p)"
    and "length (interned (nt_interner (pf_native p))) + length calls + 16 \<le> u32_max"
    and "reporter_ready A reporter (sample_rate (ag_config ag)) p" and "0 \<le> start"
    and "agent_stop A S reporter now joined after_panic (stop_watch_new start, p) ag bw = (r, p', ag', bw')"
    and "uploads_return (ae_upload A) (ag_manager ag')"
  shows "\<exists>n1 mem cpu rep. native_calls_run calls (pf_native p) = Some n1 \<and>
    (let w = \<lambda>bt. stack_sums bt calls (ws bt);
         mem_on = mem_enabled (mem_config (ag_config ag));
         cpu_on = st_enabled (cf_stack_config (ag_config ag));
         wire = ue_wire_profile (ae_upload A);
         tr = (nat start, if now < start then 0 else nat (now - start))
     in ships wire ''memory'' (interned (nt_interner n1)) (taken mem_on Memory w) mem \<and>
        ships wire ''process_cpu'' (interned (nt_interner n1)) (taken cpu_on (stack_kind (ag_config ag)) w) cpu \<and>
        reports_sent A reporter (sample_rate (ag_config ag)) p rep \<and>
        mg_taken (ag_manager ag') = mg_sent (ag_manager ag) @
          (if mem @ cpu @ rep = [] then []
           else [Upload (session_new tr (ag_config ag) (mem @ cpu @ rep))]) @ [Kill])"
proof -
  from snapshot_ships [OF assms(3-9), of now "ag_manager ag"] obtain n1 mem cpu rep r1 p1 m1 where
    s: "snapshot A reporter (ag_config ag) now (stop_watch_new start, p, ag_manager ag) = Some (r1, stop_watch_new now, p1, m1)"
    and S: "native_calls_run calls (pf_native p) = Some n1"
      "ships (ue_wire_profile (ae_upload A)) ''memory'' (interned (nt_interner n1))
         (taken (mem_enabled (mem_config (ag_config ag))) Memory (\<lambda>bt. stack_sums bt calls (ws bt))) mem"
      "ships (ue_wire_profile (ae_upload A)) ''process_cpu'' (interned (nt_interner n1))
         (taken (st_enabled (cf_stack_config (ag_config ag))) (stack_kind (ag_config ag)) (\<lambda>bt. stack_sums bt calls (ws bt))) cpu"
      "reports_sent A reporter (sample_rate (ag_config ag)) p rep"
    and m1: "if mem @ cpu @ rep = [] then r1 = Inr () \<and> m1 = ag_manager ag
      else send_waiting (ae_upload A) (Upload (session_new (nat start, if now < start then 0 else nat (now - start))
        (ag_config ag) (mem @ cpu @ rep))) (ag_manager ag) = (r1, m1)"
    unfolding Let_def by blast
  have a: "agent_shutdown S (ae_upload A) joined (ag\<lparr>ag_manager := m1\<rparr>) bw = (ag', bw')"
    using agent_stop_snapshot [OF assms(1) s, of S joined after_panic bw] assms(10)
    by (simp add: Let_def split: prod.splits)
  show ?thesis
    unfolding Let_def
    by (intro exI conjI) (rule S stop_after_send [OF assms(2) m1 a assms(11)])+
qed

subsection \<open>Witness\<close>


definition busy_config :: pyroscope_config where
  "busy_config = config_new ''http://x'' ''app'' 100 ''pyspy'' ''1.0''
     \<lparr>mem_enabled = True, enable_mem_domain = False, max_nframe = 64, heap_sample_size = 512\<rparr>
     \<lparr>st_enabled = True, st_oncpu = True\<rparr>"

definition busy_profilers :: "native \<Rightarrow> (bool, bool) profilers" where
  "busy_profilers n = \<lparr>pf_memalloc = True, pf_native = n, pf_stack = stack_state_new True,
     pf_buffer = mutex_new [(example_trace, 3)], pf_metrics = metrics_zero\<rparr>"

definition busy_backend :: backend_config where
  "busy_backend = \<lparr>report_thread_id = False, report_thread_name = False, report_pid = False\<rparr>"

lemma busy_ready:
  assumes "native_calls_run (example_calls OnCpu) native_new = Some n"
    and "interned (nt_interner n) = [('''', 0), (''f'', 1)]"
  shows "native_inv (pf_native (busy_profilers n)) (\<lambda>bt. stack_sums bt (example_calls OnCpu) [])"
    "[] = (if mem_enabled (mem_config busy_config)
      then fst (memalloc_heap_py (ae_memalloc example_agent_env) (pf_memalloc (busy_profilers n))) else [])"
    "calls_named [] (pf_native (busy_profilers n))"
    "mem_enabled (mem_config busy_config) \<longrightarrow>
       can_attach (ae_memalloc example_agent_env) (pf_memalloc (busy_profilers n))"
    "length (interned (nt_interner (pf_native (busy_profilers n)))) + length ([] :: native_call list) + 16 \<le> u32_max"
  using native_calls_inv [OF native_inv_new example_calls_run(1) assms(1)] assms(2)
  by (simp_all add: example_agent_env_def example_memalloc_def busy_profilers_def u32_max_eq)

lemma busy_on: "mem_enabled (mem_config busy_config)" "st_enabled (cf_stack_config busy_config)"
  "stack_kind busy_config = OnCpu" "sample_rate busy_config = 100"
  by (simp_all add: busy_config_def config_new_def stack_kind_def)

lemma busy_taken:
  "taken (st_enabled (cf_stack_config busy_config)) (stack_kind busy_config)
     (\<lambda>bt. stack_sums bt [] (stack_sums bt (example_calls OnCpu) [])) =
   [([\<lparr>function_name = 1, file_name = 0, ffi_line = 3\<rparr>], [5])]"
  "taken (mem_enabled (mem_config busy_config)) Memory
     (\<lambda>bt. stack_sums bt [] (stack_sums bt (example_calls OnCpu) [])) = []"
  by (simp_all add: taken_def busy_on)
    (simp_all add: stack_sums_def example_calls_def slots_for_def cpu_value_slots_def example_values_def
      as_i64_def sum_sample_def)

lemma busy_cpu:
  assumes "interned (nt_interner n) = [('''', 0), (''f'', 1)]"
    and "ships wire ''process_cpu'' (interned (nt_interner n))
      [([\<lparr>function_name = 1, file_name = 0, ffi_line = 3\<rparr>], [5])] cpu"
  obtains q where "cpu = [\<lparr>profile_type = ''process_cpu'', batch_data = RawPprof (wire q)\<rparr>]"
    "native_samples q = [([Some (''f'', '''', 3)], [5])]"
  using assms that
  by (auto simp: ships_def batch_of_def window_text_def native_frame_text_def st_string_def)

lemma busy_env: "ae_hash example_agent_env = (\<lambda>_. 0)" "ae_upload example_agent_env = example_upload"
  "pf_native (busy_profilers n) = n" "(nat 2, if (5 :: int) < 2 then 0 else nat (5 - 2)) = (2, 3)"
  by (simp_all add: example_agent_env_def busy_profilers_def)

theorem snapshot_ships_everything_witness:
  "\<exists>n q q' r p' m'. native_calls_run (example_calls OnCpu) native_new = Some n \<and>
     native_samples q = [([Some (''f'', '''', 3)], [5])] \<and>
     pprof_samples q' = Some [(frames example_trace, tags (metadata example_trace), [30000000])] \<and>
     snapshot example_agent_env (Some (Some busy_backend)) busy_config 5
       (stop_watch_new 2, busy_profilers n, manager_new 0) = Some (r, stop_watch_new 5, p', m') \<and>
     mutex_value (pf_buffer p') = [] \<and>
     mg_sent m' = [Upload (session_new (2, 3) busy_config
       [\<lparr>profile_type = ''process_cpu'', batch_data = RawPprof (ue_wire_profile example_upload q)\<rparr>,
        \<lparr>profile_type = ''process_cpu'', batch_data = RawPprof (ue_wire_profile example_upload q')\<rparr>])]"
proof -
  let ?f = "\<lparr>function_name = 1, file_name = 0, ffi_line = 3\<rparr>"
  let ?rep = "Some (Some busy_backend)"
  obtain n where n: "native_calls_run (example_calls OnCpu) native_new = Some n"
    "interned (nt_interner n) = [('''', 0), (''f'', 1)]" using example_calls_run(2) by blast
  have l: "loss_stacks example_agent_env busy_backend (busy_profilers n) = [(example_trace, 3)]"
    by (simp add: loss_stacks_def take_drop_counts_def metrics_zero_def mutex_new_def busy_profilers_def)
  have rs: "concat (List.map report_data (buffer_reports (\<lambda>_. 0) [(example_trace, 3)])) = [(example_trace, 3)]"
    by (simp add: buffer_reports_def group_step_def report_record_with_count_def report_with_metadata_def
        report_new_def entry_add_def usize_add_def)
  have ready: "reporter_ready example_agent_env ?rep (sample_rate busy_config) (busy_profilers n)"
    by (simp add: reporter_ready_def l busy_on busy_env rs)
      (simp add: busy_profilers_def mutex_new_def example_upload_def strings_needed_def example_trace_def
        metadata_default_def u32_max_eq)
  have "(0 :: int) \<le> 2" by simp
  note C = snapshot_ships_everything [OF busy_ready [OF n] ready this, where now = 5 and m = "manager_new 0"]
  obtain n1 mem cpu rep r p' m' where c:
    "snapshot example_agent_env ?rep busy_config 5 (stop_watch_new 2, busy_profilers n, manager_new 0) =
       Some (r, stop_watch_new 5, p', m')" "native_calls_run [] n = Some n1"
    "ships (ue_wire_profile example_upload) ''memory'' (interned (nt_interner n1)) [] mem"
    "ships (ue_wire_profile example_upload) ''process_cpu'' (interned (nt_interner n1)) [([?f], [5])] cpu"
    "reports_sent example_agent_env ?rep 100 (busy_profilers n) rep"
    "(if mem @ cpu @ rep = [] then r = Inr () \<and> m' = manager_new 0
      else send_waiting example_upload (Upload (session_new (2, 3) busy_config (mem @ cpu @ rep)))
        (manager_new 0) = (r, m'))" "after_report ?rep (busy_profilers n) p'"
    using C unfolding Let_def busy_taken busy_env busy_on(4) by (elim exE conjE) (rule that, assumption+)
  have "mem = []" "n1 = n" using c(2,3) by (simp_all add: ships_def)
  from busy_cpu [OF n(2) c(4) [unfolded \<open>n1 = n\<close>]]
  obtain q where q: "cpu = [\<lparr>profile_type = ''process_cpu'', batch_data = RawPprof (ue_wire_profile example_upload q)\<rparr>]"
    "native_samples q = [([Some (''f'', '''', 3)], [5])]" .
  obtain q' where q': "rep = [\<lparr>profile_type = ''process_cpu'', batch_data = RawPprof (ue_wire_profile example_upload q')\<rparr>]"
    "pprof_samples q' = Some [(frames example_trace, tags (metadata example_trace), [30000000])]"
    using c(5) by (auto simp: reports_sent_def l batch_of_def busy_env rs sample_total_def as_i64_def)
  have "mg_sent (snd (send_waiting example_upload sig (manager_new 0))) = [sig]" for sig
    by (simp add: send_waiting_def manager_send_def manager_new_def CHANNEL_SIZE_def)
  moreover have "send_waiting example_upload (Upload (session_new (2, 3) busy_config (cpu @ rep))) (manager_new 0) = (r, m')"
    using c(6) q(1) \<open>mem = []\<close> by simp
  ultimately have "mg_sent m' = [Upload (session_new (2, 3) busy_config (cpu @ rep))]" by (metis snd_conv)
  moreover have "mutex_value (pf_buffer p') = []" using c(7) by (simp add: after_report_def)
  ultimately show ?thesis using n(1) c(1) q q' by (metis append_Cons append_Nil)
qed

definition busy_agent :: "nat agent" where
  "busy_agent = example_agent\<lparr>ag_config := busy_config, ag_manager := manager_new 0\<rparr>"

theorem stop_delivers_pending_witness:
  "\<forall>(S :: nat signal_env) bw. \<exists>n q r p' ag' bw'. native_calls_run (example_calls OnCpu) native_new = Some n \<and>
     native_samples q = [([Some (''f'', '''', 3)], [5])] \<and>
     agent_stop example_agent_env S None 5 None example_profilers (stop_watch_new 2, busy_profilers n) busy_agent bw =
       (r, p', ag', bw') \<and>
     mg_taken (ag_manager ag') = [Upload (session_new (2, 3) busy_config
       [\<lparr>profile_type = ''process_cpu'', batch_data = RawPprof (ue_wire_profile example_upload q)\<rparr>]), Kill]"
proof (intro allI)
  fix S :: "nat signal_env" and bw
  obtain n where n: "native_calls_run (example_calls OnCpu) native_new = Some n"
    "interned (nt_interner n) = [('''', 0), (''f'', 1)]" using example_calls_run(2) by blast
  have c: "ag_config busy_agent = busy_config" "ag_started busy_agent" "ag_manager busy_agent = manager_new 0"
    by (simp_all add: busy_agent_def example_agent_def)
  have o: "manager_open (ag_manager busy_agent)"
    by (simp add: c manager_open_def manager_inv_def manager_new_def)
  note B = busy_ready [OF n]
  have ready: "reporter_ready example_agent_env None (sample_rate (ag_config busy_agent)) (busy_profilers n)"
    by (simp add: reporter_ready_def)
  have start: "(0 :: int) \<le> 2" by simp
  obtain r p' ag' bw' where a: "agent_stop example_agent_env S None 5 None example_profilers
      (stop_watch_new 2, busy_profilers n) busy_agent bw = (r, p', ag', bw')"
    by (cases "agent_stop example_agent_env S None 5 None example_profilers
      (stop_watch_new 2, busy_profilers n) busy_agent bw")
  have up: "ae_upload example_agent_env = example_upload" by (simp add: example_agent_env_def)
  have push: "session_push example_upload (session_new tr busy_config [\<lparr>profile_type = ty, batch_data = RawPprof x\<rparr>]) w \<noteq> None"
    for tr ty x w
    by (simp add: session_push_def session_new_def example_upload_def raw_profile_of_def Let_def)
  have ended: "mg_sent (ag_manager ag') = [Upload x, Kill]"
    if "send_waiting example_upload (Upload x) (manager_new 0) = (r1, m1)"
      "agent_stop example_agent_env S None 5 None example_profilers (stop_watch_new 2, busy_profilers n) busy_agent bw =
       (let (ag, bw) = agent_shutdown S example_upload None (busy_agent\<lparr>ag_manager := m1\<rparr>) bw in (Inr (), p1, ag, bw))"
    for x r1 m1 p1
    using that a by (auto simp: agent_shutdown_def send_waiting_def manager_send_def manager_join_def
        busy_agent_def example_agent_def manager_new_def CHANNEL_SIZE_def Let_def case_prod_beta split: prod.splits)
  from snapshot_ships [OF B ready [unfolded c] start, where now = 5 and m = "manager_new 0"]
  obtain n1 mem cpu r1 p1 m1 where s: "snapshot example_agent_env None busy_config 5
      (stop_watch_new 2, busy_profilers n, manager_new 0) = Some (r1, stop_watch_new 5, p1, m1)"
    "native_calls_run [] n = Some n1"
    "ships (ue_wire_profile example_upload) ''memory'' (interned (nt_interner n1)) [] mem"
    "ships (ue_wire_profile example_upload) ''process_cpu'' (interned (nt_interner n1))
      [([\<lparr>function_name = 1, file_name = 0, ffi_line = 3\<rparr>], [5])] cpu"
    "if mem @ cpu @ [] = [] then r1 = Inr () \<and> m1 = manager_new 0
      else send_waiting example_upload (Upload (session_new (2, 3) busy_config (mem @ cpu @ []))) (manager_new 0) = (r1, m1)"
    unfolding Let_def busy_taken busy_env by (auto simp: reports_sent_def)
  have "mem = []" "n1 = n" using s(2,3) by (simp_all add: ships_def)
  from busy_cpu [OF n(2) s(4) [unfolded \<open>n1 = n\<close>]]
  obtain q where q: "cpu = [\<lparr>profile_type = ''process_cpu'', batch_data = RawPprof (ue_wire_profile example_upload q)\<rparr>]"
    "native_samples q = [([Some (''f'', '''', 3)], [5])]" .
  have w: "send_waiting example_upload (Upload (session_new (2, 3) busy_config cpu)) (manager_new 0) = (r1, m1)"
    using s(5) q(1) \<open>mem = []\<close> by simp
  note sent = ended [OF w agent_stop_snapshot [OF c(2), unfolded c, OF s(1), unfolded up]]
  have u: "uploads_return (ae_upload example_agent_env) (ag_manager ag')"
    using push unfolding uploads_return_def up sent q(1) by auto
  from stop_delivers_pending [OF c(2) o B [folded c(1)] ready start a u]
  have "\<exists>mem cpu rep. ships (ue_wire_profile example_upload) ''memory'' (interned (nt_interner n)) [] mem \<and>
    ships (ue_wire_profile example_upload) ''process_cpu'' (interned (nt_interner n))
      [([\<lparr>function_name = 1, file_name = 0, ffi_line = 3\<rparr>], [5])] cpu \<and> rep = [] \<and>
    mg_taken (ag_manager ag') = (if mem @ cpu @ rep = [] then []
      else [Upload (session_new (2, 3) busy_config (mem @ cpu @ rep))]) @ [Kill]"
    unfolding Let_def c busy_taken busy_env by (auto simp: reports_sent_def manager_new_def)
  then obtain mem' cpu' where m': "ships (ue_wire_profile example_upload) ''memory'' (interned (nt_interner n)) [] mem'"
    and t: "ships (ue_wire_profile example_upload) ''process_cpu'' (interned (nt_interner n))
      [([\<lparr>function_name = 1, file_name = 0, ffi_line = 3\<rparr>], [5])] cpu'"
    and taken: "mg_taken (ag_manager ag') = (if mem' @ cpu' @ [] = [] then []
      else [Upload (session_new (2, 3) busy_config (mem' @ cpu' @ []))]) @ [Kill]"
    by blast
  have "mem' = []" using m' by (simp add: ships_def)
  from busy_cpu [OF n(2) t] obtain q' where
    q': "cpu' = [\<lparr>profile_type = ''process_cpu'', batch_data = RawPprof (ue_wire_profile example_upload q')\<rparr>]"
    "native_samples q' = [([Some (''f'', '''', 3)], [5])]" .
  show "\<exists>n q r p' ag' bw'. native_calls_run (example_calls OnCpu) native_new = Some n \<and>
     native_samples q = [([Some (''f'', '''', 3)], [5])] \<and>
     agent_stop example_agent_env S None 5 None example_profilers (stop_watch_new 2, busy_profilers n) busy_agent bw =
       (r, p', ag', bw') \<and>
     mg_taken (ag_manager ag') = [Upload (session_new (2, 3) busy_config
       [\<lparr>profile_type = ''process_cpu'', batch_data = RawPprof (ue_wire_profile example_upload q)\<rparr>]), Kill]"
    using n(1) q' a taken \<open>mem' = []\<close> by (intro exI [of _ n] exI [of _ q'] exI [of _ r] exI [of _ p'] exI [of _ ag'] exI [of _ bw']) simp
qed

end
