(* ===== verification/Build_Scripts.thy ===== *)
theory Build_Scripts
  imports Layouts "HOL-Library.Monad_Syntax"
begin

text \<open>
  \<open>rust/build.rs\<close> and \<open>crates/python-offsets/build.rs\<close>: what a build watches and links, and the
  check of the checked-in layouts (\<open>Layouts\<close>) against the headers of the target's Python. The
  environment, the file system, CMake, the C compiler and the programs that are run are parameters.
  A panic, which fails the build, is \<open>None\<close>. The result of the first is the lines it prints for Cargo
  (without those of \<open>pyo3_build_config\<close>), that of the second the state of the files.
\<close>

subsection \<open>The sources that are watched\<close>

text \<open>A directory that cannot be read has no list of entries.\<close>

datatype file_tree = File | Dir "dir_entry list option"
  and dir_entry = Unreadable | Entry string file_tree

definition join :: "string \<Rightarrow> string \<Rightarrow> string" where "join path nm = path @ ''/'' @ nm"

text \<open>\<open>Path::extension\<close> of a file name: what follows the last dot, unless that is the first character.\<close>

definition file_extension :: "string \<Rightarrow> string option" where
  "file_extension nm =
     (case dropWhile (\<lambda>c. c \<noteq> CHR ''.'') (rev nm) of
        [] \<Rightarrow> None
      | _ # before \<Rightarrow>
          if before = [] then None else Some (rev (takeWhile (\<lambda>c. c \<noteq> CHR ''.'') (rev nm))))"

definition source_file :: "string \<Rightarrow> bool" where
  "source_file nm \<longleftrightarrow> nm = ''CMakeLists.txt'' \<or>
     (case file_extension nm of
        None \<Rightarrow> False
      | Some e \<Rightarrow> e \<in> set [''c'', ''cc'', ''cpp'', ''h'', ''hpp'', ''cmake''])"

definition skipped_dir :: "string \<Rightarrow> bool" where
  "skipped_dir nm \<longleftrightarrow> take 11 nm = ''cmake-build'' \<or> take 1 nm = ''.''"

fun emit_rerun_for_dir :: "string \<Rightarrow> file_tree \<Rightarrow> string list option"
  and emit_entries :: "string \<Rightarrow> dir_entry list \<Rightarrow> string list option" where
  "emit_rerun_for_dir path File = None"
| "emit_rerun_for_dir path (Dir None) = None"
| "emit_rerun_for_dir path (Dir (Some entries)) = emit_entries path entries"
| "emit_entries path [] = Some []"
| "emit_entries path (Unreadable # es) = None"
| "emit_entries path (Entry nm File # es) =
     do { ps \<leftarrow> emit_entries path es; Some (if source_file nm then join path nm # ps else ps) }"
| "emit_entries path (Entry nm (Dir d) # es) =
     (if skipped_dir nm then emit_entries path es
      else do { qs \<leftarrow> emit_rerun_for_dir (join path nm) (Dir d); ps \<leftarrow> emit_entries path es; Some (qs @ ps) })"

text \<open>The files below a directory, by the names on the way to them, and whether all of it can be read.\<close>

inductive below :: "file_tree \<Rightarrow> string list \<Rightarrow> string \<Rightarrow> bool" where
  below_file: "Entry nm File \<in> set es \<Longrightarrow> below (Dir (Some es)) [] nm"
| below_dir: "Entry d (Dir t) \<in> set es \<Longrightarrow> below (Dir t) ds nm \<Longrightarrow> below (Dir (Some es)) (d # ds) nm"

definition full_path :: "string \<Rightarrow> string list \<Rightarrow> string \<Rightarrow> string" where
  "full_path path ds nm = join (foldl join path ds) nm"

inductive_cases below_DirE: "below (Dir (Some es)) ds nm"

lemma below_iff:
  "below (Dir (Some es)) ds nm \<longleftrightarrow>
     (case ds of [] \<Rightarrow> Entry nm File \<in> set es
      | d # ds \<Rightarrow> \<exists>t. Entry d (Dir t) \<in> set es \<and> below (Dir t) ds nm)"
  by (auto intro: below.intros elim: below_DirE split: list.splits)

definition watched :: "file_tree \<Rightarrow> string list \<Rightarrow> string \<Rightarrow> bool" where
  "watched t ds nm \<longleftrightarrow> below t ds nm \<and> source_file nm \<and> list_all (\<lambda>d. \<not> skipped_dir d) ds"

lemma watched_simps [simp]:
  "\<not> watched (Dir (Some [])) ds nm"
  "watched (Dir (Some (Entry f File # es))) ds nm \<longleftrightarrow>
     (ds = [] \<and> nm = f \<and> source_file f) \<or> watched (Dir (Some es)) ds nm"
  "watched (Dir (Some (Entry f (Dir d) # es))) ds nm \<longleftrightarrow>
     (\<not> skipped_dir f \<and> (\<exists>ds'. ds = f # ds' \<and> watched (Dir d) ds' nm)) \<or> watched (Dir (Some es)) ds nm"
  by (cases ds; auto simp: watched_def below_iff)+

lemma full_path_simps: "full_path path [] nm = join path nm" "full_path path (d # ds) nm = full_path (join path d) ds nm"
  by (simp_all add: full_path_def)

lemma emitted:
  "emit_rerun_for_dir path t = Some out \<Longrightarrow>
     x \<in> set out \<longleftrightarrow> (\<exists>ds nm. x = full_path path ds nm \<and> watched t ds nm)"
  "emit_entries path es = Some out \<Longrightarrow>
     x \<in> set out \<longleftrightarrow> (\<exists>ds nm. x = full_path path ds nm \<and> watched (Dir (Some es)) ds nm)"
proof (induction path t and path es arbitrary: out and out rule: emit_rerun_for_dir_emit_entries.induct)
  case (6 path nm es)
  obtain ps where ps: "emit_entries path es = Some ps"
    "out = (if source_file nm then join path nm # ps else ps)" using 6(2) by (auto split: Option.bind_splits)
  have "(\<exists>ds nm'. x = full_path path ds nm' \<and> watched (Dir (Some (Entry nm File # es))) ds nm') \<longleftrightarrow>
      (x = join path nm \<and> source_file nm) \<or> (\<exists>ds nm'. x = full_path path ds nm' \<and> watched (Dir (Some es)) ds nm')"
    unfolding watched_simps full_path_simps(1) [symmetric] by blast
  then show ?case using 6(1) [OF ps(1)] ps(2) by auto
next
  case (7 path nm d es)
  show ?case
  proof (cases "skipped_dir nm")
    case True
    then show ?thesis using 7 by simp
  next
    case False
    obtain qs ps where s: "emit_rerun_for_dir (join path nm) (Dir d) = Some qs" "emit_entries path es = Some ps"
      "out = qs @ ps" using 7(4) False by (auto split: Option.bind_splits)
    have "(\<exists>ds nm'. x = full_path path ds nm' \<and> watched (Dir (Some (Entry nm (Dir d) # es))) ds nm') \<longleftrightarrow>
        (\<exists>ds nm'. x = full_path (join path nm) ds nm' \<and> watched (Dir d) ds nm') \<or>
        (\<exists>ds nm'. x = full_path path ds nm' \<and> watched (Dir (Some es)) ds nm')"
      unfolding watched_simps full_path_simps(2) [symmetric] using False by blast
    then show ?thesis using 7(2) [OF False s(1)] 7(3) [OF False s(1,2)] s(3) by auto
  qed
qed simp_all

subsection \<open>The build of the native profilers\<close>

definition rerun_if_native_sources_changed :: "string \<Rightarrow> string \<Rightarrow> file_tree \<Rightarrow> string list option" where
  "rerun_if_native_sources_changed manifest_dir cpp_dir t =
     do { fs \<leftarrow> emit_rerun_for_dir cpp_dir t;
          Some (List.map (\<lambda>p. ''cargo:rerun-if-changed='' @ p)
            (join manifest_dir ''include/pyroscope_ffi.h'' # fs)) }"

text \<open>\<open>dir\<close> reads the file system, \<open>cmake\<close> builds with the given definitions into a directory.\<close>

definition native_build ::
    "(string \<Rightarrow> string option) \<Rightarrow> (string \<Rightarrow> string option) \<Rightarrow> (string \<Rightarrow> file_tree) \<Rightarrow>
     (string \<Rightarrow> (string \<times> string) list \<Rightarrow> string option) \<Rightarrow> string list option" where
  "native_build env canonicalize dir cmake =
     do { manifest_dir \<leftarrow> env ''CARGO_MANIFEST_DIR'';
          cpp_dir \<leftarrow> canonicalize (join manifest_dir ''../dd-trace-py'');
          watch \<leftarrow> rerun_if_native_sources_changed manifest_dir cpp_dir (dir cpp_dir);
          python_root \<leftarrow> env ''Python3_ROOT_DIR'';
          python_executable \<leftarrow> env ''Python3_EXECUTABLE'';
          dst \<leftarrow> cmake cpp_dir [(''Python3_ROOT_DIR'', python_root), (''Python3_EXECUTABLE'', python_executable),
                  (''Python3_FIND_STRATEGY'', ''LOCATION'')];
          target_os \<leftarrow> env ''CARGO_CFG_TARGET_OS'';
          Some (watch @
            [''cargo:rerun-if-env-changed=Python3_ROOT_DIR'', ''cargo:rerun-if-env-changed=Python3_EXECUTABLE'',
             ''cargo:rustc-link-search=native='' @ dst, ''cargo:rustc-link-lib=static=datadog_mem_profiler_bundled''] @
            (if target_os = ''macos''
             then [''cargo:rustc-link-lib=static=c++'', ''cargo:rustc-link-arg=-undefined'',
                   ''cargo:rustc-link-arg=dynamic_lookup'']
             else [''cargo:rustc-link-lib=static=stdc++''])) }"

subsection \<open>The check of the Python layouts\<close>

text \<open>
  What the check calls, over a state of the file system. \<open>bc_include\<close> asks the interpreter for its
  include directory; it, the compiler and the program give their success.
\<close>

record 'w build_calls =
  bc_env :: "string \<Rightarrow> string option"
  bc_include :: "string \<Rightarrow> 'w \<Rightarrow> (bool \<times> string option) option"
  bc_create_dir_all :: "string \<Rightarrow> 'w \<Rightarrow> 'w option"
  bc_compile :: "string list \<Rightarrow> 'w \<Rightarrow> (bool \<times> 'w) option"
  bc_run :: "string \<Rightarrow> string \<Rightarrow> 'w \<Rightarrow> (bool \<times> 'w) option"
  bc_read :: "string \<Rightarrow> 'w \<Rightarrow> string option"
  bc_write :: "string \<Rightarrow> string \<Rightarrow> 'w \<Rightarrow> 'w option"

definition UPDATE_PYTHON_LAYOUTS :: string where
  "UPDATE_PYTHON_LAYOUTS = ''PYROSCOPE_UPDATE_PYTHON_LAYOUTS''"

definition ascii_space :: "char \<Rightarrow> bool" where
  "ascii_space c \<longleftrightarrow> of_char c = (32 :: nat) \<or> (9 \<le> (of_char c :: nat) \<and> (of_char c :: nat) \<le> 13)"

definition trim :: "string \<Rightarrow> string" where
  "trim s = rev (dropWhile ascii_space (rev (dropWhile ascii_space s)))"

definition guard_ok :: "bool \<Rightarrow> unit option" where "guard_ok b = (if b then Some () else None)"

definition supported_version :: "py_version \<Rightarrow> bool" where
  "supported_version v \<longleftrightarrow> fst v = 3 \<and> 10 \<le> snd v \<and> snd v \<le> 15"

definition checked_in_path :: "string \<Rightarrow> py_version \<Rightarrow> string" where
  "checked_in_path manifest_dir v =
     join manifest_dir (''src/v'' @ to_decimal (fst v) @ ''_'' @ to_decimal (snd v) @ ''.rs'')"

definition check_python_layouts ::
    "'w build_calls \<Rightarrow> py_version \<Rightarrow> string \<Rightarrow> string \<Rightarrow> 'w \<Rightarrow> 'w option" where
  "check_python_layouts C version manifest_dir python_executable w =
     (if \<not> supported_version version then Some w
      else
        do { let source = join manifest_dir ''python_offsets.c'';
             let update = (bc_env C UPDATE_PYTHON_LAYOUTS = Some ''1'');
             (success, stdout) \<leftarrow> bc_include C python_executable w;
             guard_ok success;
             include_dir \<leftarrow> map_option trim stdout;
             out \<leftarrow> bc_env C ''OUT_DIR'';
             let out_dir = join out ''python_layout'';
             w \<leftarrow> bc_create_dir_all C out_dir w;
             let program = join out_dir ''python_offsets'';
             (success, w) \<leftarrow> bc_compile C [''-I'', include_dir, ''-o'', program, source] w;
             guard_ok success;
             (success, w) \<leftarrow> bc_run C program out_dir w;
             guard_ok success;
             generated \<leftarrow> bc_read C (join out_dir ''layout.rs'') w;
             if update then bc_write C (checked_in_path manifest_dir version) generated w
             else
               (let checked_in = (case bc_read C (checked_in_path manifest_dir version) w of None \<Rightarrow> [] | Some s \<Rightarrow> s)
                in do { guard_ok (checked_in = generated); Some w }) })"

definition offsets_build :: "'w build_calls \<Rightarrow> py_version \<Rightarrow> 'w \<Rightarrow> 'w option" where
  "offsets_build C version w =
     (if \<not> supported_version version then Some w
      else
        do { manifest_dir \<leftarrow> bc_env C ''CARGO_MANIFEST_DIR'';
             python \<leftarrow> bc_env C ''Python3_EXECUTABLE'';
             check_python_layouts C version manifest_dir python w })"

lemma digit_chars:
  "char_of (48 :: nat) = CHR ''0''" "char_of (49 :: nat) = CHR ''1''" "char_of (50 :: nat) = CHR ''2''"
  "char_of (51 :: nat) = CHR ''3''" "char_of (52 :: nat) = CHR ''4''" "char_of (53 :: nat) = CHR ''5''"
  by (rule char_of_eq_iff [THEN iffD2], simp)+

lemma to_decimal_simps:
  "to_decimal 3 = ''3''" "to_decimal 10 = ''10''" "to_decimal 11 = ''11''" "to_decimal 12 = ''12''"
  "to_decimal 13 = ''13''" "to_decimal 14 = ''14''" "to_decimal 15 = ''15''"
  by (simp_all add: to_decimal_def digits.simps digit_chars)

lemma char_before_suffix: "xs @ [a] @ zs = ys @ [b] @ zs \<Longrightarrow> a = b"
  by (metis append_assoc append_same_eq last_snoc)

lemma generated_is_not_checked_in:
  assumes "supported_version v"
  shows "join out_dir ''layout.rs'' \<noteq> checked_in_path m v"
proof
  assume e: "join out_dir ''layout.rs'' = checked_in_path m v"
  have "snd v \<in> {10, 11, 12, 13, 14, 15}" "fst v = 3" using assms by (auto simp: supported_version_def)
  then have c: "checked_in_path m v = (m @ ''/src/v3_1'') @ [char_of (38 + snd v)] @ ''.rs''"
    "char_of (38 + snd v) \<noteq> CHR ''t''"
    by (auto simp: checked_in_path_def join_def to_decimal_simps digit_chars)
  have "(out_dir @ ''/layou'') @ [CHR ''t''] @ ''.rs'' = (m @ ''/src/v3_1'') @ [char_of (38 + snd v)] @ ''.rs''"
    using e unfolding c(1) by (simp add: join_def)
  from char_before_suffix [OF this] show False using c(2) by simp
qed

subsection \<open>Properties\<close>

text \<open>
  C40: A build is repeated exactly when a source of the native profilers changes. If the build script
  succeeds, the paths it watches are the FFI header and the C, C++ and CMake files below the native
  sources, however deep, that are not in a hidden or a CMake build directory; no other.
\<close>

theorem build_watches_sources:
  assumes "native_build env canonicalize dir cmake = Some out"
  shows "\<exists>m cpp. env ''CARGO_MANIFEST_DIR'' = Some m \<and> canonicalize (join m ''../dd-trace-py'') = Some cpp \<and>
    (''cargo:rerun-if-changed='' @ p \<in> set out \<longleftrightarrow>
       p = join m ''include/pyroscope_ffi.h'' \<or> (\<exists>ds nm. p = full_path cpp ds nm \<and> watched (dir cpp) ds nm))"
proof -
  obtain m cpp fs where s: "env ''CARGO_MANIFEST_DIR'' = Some m" "canonicalize (join m ''../dd-trace-py'') = Some cpp"
    "emit_rerun_for_dir cpp (dir cpp) = Some fs"
    and o: "''cargo:rerun-if-changed='' @ p \<in> set out \<longleftrightarrow> p = join m ''include/pyroscope_ffi.h'' \<or> p \<in> set fs"
    using assms by (auto simp: native_build_def rerun_if_native_sources_changed_def image_iff split: Option.bind_splits if_splits)
  show ?thesis using s(1,2) o emitted(1) [OF s(3)] by blast
qed

text \<open>
  A build that succeeds has checked the layouts. For a supported Python the layout file the crate
  compiles equals the one generated from the headers of the target, whether the build compared or,
  asked to update, wrote it; the two files are never the same one.
\<close>

theorem layouts_match_headers:
  assumes "supported_version v" and "offsets_build C v w = Some w'"
    and "\<And>p s w1 w2. bc_write C p s w1 = Some w2 \<Longrightarrow>
      bc_read C p w2 = Some s \<and> (\<forall>q. q \<noteq> p \<longrightarrow> bc_read C q w2 = bc_read C q w1)"
  shows "\<exists>m out g. bc_env C ''CARGO_MANIFEST_DIR'' = Some m \<and> bc_env C ''OUT_DIR'' = Some out \<and>
    bc_read C (join (join out ''python_layout'') ''layout.rs'') w' = Some g \<and>
    (bc_read C (checked_in_path m v) w' = Some g \<or> g = [] \<and> bc_read C (checked_in_path m v) w' = None)"
proof -
  obtain m out w1 g where s: "bc_env C ''CARGO_MANIFEST_DIR'' = Some m" "bc_env C ''OUT_DIR'' = Some out"
    "bc_read C (join (join out ''python_layout'') ''layout.rs'') w1 = Some g"
    and e: "if bc_env C UPDATE_PYTHON_LAYOUTS = Some ''1'' then bc_write C (checked_in_path m v) g w1 = Some w'
      else w' = w1 \<and> (case bc_read C (checked_in_path m v) w1 of None \<Rightarrow> [] | Some s \<Rightarrow> s) = g"
    using assms(1,2)
    by (auto simp: offsets_build_def check_python_layouts_def guard_ok_def Let_def split: Option.bind_splits if_splits prod.splits)
  show ?thesis
  proof (cases "bc_env C UPDATE_PYTHON_LAYOUTS = Some ''1''")
    case True
    then have "bc_read C (checked_in_path m v) w' = Some g"
      "bc_read C (join (join out ''python_layout'') ''layout.rs'') w' = Some g"
      using e assms(3) s(3) generated_is_not_checked_in [OF assms(1)] by auto
    then show ?thesis using s(1,2) by blast
  next
    case False
    then show ?thesis using e s by (auto split: option.splits)
  qed
qed

subsection \<open>Witnesses\<close>

definition example_build_env :: "string \<Rightarrow> string option" where
  "example_build_env k = (if k = ''CARGO_CFG_TARGET_OS'' then Some ''linux'' else
     if k = ''PYROSCOPE_UPDATE_PYTHON_LAYOUTS'' then Some ''1'' else Some ''/d'')"

definition example_tree :: file_tree where
  "example_tree = Dir (Some [Entry ''a'' (Dir (Some [Entry ''b.hpp'' File, Entry ''c.md'' File])),
     Entry ''.x'' (Dir (Some [Entry ''d.c'' File]))])"

definition example_files :: "(string \<Rightarrow> string option) build_calls" where
  "example_files = \<lparr>bc_env = example_build_env, bc_include = (\<lambda>_ _. Some (True, Some '' /i'')),
     bc_create_dir_all = (\<lambda>_ w. Some w), bc_compile = (\<lambda>_ w. Some (True, w)),
     bc_run = (\<lambda>_ d w. Some (True, w(join d ''layout.rs'' := Some ''L''))),
     bc_read = (\<lambda>p w. w p), bc_write = (\<lambda>p s w. Some (w(p := Some s)))\<rparr>"

lemma example_emits: "emit_rerun_for_dir ''/n'' example_tree = Some [''/n/a/b.hpp'']"
  by (simp add: example_tree_def skipped_dir_def source_file_def file_extension_def join_def)

theorem build_watches_sources_witness:
  "\<exists>out. native_build example_build_env (\<lambda>_. Some ''/n'') (\<lambda>_. example_tree) (\<lambda>_ _. Some ''/o'') = Some out \<and>
     ''cargo:rerun-if-changed=/n/a/b.hpp'' \<in> set out \<and>
     (\<exists>ds nm. ''/n/a/b.hpp'' = full_path ''/n'' ds nm \<and> watched example_tree ds nm)"
proof -
  obtain out where o: "native_build example_build_env (\<lambda>_. Some ''/n'') (\<lambda>_. example_tree) (\<lambda>_ _. Some ''/o'') = Some out"
    by (simp add: native_build_def rerun_if_native_sources_changed_def example_emits example_build_env_def)
  have i: "''cargo:rerun-if-changed=/n/a/b.hpp'' \<in> set out"
    using o by (auto simp: native_build_def rerun_if_native_sources_changed_def example_emits example_build_env_def)
  have "''/n/a/b.hpp'' \<noteq> join ''/d'' ''include/pyroscope_ffi.h''" by (simp add: join_def)
  with build_watches_sources [OF o, of "''/n/a/b.hpp''"] i
  have "\<exists>ds nm. ''/n/a/b.hpp'' = full_path ''/n'' ds nm \<and> watched example_tree ds nm"
    by (simp add: example_build_env_def)
  then show ?thesis using o i by blast
qed

theorem layouts_match_headers_witness:
  "\<exists>w'. offsets_build example_files (3, 12) (\<lambda>_. None) = Some w' \<and>
     w' (join (join ''/d'' ''python_layout'') ''layout.rs'') = Some ''L'' \<and> w' (checked_in_path ''/d'' (3, 12)) = Some ''L''"
proof -
  have v: "supported_version (3, 12)" by (simp add: supported_version_def)
  obtain w' where o: "offsets_build example_files (3, 12) (\<lambda>_. None) = Some w'"
    and l: "w' (join (join ''/d'' ''python_layout'') ''layout.rs'') = Some ''L''"
    using generated_is_not_checked_in [OF v, of "join ''/d'' ''python_layout''" "''/d''"]
    by (simp add: offsets_build_def check_python_layouts_def v example_files_def example_build_env_def
        UPDATE_PYTHON_LAYOUTS_def guard_ok_def Let_def)
  have "bc_read example_files p w2 = Some s \<and> (\<forall>q. q \<noteq> p \<longrightarrow> bc_read example_files q w2 = bc_read example_files q w1)"
    if "bc_write example_files p s w1 = Some w2" for p s w1 w2
    using that by (auto simp: example_files_def)
  from layouts_match_headers [OF v o this] o l show ?thesis
    by (auto simp: example_files_def example_build_env_def)
qed

end
