(* ===== verification/Spec2Isabelle.thy ===== *)
theory Spec2Isabelle
  imports Ringbuffer_Concurrent Upload_Request Snapshot_Complete Build_Scripts
begin

text \<open>
  Verification of the Rust part of pyroscope-python: the extension module \<open>_native\<close> of \<open>rust/src\<close>
  and the crates \<open>ringbuffer\<close>, \<open>python-offsets\<close>, \<open>python-unwind\<close> and \<open>signal-timer\<close> of
  \<open>rust/crates\<close>.

  \<^bold>\<open>The program.\<close> Python calls the functions of \<open>rust/src/lib.rs\<close>. \<open>initialize_agent\<close> builds a
  configuration and hands it to \<open>ffikit::run\<close>, which claims the one agent of the process, starts the
  memory profiler and the CPU stack sampler (native code that pushes samples through \<open>ffi.rs\<close> into
  profile builders and interns its strings in a shared table), and builds a \<open>PyroscopeAgent\<close> with at
  most one CPU backend. The py-spy backend samples on a thread of its own; the signal backend owns
  \<open>SIGPROF\<close> and a timer, its handler walks CPython's frame chain and publishes records in a ring
  buffer, and its thread drains and resolves them. Both fill a \<open>StackBuffer\<close>. The agent's main thread
  wakes at each upload interval, takes the profiles and the report, and sends them as a session over
  a bounded channel to the session manager's thread, which uploads them. \<open>drop_agent\<close> undoes all of
  this in order; a fork hook resets the agent and the native profilers in the child.

  \<^bold>\<open>Conventions.\<close> A panic, or a loop that does not return, is \<open>None\<close>; a \<open>Result\<close> is a sum with the
  error on the left; a struct is a record, an enum a datatype; \<open>usize\<close>, \<open>u32\<close> and \<open>u8\<close> are words where
  the code's arithmetic on them can wrap, and naturals with written-out casts (\<open>Prelude\<close>) elsewhere; a
  hash map is a list of pairs. A mutex that a panic can poison is its content with a flag. Code
  outside the repository (the kernel, CPython's memory, py-spy, the native profilers, reqwest, gzip,
  the byte encodings of prost, UUIDs, hashing) is a record of functions over a state of its own,
  given as an argument. Log lines are left out.

  \<^bold>\<open>The theories\<close>, in the order of the layers, and last those that join several:
  \<^item> \<open>Prelude\<close>: machine types, casts, ordered sets as lists, lemma collections.
  \<^item> \<open>Ringbuffer\<close> (\<open>crates/ringbuffer/src/lib.rs\<close>): every operation, and the locales \<open>record_sink\<close> and
    \<open>record_source\<close> with the queue contract its users rely on. It is shown to be a bounded FIFO queue.
    \<open>Ringbuffer_Concurrent\<close> takes the same operations apart into single shared accesses, interleaved by
    any number of threads and handlers, and shows the popped records a prefix of the pushed ones.
  \<^item> \<open>Layouts\<close> and \<open>Unwind\<close> (\<open>crates/python-offsets\<close>, \<open>crates/python-unwind\<close>): the checked-in layouts
    and the signal handler. The walk is exact on chains within its bounds, ends on every other one, and a
    handler run publishes a record or counts one loss. The walk is bounded by the code's own counter.
  \<^item> \<open>Signal_Timer\<close> (\<open>crates/signal-timer\<close>): exclusive ownership of the signal and the timer; a kernel
    timer per registered thread and none left over.
  \<^item> \<open>Errors\<close>, \<open>Time_Range\<close> (\<open>error.rs\<close>, \<open>utils.rs\<close>): the error type, time ranges, the stop watch.
  \<^item> \<open>Backend_Types\<close> (\<open>backend/\<close>): traces, tags, thread rules, the stack buffer and its reports.
  \<^item> \<open>String_Table\<close> and \<open>Pprof\<close> (\<open>encode/\<close>): the string table, the interner of native code (locale
    \<open>id_table\<close>, interpreted for strings and for the identifier maps of the builder), and the
    builder, whose profiles resolve to what was put in.
  \<^item> \<open>Signal_Sampler\<close> and \<open>Signal_Backend\<close> (\<open>signal_sampler.rs\<close>, \<open>signal_sampler/resolve.rs\<close>,
    \<open>signal_backend.rs\<close>): the session, draining and resolving, the accounting of every tick, the
    backend's thread, and the registry of Python threads.
  \<^item> \<open>Leakable_Mutex\<close> (\<open>forksafety.rs\<close>): lazy allocation by racing threads and the reset after a fork
    refine one value, which is how the other theories model these globals.
  \<^item> \<open>Native_Profile\<close>, \<open>Memory\<close>, \<open>Stack\<close> (\<open>ffi.rs\<close>, \<open>memory.rs\<close>, \<open>stack/\<close>): the two native profilers.
    The locale \<open>profiler\<close> states what the agent relies on when it starts and stops them, and is
    interpreted for both. Their dumps are complete, and the sampler's options valid and fixed.
  \<^item> \<open>Pyspy_Backend\<close> (\<open>pyspy_backend.rs\<close>): the py-spy thread and the reporter of both backends; no trace
    is lost or counted twice between sampling and reporting.
  \<^item> \<open>Config\<close>, \<open>Session\<close>, \<open>Agent\<close> (\<open>pyroscope.rs\<close>, \<open>session.rs\<close>): the configuration, labels and uploads,
    the session manager, the main thread and the orderly stop, which uploads all that was sent.
  \<^item> \<open>Ffikit\<close> (\<open>ffikit.rs\<close>): the agent of the process, whole calls and their locked parts as steps of
    concurrent threads, among them those of the agent before it is published and after it is claimed,
    and the sampler's own moves. At most one operation is under way, and the state says which
    profilers were started.
  \<^item> \<open>Lib\<close> (\<open>lib.rs\<close>): the functions of the module and the fork hooks, over any sequence of calls,
    with panicked starts and forks in the middle of another thread's call.
  \<^item> \<open>Snapshot_Complete\<close> (\<open>snapshot\<close> and \<open>stop\<close> across \<open>memory.rs\<close>, \<open>stack/\<close>,
    \<open>pyspy_backend.rs\<close>, \<open>pyroscope.rs\<close>): whichever profilers are configured, one snapshot sends every
    sample that is pending and empties what it sent, and a stop delivers all of it.
  \<^item> \<open>Upload_Request\<close> (\<open>Session::push\<close> with \<open>encode/pprof.rs\<close>, and \<open>pyroscope.rs\<close>, \<open>lib.rs\<close>): the
    request an upload sends reads back as the session's batches; what a panic of it does to the agent.
  \<^item> \<open>Build_Scripts\<close> (\<open>build.rs\<close>, \<open>crates/python-offsets/build.rs\<close>): the sources a build watches, and
    the check of the layouts of \<open>Layouts\<close> against the target's headers.

  \<^bold>\<open>Hypotheses.\<close> Laws of code outside the repository are named definitions: \<open>memalloc_hooks\<close> and
  \<open>engine_runs\<close> say that a successful start of the native profilers starts them, that stopping stops
  them and that the other calls change neither. The sampler also moves on its own (\<open>eng_moves\<close>): it
  may die while the agent runs, as \<open>stack.md\<close> and \<open>report_sampling_thread_error\<close> say, so that a state
  only bounds whether it is at work, while the mark \<open>STARTED\<close> says whether it will be stopped. Stopping
  it means telling it to stop; that \<open>Sampler::stop\<close> can time out, and samples be pushed after it, is
  a known issue of the native code and not excluded. \<open>panic_leaves\<close> says which calls of a panicked
  snapshot were made. \<open>reporter_ready\<close> is what a report needs not to fail. A theorem that has them has a
  witness on a concrete instance. A panic of an upload ends the session manager; \<open>uploads_return\<close>
  excludes it where a theorem speaks of all uploads.

  \<^bold>\<open>Not modelled.\<close> Weak memory orders: shared accesses are sequentially consistent. Preemption inside
  the critical sections of ordinary mutexes. Spurious failures of thread creation and allocation. The
  macOS variants of \<open>no_dispatch_semaphore\<close> and of the timers. The bytes of a protobuf message: a
  profile is its message value. The registration of the functions and hooks with Python, and the
  C++ code, Python code and tests of the repository. Concurrent calls into the
  module are the subject of \<open>Ffikit\<close>; \<open>Lib\<close> takes its calls one at a time, except that a fork may find
  others under way. What a fork makes of the kernel's timers and signal handlers: the hook does not
  touch them, and they may be anything in the child.
\<close>

end
